(* ===== verification/Prelude.thy ===== *)
theory Prelude
  imports Main "HOL-Library.Word" "HOL-Library.Sublist"
begin

text \<open>
  Shared vocabulary of the library: the machine integers of the RP2040 target, the
  little-endian bit collector that every infrared decoder and encoder is built from, the
  conversion between C++ \<open>char\<close> (unsigned on this target) and \<open>uint8_t\<close>, and the named
  collections the component theories put their facts into.
\<close>

unbundle bit_operations_syntax

type_synonym u8 = "8 word"
type_synonym u16 = "16 word"
type_synonym u32 = "32 word"
type_synonym u64 = "64 word"

named_theorems ir_defs
  \<open>definitions of the straight-line receiver operations, unfolded together\<close>
named_theorems trace_simps
  \<open>effect of an operation on the trace of calls it makes\<close>
named_theorems wf_intros
  \<open>well-formedness is kept by an operation\<close>
named_theorems abs_simps
  \<open>an operation commutes with the abstraction function of its data type\<close>

section \<open>Bits, least significant first\<close>

text \<open>
  The decoders build a value with a one-bit mask that starts at 1 and is shifted left once
  per received bit.  \<open>collect bs m acc\<close> is that loop with the received bits as a list.
\<close>

fun collect :: "bool list \<Rightarrow> 'a::len word \<Rightarrow> 'a word \<Rightarrow> 'a word" where
  "collect [] m acc = acc"
| "collect (b # bs) m acc = collect bs (push_bit 1 m) (if b then acc OR m else acc)"

lemma collect_append:
  "collect (as @ bs) m acc = collect bs (push_bit (length as) m) (collect as m acc)"
  by (induction as arbitrary: m acc) (simp_all add: ac_simps)

lemma bit_collect:
  "bit (collect bs (push_bit j 1) acc) i \<longleftrightarrow>
     bit acc i \<or> (j \<le> i \<and> i < j + length bs \<and> i < LENGTH('a) \<and> bs ! (i - j))"
  for acc :: "'a::len word"
proof (induction bs arbitrary: j acc)
  case Nil
  then show ?case by auto
next
  case (Cons b bs)
  have step: "collect (b # bs) (push_bit j 1) acc =
      collect bs (push_bit (Suc j) 1) (if b then acc OR push_bit j 1 else acc)"
    by (simp add: mult.commute)
  have one: "bit (push_bit j 1 :: 'a word) k \<longleftrightarrow> k = j \<and> k < LENGTH('a)" for k
    by (auto simp: bit_exp_iff)
  show ?case
    unfolding step Cons.IH
    by (cases "i = j"; cases b) (auto simp: bit_or_iff one nth_Cons' Suc_le_eq simp del: push_bit_of_1)
qed

lemma collect_bits:
  assumes "LENGTH('a) \<le> n"
  shows "collect (map (bit w) [0..<n]) 1 0 = (w :: 'a::len word)"
proof (rule bit_word_eqI)
  fix i assume "i < LENGTH('a)"
  with assms show "bit (collect (map (bit w) [0..<n]) 1 (0 :: 'a word)) i = bit w i"
    using bit_collect [of "map (bit w) [0..<n]" 0 "0 :: 'a word" i] by simp
qed

lemma collect_bits_mask:
  "collect (map (bit w) [0..<n]) 1 0 = (take_bit n w :: 'a::len word)"
proof (rule bit_word_eqI)
  fix i assume "i < LENGTH('a)"
  then show "bit (collect (map (bit w) [0..<n]) 1 (0 :: 'a word)) i = bit (take_bit n w) i"
    using bit_collect [of "map (bit w) [0..<n]" 0 "0 :: 'a word" i]
    by (auto simp: bit_take_bit_iff)
qed

section \<open>C++ char and uint8\_t\<close>

text \<open>
  \<open>char\<close> is an unsigned 8-bit type on the ARM and RISC-V targets of the Pico SDK, so a
  \<open>char\<close> of a \<open>std::string\<close> converts to \<open>int\<close> and to \<open>uint8_t\<close> without a sign.
\<close>

definition byte_of :: "char \<Rightarrow> u8" where
  "byte_of c = word_of_nat (of_char c)"

definition char_of_byte :: "u8 \<Rightarrow> char" where
  "char_of_byte b = char_of (unat b)"

lemma char_of_byte_of [simp]: "char_of_byte (byte_of c) = c"
  by (simp add: char_of_byte_def byte_of_def unat_of_nat)

lemma byte_of_char_of [simp]: "byte_of (char_of_byte b) = b"
proof -
  have "unat b < 256" using unsigned_less [of b, where 'a = nat] by simp
  then show ?thesis by (simp add: char_of_byte_def byte_of_def)
qed

lemma byte_of_eq_iff [simp]: "byte_of c = byte_of d \<longleftrightarrow> c = d"
  by (metis char_of_byte_of)

lemma char_of_byte_eq_iff [simp]: "char_of_byte a = char_of_byte b \<longleftrightarrow> a = b"
  by (metis byte_of_char_of)

section \<open>Arrays\<close>

text \<open>\<open>write_at xs i v\<close> is a run of element writes starting at index \<open>i\<close>.\<close>

definition write_at :: "'a list \<Rightarrow> nat \<Rightarrow> 'a list \<Rightarrow> 'a list" where
  "write_at xs i vs = take i xs @ vs @ drop (i + length vs) xs"

lemma length_write_at [simp]:
  "i + length vs \<le> length xs \<Longrightarrow> length (write_at xs i vs) = length xs"
  by (simp add: write_at_def)

lemma write_at_Nil [simp]: "write_at xs i [] = xs"
  by (simp add: write_at_def)

lemma write_at_single: "i < length xs \<Longrightarrow> write_at xs i [v] = xs[i := v]"
  by (simp add: write_at_def upd_conv_take_nth_drop)

lemma write_at_Cons:
  assumes "i + length (v # vs) \<le> length xs"
  shows "write_at xs i (v # vs) = write_at (xs[i := v]) (Suc i) vs"
  using assms
  by (simp add: write_at_def take_Suc_conv_app_nth [of i "xs[i := v]"] drop_update_swap)

lemma write_at_full: "length vs = length xs \<Longrightarrow> write_at xs 0 vs = vs"
  by (simp add: write_at_def)

lemma take_write_at: "i \<le> length xs \<Longrightarrow> take (i + length vs) (write_at xs i vs) = take i xs @ vs"
  by (simp add: write_at_def)

lemma nth_write_at_after:
  assumes "i + length vs \<le> j" "j < length xs"
  shows "write_at xs i vs ! j = xs ! j"
proof -
  have "\<not> j < i" "\<not> j - i < length vs" using assms by auto
  then show ?thesis using assms by (simp add: write_at_def nth_append)
qed

lemma nth_write_at:
  assumes "i + length vs \<le> length xs" "j < length xs"
  shows "write_at xs i vs ! j = (if i \<le> j \<and> j < i + length vs then vs ! (j - i) else xs ! j)"
  using assms by (auto simp: write_at_def nth_append)

lemma drop_write_at:
  "i + length vs \<le> n \<Longrightarrow> n \<le> length xs \<Longrightarrow> drop n (write_at xs i vs) = drop n xs"
  by (simp add: write_at_def)

section \<open>Counting down\<close>

lemma unat_pred: "0 < unat w \<Longrightarrow> unat (w - 1) = unat w - 1"
  by (rule unat_minus_one) auto

section \<open>Signed readings\<close>

lemma sint_small: "- (2 ^ 31) \<le> x \<Longrightarrow> x < 2 ^ 31 \<Longrightarrow> sint (word_of_int x :: u32) = x"
  by (simp add: sint_word_ariths signed_take_bit_int_eq_self sint_sbintrunc')

lemma sint_unat:
  assumes "unat (w :: u32) < 2 ^ 31"
  shows "sint w = int (unat w)"
proof -
  have "uint w < 2 ^ 31" using assms of_nat_less_iff [of "unat w" "2 ^ 31", where ?'a = int] by simp
  moreover have "- (2 ^ 31) \<le> uint w" by (rule order_trans [of _ 0]) simp_all
  ultimately have "sint (word_of_int (uint w) :: u32) = uint w" by (intro sint_small)
  then show ?thesis by simp
qed

end
