(* ===== verification/Ir_Receiver.thy ===== *)
theory Ir_Receiver
  imports Prelude
begin

text \<open>
  The receiver base class (\<open>ir/ir_receiver.h\<close>, \<open>ir/ir_receiver.cpp\<close>).  The object is the
  record \<open>ir_receiver\<close>; a protocol class extends the record with its own members and supplies
  its virtual functions as a table \<open>ir_vtable\<close>.  Everything the object asks of the SDK or of
  the application (alarms, semaphore, callbacks) is appended to the trace \<open>ir_calls\<close>.  The
  alarm pool of the SDK is the parameter \<open>pool\<close>: the identifier it answers a request with,
  which may depend on everything the object did before.  Callbacks are taken not to call back
  into the receiver, as the header asks of them.

  \<open>n_pulse_\<close>, \<open>mx_pulse_\<close> and \<open>prev_count_\<close> count cells of the pulse buffer and are
  natural numbers; that they stay within the buffer is proved, not assumed.  Pulse times,
  timestamps, timeouts and the synchronisation counter keep their machine width.
\<close>

section \<open>State\<close>

type_synonym alarm_id = int

datatype ir_call =
    Rcv_Callback u64 u16 u16
  | Rpt_Callback u64 u16 u16
  | Tmo_Callback bool nat
  | Err_Callback
  | Add_Msg_Alarm alarm_id u32
  | Add_Bit_Alarm alarm_id u32
  | Cancel_Alarm alarm_id
  | Alarm_Over alarm_id
  | Sem_Release

record ir_receiver =
  ir_gpio :: u32
  ir_pulses :: "u32 list"
  ir_n_pulse :: nat
  ir_mx_pulse :: nat
  ir_prev_ts :: u64
  ir_sync :: u8
  ir_rcb :: bool
  ir_rpt :: bool
  ir_rpt_addr :: u16
  ir_rpt_func :: u16
  ir_tmo :: "(bool \<Rightarrow> nat \<Rightarrow> u32 list \<Rightarrow> bool) option"
  ir_msg_timer :: alarm_id
  ir_bit_timer :: alarm_id
  ir_msg_timeout :: u32
  ir_bit_timeout :: u32
  ir_prev_count :: nat
  ir_err :: bool
  ir_calls :: "ir_call list"

type_synonym pool = "ir_call list \<Rightarrow> alarm_id"

record 'z ir_vtable =
  vt_check_sync :: "u64 \<Rightarrow> bool \<Rightarrow> 'z ir_receiver_scheme \<Rightarrow> bool \<times> 'z ir_receiver_scheme"
  vt_check_bit_timeout :: "'z ir_receiver_scheme \<Rightarrow> bool"
  vt_message_complete :: "u64 \<Rightarrow> 'z ir_receiver_scheme \<Rightarrow> 'z ir_receiver_scheme"
  vt_timeout :: "bool \<Rightarrow> 'z ir_receiver_scheme \<Rightarrow> bool \<times> 'z ir_receiver_scheme"

text \<open>The constructor; \<open>mem\<close> is the content of the freshly allocated pulse buffer.\<close>

definition ir_new :: "u32 \<Rightarrow> nat \<Rightarrow> (nat \<Rightarrow> u32) \<Rightarrow> ir_receiver" where
  "ir_new gpio n_pulse mem =
     \<lparr> ir_gpio = gpio, ir_pulses = map mem [0..<n_pulse], ir_n_pulse = 0, ir_mx_pulse = n_pulse,
       ir_prev_ts = 0, ir_sync = 0, ir_rcb = False, ir_rpt = False, ir_rpt_addr = 0,
       ir_rpt_func = 0, ir_tmo = None, ir_msg_timer = -1, ir_bit_timer = -1,
       ir_msg_timeout = 0, ir_bit_timeout = 0, ir_prev_count = 0, ir_err = False,
       ir_calls = [] \<rparr>"

section \<open>Operations\<close>

definition ir_emit :: "ir_call \<Rightarrow> 'z ir_receiver_scheme \<Rightarrow> 'z ir_receiver_scheme" where
  "ir_emit c s = s\<lparr>ir_calls := ir_calls s @ [c]\<rparr>"

definition compare_pulse :: "u32 \<Rightarrow> u32 \<Rightarrow> u32 \<Rightarrow> bool" where
  "compare_pulse pulse nom_pulse band \<longleftrightarrow> pulse > nom_pulse - band \<and> pulse < nom_pulse + band"

text \<open>
  \<open>put_pulse p\<close> is \<open>pulses_[n_pulse_++] = p\<close>.  A write outside the buffer would be
  undefined behaviour; \<open>ir_ok\<close> below shows that it does not happen.
\<close>

definition put_pulse :: "u32 \<Rightarrow> 'z ir_receiver_scheme \<Rightarrow> 'z ir_receiver_scheme" where
  "put_pulse p s = s\<lparr>ir_pulses := (ir_pulses s)[ir_n_pulse s := p],
                     ir_n_pulse := Suc (ir_n_pulse s)\<rparr>"

definition cancel_bit_timer :: "'z ir_receiver_scheme \<Rightarrow> 'z ir_receiver_scheme" where
  "cancel_bit_timer s =
     (if ir_bit_timer s \<noteq> -1
      then (ir_emit (Cancel_Alarm (ir_bit_timer s)) s)\<lparr>ir_bit_timer := -1\<rparr> else s)"

definition cancel_msg_timer :: "'z ir_receiver_scheme \<Rightarrow> 'z ir_receiver_scheme" where
  "cancel_msg_timer s =
     (if ir_msg_timer s \<noteq> -1
      then (ir_emit (Cancel_Alarm (ir_msg_timer s)) s)\<lparr>ir_msg_timer := -1\<rparr> else s)"

definition ir_reset :: "'z ir_receiver_scheme \<Rightarrow> 'z ir_receiver_scheme" where
  "ir_reset s =
     ir_emit Sem_Release
       (cancel_msg_timer (cancel_bit_timer (s\<lparr>ir_sync := 0, ir_n_pulse := 0\<rparr>)))"

definition ir_message_error :: "'z ir_receiver_scheme \<Rightarrow> 'z ir_receiver_scheme" where
  "ir_message_error s = ir_reset (if ir_err s then ir_emit Err_Callback s else s)"

text \<open>
  \<open>decode\<close> is the virtual \<open>decode_message\<close>; it writes through its reference arguments, the
  repeat address and function, whether it succeeds or not.
\<close>

definition ir_message_complete ::
  "('z ir_receiver_scheme \<Rightarrow> bool \<times> u16 \<times> u16) \<Rightarrow> u64 \<Rightarrow>
     'z ir_receiver_scheme \<Rightarrow> 'z ir_receiver_scheme" where
  "ir_message_complete decode ts s =
     (case decode s of (ok, addr, func) \<Rightarrow>
        let s1 = s\<lparr>ir_rpt_addr := addr, ir_rpt_func := func\<rparr>
        in if ok
           then ir_reset (if ir_rcb s1 then ir_emit (Rcv_Callback ts addr func) s1 else s1)
           else ir_message_error s1)"

definition ir_timeout :: "bool \<Rightarrow> 'z ir_receiver_scheme \<Rightarrow> bool \<times> 'z ir_receiver_scheme" where
  "ir_timeout msg s =
     (case ir_tmo s of
        Some tmo \<Rightarrow>
          (let ret = tmo msg (ir_n_pulse s) (ir_pulses s);
               s1 = ir_emit (Tmo_Callback msg (ir_n_pulse s)) s
           in (ret, if ret then s1 else ir_reset s1))
      | None \<Rightarrow> (False, ir_message_error s))"

definition start_message_timeout :: "pool \<Rightarrow> 'z ir_receiver_scheme \<Rightarrow> 'z ir_receiver_scheme" where
  "start_message_timeout pool s =
     (if ir_msg_timeout s > 0 \<and> ir_msg_timer s = -1
      then let timer = pool (ir_calls s)
           in (ir_emit (Add_Msg_Alarm timer (ir_msg_timeout s)) s)\<lparr>ir_msg_timer := timer\<rparr>
      else s)"

definition start_timeout :: "pool \<Rightarrow> 'z ir_receiver_scheme \<Rightarrow> 'z ir_receiver_scheme" where
  "start_timeout pool s =
     (let s1 = start_message_timeout pool s
      in if ir_bit_timeout s1 > 0
         then let s2 = s1\<lparr>ir_prev_count := ir_n_pulse s1\<rparr>;
                  timer = pool (ir_calls s2)
              in (ir_emit (Add_Bit_Alarm timer (ir_bit_timeout s2)) s2)\<lparr>ir_bit_timer := timer\<rparr>
         else s1)"

text \<open>The edge interrupt.  \<open>ts - prev_ts_\<close> is 64 bits wide and is cut to 32 on storing.\<close>

definition store_pulse :: "'z ir_vtable \<Rightarrow> u64 \<Rightarrow> 'z ir_receiver_scheme \<Rightarrow> 'z ir_receiver_scheme" where
  "store_pulse vt ts s =
     (let s1 = if ir_n_pulse s < ir_mx_pulse s
               then put_pulse (ucast (ts - ir_prev_ts s)) s else s
      in if ir_n_pulse s1 = ir_mx_pulse s1 then vt_message_complete vt ts s1 else s1)"

definition store_timestamp ::
  "pool \<Rightarrow> 'z ir_vtable \<Rightarrow> u64 \<Rightarrow> bool \<Rightarrow> 'z ir_receiver_scheme \<Rightarrow> 'z ir_receiver_scheme" where
  "store_timestamp pool vt ts falling s =
     (let psy = ir_sync s;
          (sync, s1) = vt_check_sync vt ts falling s;
          s2 = if sync then store_pulse vt ts s1 else s1;
          s3 = s2\<lparr>ir_prev_ts := ts\<rparr>
      in if psy = 0 \<and> ir_sync s3 \<noteq> 0 then start_timeout pool s3 else s3)"

text \<open>
  The interrupt dispatcher: every registered receiver on the pin gets the edge, and
  \<open>falling\<close> is inverted because the demodulator's output is active low.
\<close>

definition ir_gpio_cb ::
  "pool \<Rightarrow> u64 \<Rightarrow> u32 \<Rightarrow> bool \<Rightarrow> ('z ir_vtable \<times> 'z ir_receiver_scheme) list \<Rightarrow>
     ('z ir_vtable \<times> 'z ir_receiver_scheme) list" where
  "ir_gpio_cb pool ts gpio edge_fall rs =
     map (\<lambda>(vt, r). (vt, if ir_gpio r = gpio then store_timestamp pool vt ts (\<not> edge_fall) r else r)) rs"

text \<open>
  The alarm callbacks.  A result of 0 ends the alarm, any other re-arms it; the end of the
  alarm is recorded in the trace.  \<open>bit_timeout_ * 1000\<close> is a 32-bit product.
\<close>

definition timeout_msg :: "'z ir_vtable \<Rightarrow> alarm_id \<Rightarrow> 'z ir_receiver_scheme \<Rightarrow> 'z ir_receiver_scheme" where
  "timeout_msg vt aid s =
     ir_emit (Alarm_Over aid) ((snd (vt_timeout vt True s))\<lparr>ir_msg_timer := -1\<rparr>)"

definition timeout_bit_body :: "'z ir_vtable \<Rightarrow> 'z ir_receiver_scheme \<Rightarrow> u32 \<times> 'z ir_receiver_scheme" where
  "timeout_bit_body vt s =
     (if ir_sync s \<noteq> 0
      then if ir_n_pulse s = ir_prev_count s \<and> vt_check_bit_timeout vt s
           then (case vt_timeout vt False s of (again, s1) \<Rightarrow>
                   if again
                   then (ir_bit_timeout s1 * 1000, s1\<lparr>ir_prev_count := ir_n_pulse s1\<rparr>)
                   else (0, s1))
           else (ir_bit_timeout s * 1000, s\<lparr>ir_prev_count := ir_n_pulse s\<rparr>)
      else (0, s))"

definition timeout_bit ::
  "'z ir_vtable \<Rightarrow> alarm_id \<Rightarrow> 'z ir_receiver_scheme \<Rightarrow> u32 \<times> 'z ir_receiver_scheme" where
  "timeout_bit vt aid s =
     (case timeout_bit_body vt s of (ret, s1) \<Rightarrow>
        if ret = 0 then (0, ir_emit (Alarm_Over aid) (s1\<lparr>ir_bit_timer := -1\<rparr>)) else (ret, s1))"

text \<open>The part of the destructor that touches the object.\<close>

definition ir_destroy :: "'z ir_receiver_scheme \<Rightarrow> 'z ir_receiver_scheme" where
  "ir_destroy s =
     (let s1 = if ir_bit_timer s \<noteq> -1 then ir_emit (Cancel_Alarm (ir_bit_timer s)) s else s
      in if ir_msg_timer s1 \<noteq> -1 then ir_emit (Cancel_Alarm (ir_msg_timer s1)) s1 else s1)"

lemmas ir_frame [ir_defs] =
  ir_emit_def put_pulse_def cancel_bit_timer_def cancel_msg_timer_def ir_reset_def
  ir_message_error_def start_message_timeout_def start_timeout_def

section \<open>The alarms a trace leaves pending\<close>

text \<open>
  \<open>live\<close> replays a trace: an alarm is pending from the request the pool answers with a
  positive identifier until it is cancelled or its callback ends it.
\<close>

fun live_step :: "ir_call \<Rightarrow> alarm_id set \<Rightarrow> alarm_id set" where
  "live_step (Add_Msg_Alarm i _) A = (if 0 < i then insert i A else A)"
| "live_step (Add_Bit_Alarm i _) A = (if 0 < i then insert i A else A)"
| "live_step (Cancel_Alarm i) A = A - {i}"
| "live_step (Alarm_Over i) A = A - {i}"
| "live_step _ A = A"

definition live :: "ir_call list \<Rightarrow> alarm_id set" where
  "live cs = fold live_step cs {}"

lemma live_Nil [simp]: "live [] = {}"
  by (simp add: live_def)

lemma live_append [simp]: "live (cs @ ds) = fold live_step ds (live cs)"
  by (simp add: live_def)

lemma live_step_pos: "\<forall>i \<in> A. 0 < i \<Longrightarrow> \<forall>i \<in> live_step c A. 0 < i"
  by (cases c) auto

lemma live_pos: "i \<in> live cs \<Longrightarrow> 0 < i"
proof (induction cs arbitrary: i rule: rev_induct)
  case Nil
  then show ?case by simp
next
  case (snoc c cs)
  then have "\<forall>i \<in> live cs. 0 < i" by blast
  from live_step_pos [OF this, of c] snoc.prems show ?case by simp
qed

lemma live_no_minus_one [simp]: "-1 \<notin> live cs"
  using live_pos by fastforce

text \<open>
  The timer discipline of the class: what is pending is in one of the two timer members, and
  no bit timer runs before the sync mark is seen.
\<close>

definition timer_ok :: "'z ir_receiver_scheme \<Rightarrow> bool" where
  "timer_ok s \<longleftrightarrow> live (ir_calls s) \<subseteq> {ir_bit_timer s, ir_msg_timer s} \<and>
                 (ir_sync s = 0 \<longrightarrow> ir_bit_timer s = -1)"

definition idle_after :: "'z ir_receiver_scheme \<Rightarrow> 'z ir_receiver_scheme \<Rightarrow> bool" where
  "idle_after s t \<longleftrightarrow>
     ir_sync t = 0 \<and> ir_n_pulse t = 0 \<and> ir_bit_timer t = -1 \<and> ir_msg_timer t = -1 \<and>
     ir_mx_pulse t = ir_mx_pulse s \<and> length (ir_pulses t) = length (ir_pulses s) \<and>
     live (ir_calls t) = live (ir_calls s) - {ir_bit_timer s, ir_msg_timer s}"

definition same_progress :: "'z ir_receiver_scheme \<Rightarrow> 'z ir_receiver_scheme \<Rightarrow> bool" where
  "same_progress s t \<longleftrightarrow>
     ir_sync t = ir_sync s \<and> ir_n_pulse t = ir_n_pulse s \<and> ir_bit_timer t = ir_bit_timer s \<and>
     ir_msg_timer t = ir_msg_timer s \<and> ir_mx_pulse t = ir_mx_pulse s \<and>
     length (ir_pulses t) = length (ir_pulses s) \<and> live (ir_calls t) = live (ir_calls s)"

lemma idle_after_reset [wf_intros]: "idle_after s (ir_reset s)"
  by (auto simp: idle_after_def ir_defs)

lemma idle_after_pre:
  "same_progress s s1 \<Longrightarrow> idle_after s1 t \<Longrightarrow> idle_after s t"
  by (auto simp: idle_after_def same_progress_def)

lemma same_progress_refl [wf_intros]: "same_progress s s"
  by (simp add: same_progress_def)

lemma idle_after_error [wf_intros]: "idle_after s (ir_message_error s)"
  by (auto simp: idle_after_def ir_defs)

lemma idle_after_complete [wf_intros]: "idle_after s (ir_message_complete d ts s)"
  by (auto simp: idle_after_def ir_message_complete_def ir_defs Let_def split: prod.splits)

lemma ir_timeout_False: "ir_timeout m s = (False, t) \<Longrightarrow> idle_after s t"
  using idle_after_reset [of "ir_emit (Tmo_Callback m (ir_n_pulse s)) s"] idle_after_error [of s]
  by (auto simp: ir_timeout_def idle_after_def ir_emit_def Let_def split: option.splits if_splits)

lemma ir_timeout_True: "ir_timeout m s = (True, t) \<Longrightarrow> same_progress s t"
  by (auto simp: ir_timeout_def same_progress_def ir_defs Let_def split: option.splits if_splits)

lemma timer_ok_idle: "timer_ok s \<Longrightarrow> idle_after s t \<Longrightarrow> timer_ok t"
  by (auto simp: timer_ok_def idle_after_def)

lemma timer_ok_same: "timer_ok s \<Longrightarrow> same_progress s t \<Longrightarrow> timer_ok t"
  by (auto simp: timer_ok_def same_progress_def)

lemma timer_ok_put_pulse [wf_intros]: "timer_ok s \<Longrightarrow> timer_ok (put_pulse p s)"
  by (simp add: timer_ok_def put_pulse_def)

lemma timer_ok_prev_ts [simp]: "timer_ok (s\<lparr>ir_prev_ts := ts\<rparr>) = timer_ok s"
  by (simp add: timer_ok_def)

lemma timer_ok_start_message_timeout [wf_intros]:
  "timer_ok s \<Longrightarrow> timer_ok (start_message_timeout pool s)"
  by (auto simp: timer_ok_def ir_defs Let_def)

lemma timer_ok_start_timeout:
  assumes "timer_ok s" "ir_sync s \<noteq> 0" "ir_bit_timer s = -1"
  shows "timer_ok (start_timeout pool s)"
proof -
  let ?t = "start_message_timeout pool s"
  have "timer_ok ?t" "ir_bit_timer ?t = -1" "ir_sync ?t \<noteq> 0"
    using assms by (simp_all add: timer_ok_start_message_timeout)
      (simp_all add: start_message_timeout_def ir_emit_def Let_def)
  then show ?thesis
    by (auto simp: timer_ok_def start_timeout_def ir_emit_def Let_def)
qed

lemma live_after_destroy:
  assumes "timer_ok s"
  shows "live (ir_calls (ir_destroy s)) = {}"
  using assms by (auto simp: timer_ok_def ir_destroy_def ir_emit_def Let_def)

section \<open>The contract between the base class and a protocol\<close>

definition ir_ok :: "(nat \<Rightarrow> nat \<Rightarrow> u8 \<Rightarrow> bool) \<Rightarrow> 'z ir_receiver_scheme \<Rightarrow> bool" where
  "ir_ok phase s \<longleftrightarrow>
     length (ir_pulses s) = ir_mx_pulse s \<and> ir_n_pulse s \<le> ir_mx_pulse s \<and>
     phase (ir_mx_pulse s) (ir_n_pulse s) (ir_sync s)"

text \<open>
  What the base class relies on when it calls a protocol's virtual functions.  \<open>phase\<close> is
  the protocol's own invariant between the buffer size, the pulse count and the
  synchronisation counter.
\<close>

locale ir_protocol =
  fixes vt :: "'z ir_vtable"
    and phase :: "nat \<Rightarrow> nat \<Rightarrow> u8 \<Rightarrow> bool"
  assumes phase_idle: "phase mx n sy \<Longrightarrow> phase mx 0 0"
    and sync_ok: "ir_ok phase s \<Longrightarrow> ir_ok phase (snd (vt_check_sync vt ts f s))"
    and sync_mx: "ir_mx_pulse (snd (vt_check_sync vt ts f s)) = ir_mx_pulse s"
    and sync_true: "ir_ok phase s \<Longrightarrow> vt_check_sync vt ts f s = (True, t) \<Longrightarrow>
        Suc (ir_n_pulse t) < ir_mx_pulse t \<Longrightarrow>
        phase (ir_mx_pulse t) (Suc (ir_n_pulse t)) (ir_sync t)"
    and sync_timers: "timer_ok s \<Longrightarrow> timer_ok (snd (vt_check_sync vt ts f s))"
    and sync_bit_timer: "ir_sync s = 0 \<Longrightarrow>
        ir_bit_timer (snd (vt_check_sync vt ts f s)) = ir_bit_timer s"
    and complete_idle: "idle_after s (vt_message_complete vt ts s)"
    and timeout_False: "vt_timeout vt m s = (False, t) \<Longrightarrow> idle_after s t"
    and timeout_True: "vt_timeout vt m s = (True, t) \<Longrightarrow> same_progress s t"
begin

lemma ok_idle: "ir_ok phase s \<Longrightarrow> idle_after s t \<Longrightarrow> ir_ok phase t"
  by (auto simp: ir_ok_def idle_after_def intro: phase_idle)

lemma ok_same: "ir_ok phase s \<Longrightarrow> same_progress s t \<Longrightarrow> ir_ok phase t"
  by (auto simp: ir_ok_def same_progress_def)

text \<open>Storing a pulse stays inside the buffer; a full buffer is handed to the decoder.\<close>

lemma store_pulse_cases:
  assumes "ir_ok phase s" and "vt_check_sync vt ts f s = (True, t)"
  shows "idle_after t (store_pulse vt ts t) \<or>
         store_pulse vt ts t = put_pulse (ucast (ts - ir_prev_ts t)) t \<and>
         Suc (ir_n_pulse t) < ir_mx_pulse t"
proof -
  have ok: "ir_ok phase t" using sync_ok [OF assms(1), of ts f] assms(2) by simp
  let ?p = "put_pulse (ucast (ts - ir_prev_ts t)) t"
  have idle: "idle_after t (vt_message_complete vt ts ?p)"
    using complete_idle [of ?p ts] by (simp add: idle_after_def put_pulse_def)
  show ?thesis
  proof (cases "ir_n_pulse t < ir_mx_pulse t")
    case True
    then show ?thesis
      using idle by (auto simp: store_pulse_def Let_def put_pulse_def)
  next
    case False
    with ok have "ir_n_pulse t = ir_mx_pulse t" by (simp add: ir_ok_def)
    then show ?thesis
      using complete_idle [of t ts] by (auto simp: store_pulse_def Let_def)
  qed
qed

lemma store_pulse_ok:
  assumes "ir_ok phase s" and "vt_check_sync vt ts f s = (True, t)"
  shows "ir_ok phase (store_pulse vt ts t)"
proof -
  have ok: "ir_ok phase t" using sync_ok [OF assms(1), of ts f] assms(2) by simp
  from store_pulse_cases [OF assms] show ?thesis
  proof
    assume "idle_after t (store_pulse vt ts t)"
    with ok show ?thesis by (rule ok_idle)
  next
    assume "store_pulse vt ts t = put_pulse (ucast (ts - ir_prev_ts t)) t \<and>
            Suc (ir_n_pulse t) < ir_mx_pulse t"
    with ok sync_true [OF assms] show ?thesis by (simp add: ir_ok_def put_pulse_def)
  qed
qed

lemma store_pulse_timers:
  assumes "ir_ok phase s" and "timer_ok s" and "vt_check_sync vt ts f s = (True, t)"
  shows "timer_ok (store_pulse vt ts t)"
    and "ir_sync s = 0 \<Longrightarrow> timer_ok s \<Longrightarrow> ir_bit_timer (store_pulse vt ts t) = -1"
proof -
  have t: "timer_ok t" using sync_timers [OF assms(2), of ts f] assms(3) by simp
  have c: "idle_after t (store_pulse vt ts t) \<or>
         store_pulse vt ts t = put_pulse (ucast (ts - ir_prev_ts t)) t"
    using store_pulse_cases [OF assms(1,3)] by blast
  with t show "timer_ok (store_pulse vt ts t)"
    by (auto intro: timer_ok_idle timer_ok_put_pulse)
  assume "ir_sync s = 0" "timer_ok s"
  then have "ir_bit_timer t = -1"
    using sync_bit_timer [of s ts f] assms(3) by (simp add: timer_ok_def)
  with c show "ir_bit_timer (store_pulse vt ts t) = -1"
    by (auto simp: idle_after_def put_pulse_def)
qed

lemma store_timestamp_ok:
  assumes "ir_ok phase s"
  shows "ir_ok phase (store_timestamp pool vt ts f s)"
proof -
  obtain sync t where cs: "vt_check_sync vt ts f s = (sync, t)" by fastforce
  have "ir_ok phase (if sync then store_pulse vt ts t else t)"
    using store_pulse_ok [OF assms] sync_ok [OF assms, of ts f] cs by auto
  then show ?thesis
    by (auto simp: store_timestamp_def cs Let_def start_timeout_def start_message_timeout_def
        ir_emit_def ir_ok_def)
qed

lemma store_timestamp_timers:
  assumes ok: "ir_ok phase s" and tm: "timer_ok s"
  shows "timer_ok (store_timestamp pool vt ts f s)"
proof -
  obtain sync t where cs: "vt_check_sync vt ts f s = (sync, t)" by fastforce
  define u where "u = (if sync then store_pulse vt ts t else t)\<lparr>ir_prev_ts := ts\<rparr>"
  have u: "timer_ok u"
    using store_pulse_timers(1) [OF ok tm, of ts f t] sync_timers [OF tm, of ts f] cs
    by (auto simp: u_def)
  have bit: "ir_bit_timer u = -1" if "ir_sync s = 0"
    using store_pulse_timers(2) [OF ok tm _ that tm, of ts f t] sync_bit_timer [OF that, of ts f]
      cs that tm
    by (auto simp: u_def timer_ok_def)
  have "store_timestamp pool vt ts f s =
      (if ir_sync s = 0 \<and> ir_sync u \<noteq> 0 then start_timeout pool u else u)"
    by (simp add: store_timestamp_def cs u_def Let_def)
  with u timer_ok_start_timeout [OF u] bit show ?thesis by simp
qed

lemma timeout_cases: "idle_after s (snd (vt_timeout vt m s)) \<or>
    fst (vt_timeout vt m s) \<and> same_progress s (snd (vt_timeout vt m s))"
  by (metis (full_types) timeout_False timeout_True prod.collapse)

lemma timeout_msg_ok: "ir_ok phase s \<Longrightarrow> ir_ok phase (timeout_msg vt i s)"
  using timeout_cases [of s True] ok_idle [of s] ok_same [of s]
  by (auto simp: timeout_msg_def ir_ok_def ir_emit_def)

lemma timeout_msg_timers:
  assumes "timer_ok s" and "ir_msg_timer s = i"
  shows "timer_ok (timeout_msg vt i s)"
  using timeout_cases [of s True] assms
  by (auto simp: timeout_msg_def timer_ok_def ir_emit_def idle_after_def same_progress_def)

lemma timeout_bit_body_cases:
  "fst (timeout_bit_body vt s) = 0 \<and> idle_after s (snd (timeout_bit_body vt s)) \<or>
   same_progress s (snd (timeout_bit_body vt s))"
proof -
  obtain again t where to: "vt_timeout vt False s = (again, t)" by fastforce
  then have "if again then same_progress s t else idle_after s t"
    using timeout_True timeout_False by (cases again) auto
  then show ?thesis
    by (cases again) (auto simp: timeout_bit_body_def to same_progress_def)
qed

lemma timeout_bit_ok: "ir_ok phase s \<Longrightarrow> ir_ok phase (snd (timeout_bit vt i s))"
  using timeout_bit_body_cases [of s] ok_idle [of s] ok_same [of s]
  by (auto simp: timeout_bit_def ir_ok_def ir_emit_def split: prod.splits)

lemma timeout_bit_timers:
  assumes "timer_ok s" and "ir_bit_timer s = i"
  shows "timer_ok (snd (timeout_bit vt i s))"
  using timeout_bit_body_cases [of s] assms
  by (auto simp: timeout_bit_def timer_ok_def ir_emit_def idle_after_def same_progress_def
      split: prod.splits)

end

section \<open>The receiver as a transition system\<close>

text \<open>
  Interleavings of the interrupts and of the application's calls: an edge, the expiry of the
  message timer or of the bit timer, and the public methods that touch the timers.
\<close>

inductive ir_step :: "pool \<Rightarrow> 'z ir_vtable \<Rightarrow> 'z ir_receiver_scheme \<Rightarrow> 'z ir_receiver_scheme \<Rightarrow> bool"
  for pool vt where
  edge: "ir_step pool vt s (store_timestamp pool vt ts falling s)"
| msg_expired: "ir_msg_timer s = i \<Longrightarrow> i \<noteq> -1 \<Longrightarrow> ir_step pool vt s (timeout_msg vt i s)"
| bit_expired: "ir_bit_timer s = i \<Longrightarrow> i \<noteq> -1 \<Longrightarrow> ir_step pool vt s (snd (timeout_bit vt i s))"
| start_message: "ir_step pool vt s (start_message_timeout pool s)"
| set_timeouts: "ir_step pool vt s (s\<lparr>ir_msg_timeout := m, ir_bit_timeout := b\<rparr>)"
| set_callbacks: "ir_step pool vt s (s\<lparr>ir_rcb := r, ir_rpt := p, ir_tmo := t, ir_err := e\<rparr>)"

inductive_cases ir_stepE: "ir_step pool vt s t"

context ir_protocol
begin

lemma step_mx:
  assumes "ir_step pool vt s t"
  shows "ir_mx_pulse t = ir_mx_pulse s"
  using assms
proof (cases rule: ir_step.cases)
  case (edge ts falling)
  obtain sync u where cs: "vt_check_sync vt ts falling s = (sync, u)" by fastforce
  have "ir_mx_pulse u = ir_mx_pulse s" using sync_mx [of ts falling s] cs by simp
  moreover have "ir_mx_pulse (store_pulse vt ts u) = ir_mx_pulse u"
    using complete_idle by (auto simp: store_pulse_def put_pulse_def idle_after_def Let_def)
  ultimately show ?thesis
    by (simp add: edge store_timestamp_def cs start_timeout_def start_message_timeout_def
        ir_emit_def Let_def)
next
  case (msg_expired i)
  then show ?thesis
    using timeout_cases [of s True]
    by (auto simp: timeout_msg_def ir_emit_def idle_after_def same_progress_def)
next
  case (bit_expired i)
  then show ?thesis
    using timeout_bit_body_cases [of s]
    by (auto simp: timeout_bit_def ir_emit_def idle_after_def same_progress_def split: prod.splits)
next
  case start_message
  then show ?thesis by (simp add: start_message_timeout_def ir_emit_def Let_def)
next
  case (set_timeouts m b)
  then show ?thesis by simp
next
  case (set_callbacks r p t e)
  then show ?thesis by simp
qed

lemma step_keeps:
  assumes "ir_step pool vt s t" and "ir_ok phase s" and "timer_ok s"
  shows "ir_ok phase t \<and> timer_ok t"
  using assms
proof (cases rule: ir_step.cases)
  case (edge ts falling)
  with assms show ?thesis by (simp add: store_timestamp_ok store_timestamp_timers)
next
  case (msg_expired i)
  with assms show ?thesis by (simp add: timeout_msg_ok timeout_msg_timers)
next
  case (bit_expired i)
  with assms show ?thesis by (simp add: timeout_bit_ok timeout_bit_timers)
next
  case start_message
  with assms show ?thesis
    by (auto simp: timer_ok_start_message_timeout) (auto simp: ir_ok_def ir_defs Let_def)
next
  case (set_timeouts m b)
  with assms show ?thesis by (simp add: ir_ok_def timer_ok_def)
next
  case (set_callbacks r p t e)
  with assms show ?thesis by (simp add: ir_ok_def timer_ok_def)
qed

lemma reachable_keeps:
  assumes "rtranclp (ir_step pool vt) s t" and "ir_ok phase s" and "timer_ok s"
  shows "ir_ok phase t \<and> timer_ok t \<and> ir_mx_pulse t = ir_mx_pulse s"
  using assms(1)
proof (induction rule: rtranclp_induct)
  case base
  from assms(2,3) show ?case by simp
next
  case (step y z)
  then show ?case using step_keeps [of pool y z] step_mx [of pool y z] by simp
qed

end

end
