(* ===== verification/Ir_Frame.thy ===== *)
theory Ir_Frame
  imports Ir_Receiver
begin

text \<open>
  Reception of a whole message.  A waveform is a list of pulse times; \<open>edge_train\<close> turns it
  into the edges the GPIO interrupt sees, and \<open>feed\<close> runs the interrupt over them.  The
  locale \<open>framed_protocol\<close> is the interface of the protocols whose message is a mark and a
  space in two given windows followed by a fixed number of pulses (NEC, Samsung, Sony); its
  lemmas say that such a waveform arrives in the buffer as it was sent, and that the decoder
  runs on it exactly once.
\<close>

section \<open>Edges of a waveform\<close>

fun edge_train :: "u64 \<Rightarrow> bool \<Rightarrow> u32 list \<Rightarrow> (u64 \<times> bool) list" where
  "edge_train t falling [] = []"
| "edge_train t falling (p # ps) =
     (t + ucast p, falling) # edge_train (t + ucast p) (\<not> falling) ps"

fun train_end :: "u64 \<Rightarrow> u32 list \<Rightarrow> u64" where
  "train_end t [] = t"
| "train_end t (p # ps) = train_end (t + ucast p) ps"

fun feed ::
  "pool \<Rightarrow> 'z ir_vtable \<Rightarrow> 'z ir_receiver_scheme \<Rightarrow> (u64 \<times> bool) list \<Rightarrow> 'z ir_receiver_scheme" where
  "feed pool vt s [] = s"
| "feed pool vt s ((ts, falling) # es) = feed pool vt (store_timestamp pool vt ts falling s) es"

text \<open>Frames at distance \<open>d\<close>, each with the rising edge that starts it.\<close>

fun frame_edges :: "u64 \<Rightarrow> u64 \<Rightarrow> u32 list \<Rightarrow> nat \<Rightarrow> (u64 \<times> bool) list" where
  "frame_edges t d ps 0 = (t, False) # edge_train t True ps"
| "frame_edges t d ps (Suc k) = ((t, False) # edge_train t True ps) @ frame_edges (t + d) d ps k"

lemma edge_train_append:
  "edge_train t f (ps @ qs) =
     edge_train t f ps @ edge_train (train_end t ps) (f = even (length ps)) qs"
proof (induction ps arbitrary: t f)
  case Nil
  then show ?case by simp
next
  case (Cons p ps)
  have "((\<not> f) = even (length ps)) = (f = even (length (p # ps)))" by auto
  with Cons show ?case by simp
qed

lemma feed_append: "feed pool vt s (es @ fs) = feed pool vt (feed pool vt s es) fs"
  by (induction es arbitrary: s) auto

lemma train_end_append: "train_end t (ps @ qs) = train_end (train_end t ps) qs"
  by (induction ps arbitrary: t) auto

text \<open>The pulse the interrupt measures is the one that was sent.\<close>

lemma pulse_measured [simp]: "ucast (ucast p :: u64) = (p :: u32)"
  by (rule bit_word_eqI) (simp add: bit_simps)

text \<open>The messages an application has been given.\<close>

fun received :: "ir_call list \<Rightarrow> (u64 \<times> u16 \<times> u16) list" where
  "received [] = []"
| "received (Rcv_Callback t a f # cs) = (t, a, f) # received cs"
| "received (_ # cs) = received cs"

fun repeated :: "ir_call list \<Rightarrow> (u64 \<times> u16 \<times> u16) list" where
  "repeated [] = []"
| "repeated (Rpt_Callback t a f # cs) = (t, a, f) # repeated cs"
| "repeated (_ # cs) = repeated cs"

text \<open>How often the semaphore of the object has been released.\<close>

definition releases :: "ir_call list \<Rightarrow> nat" where
  "releases cs = length (filter (\<lambda>c. c = Sem_Release) cs)"

lemma releases_append [simp]: "releases (cs @ ds) = releases cs + releases ds"
  by (simp add: releases_def)

lemma releases_complete:
  "releases (ir_calls (ir_message_complete decode ts s)) = releases (ir_calls s) + 1"
  by (auto simp: ir_message_complete_def ir_defs releases_def Let_def split: prod.splits)

lemma repeated_append [simp]: "repeated (cs @ ds) = repeated cs @ repeated ds"
  by (induction cs rule: repeated.induct) auto

lemma repeated_complete [simp]:
  "repeated (ir_calls (ir_message_complete decode ts s)) = repeated (ir_calls s)"
  by (auto simp: ir_message_complete_def ir_defs Let_def split: prod.splits)

lemma repeated_reset [simp]: "repeated (ir_calls (ir_reset s)) = repeated (ir_calls s)"
  by (simp add: ir_defs)

lemma received_append [simp]: "received (cs @ ds) = received cs @ received ds"
  by (induction cs rule: received.induct) auto

lemma received_reset [simp]: "received (ir_calls (ir_reset s)) = received (ir_calls s)"
  by (simp add: ir_defs)

lemma complete_keeps:
  "ir_rcb (ir_message_complete decode ts s) = ir_rcb s"
  "ir_receiver.more (ir_message_complete decode ts s) = ir_receiver.more s"
  by (auto simp: ir_message_complete_def ir_defs Let_def split: prod.splits)

lemma received_complete:
  "received (ir_calls (ir_message_complete decode ts s)) =
     received (ir_calls s) @
       (case decode s of (ok, a, f) \<Rightarrow> if ok \<and> ir_rcb s then [(ts, a, f)] else [])"
  by (auto simp: ir_message_complete_def ir_defs Let_def split: prod.splits)

lemma complete_repeat_members:
  "ir_rpt_addr (ir_message_complete decode ts s) = fst (snd (decode s))"
  "ir_rpt_func (ir_message_complete decode ts s) = snd (snd (decode s))"
  "ir_rpt (ir_message_complete decode ts s) = ir_rpt s"
  by (auto simp: ir_message_complete_def ir_defs Let_def split: prod.splits)

text \<open>What starting the timers leaves alone.\<close>

lemma start_timeout_frame:
  "ir_sync (start_timeout pool s) = ir_sync s" "ir_n_pulse (start_timeout pool s) = ir_n_pulse s"
  "ir_pulses (start_timeout pool s) = ir_pulses s"
  "ir_mx_pulse (start_timeout pool s) = ir_mx_pulse s"
  "ir_prev_ts (start_timeout pool s) = ir_prev_ts s" "ir_rcb (start_timeout pool s) = ir_rcb s"
  "ir_err (start_timeout pool s) = ir_err s" "ir_rpt (start_timeout pool s) = ir_rpt s"
  "ir_receiver.more (start_timeout pool s) = ir_receiver.more s"
  "received (ir_calls (start_timeout pool s)) = received (ir_calls s)"
  "repeated (ir_calls (start_timeout pool s)) = repeated (ir_calls s)"
  "releases (ir_calls (start_timeout pool s)) = releases (ir_calls s)"
  "ir_rpt_addr (start_timeout pool s) = ir_rpt_addr s"
  "ir_rpt_func (start_timeout pool s) = ir_rpt_func s"
  by (simp_all add: ir_defs Let_def releases_def)

section \<open>Framed protocols\<close>

text \<open>
  The phases of a framed protocol: idle, sync mark stored, data.  The data phase never starts
  from a full buffer.
\<close>

definition frame_phase :: "nat \<Rightarrow> nat \<Rightarrow> u8 \<Rightarrow> bool" where
  "frame_phase mx n sync \<longleftrightarrow>
     3 \<le> mx \<and> (sync = 0 \<and> n = 0 \<or> sync = 1 \<and> n = 1 \<or> sync = 2 \<and> 2 \<le> n \<and> n < mx)"

locale framed_protocol = ir_protocol vt phase
  for vt :: "'z ir_vtable" and phase +
  fixes win0 win1 :: "u32 \<Rightarrow> bool"
    and dec :: "'z ir_receiver_scheme \<Rightarrow> bool \<times> u16 \<times> u16"
  assumes sync0: "ir_sync s = 0 \<Longrightarrow> win0 (ucast (ts - ir_prev_ts s)) \<Longrightarrow>
      vt_check_sync vt ts True s =
        (False, put_pulse (ucast (ts - ir_prev_ts s)) (s\<lparr>ir_n_pulse := 0, ir_sync := 1\<rparr>))"
    and sync1: "ir_sync s = 1 \<Longrightarrow> win1 (ucast (ts - ir_prev_ts s)) \<Longrightarrow>
      vt_check_sync vt ts False s =
        (False, put_pulse (ucast (ts - ir_prev_ts s)) (s\<lparr>ir_sync := 2\<rparr>))"
    and sync2: "ir_sync s = 2 \<Longrightarrow> vt_check_sync vt ts f s = (True, s)"
    and complete: "vt_message_complete vt = ir_message_complete dec"
    and dec_cong: "ir_receiver.more s = ir_receiver.more t \<Longrightarrow> ir_pulses s = ir_pulses t \<Longrightarrow>
      ir_n_pulse s = ir_n_pulse t \<Longrightarrow> dec s = dec t"
    and idle_rise: "ir_sync s = 0 \<Longrightarrow> vt_check_sync vt ts False s = (False, s\<lparr>ir_n_pulse := 0\<rparr>)"
begin

lemma data_step:
  assumes "ir_sync s = 2" "Suc (ir_n_pulse s) < ir_mx_pulse s"
  shows "store_timestamp pool vt (ir_prev_ts s + ucast p) f s =
           (put_pulse p s)\<lparr>ir_prev_ts := ir_prev_ts s + ucast p\<rparr>"
  using assms by (simp add: store_timestamp_def sync2 store_pulse_def put_pulse_def)

lemma data_phase:
  assumes "ir_sync s = 2" "length (ir_pulses s) = ir_mx_pulse s"
    "ir_n_pulse s + length ps < ir_mx_pulse s"
  shows "feed pool vt s (edge_train (ir_prev_ts s) f ps) =
           s\<lparr>ir_pulses := write_at (ir_pulses s) (ir_n_pulse s) ps,
             ir_n_pulse := ir_n_pulse s + length ps, ir_prev_ts := train_end (ir_prev_ts s) ps\<rparr>"
  using assms
proof (induction ps arbitrary: s f)
  case Nil
  then show ?case by simp
next
  case (Cons p ps)
  let ?s = "(put_pulse p s)\<lparr>ir_prev_ts := ir_prev_ts s + ucast p\<rparr>"
  have "feed pool vt s (edge_train (ir_prev_ts s) f (p # ps)) =
        feed pool vt ?s (edge_train (ir_prev_ts ?s) (\<not> f) ps)"
    using Cons.prems by (simp add: data_step)
  also have "\<dots> = ?s\<lparr>ir_pulses := write_at (ir_pulses ?s) (ir_n_pulse ?s) ps,
             ir_n_pulse := ir_n_pulse ?s + length ps, ir_prev_ts := train_end (ir_prev_ts ?s) ps\<rparr>"
    by (rule Cons.IH) (use Cons.prems in \<open>auto simp: put_pulse_def\<close>)
  finally show ?case
    using Cons.prems by (simp add: put_pulse_def write_at_Cons)
qed

lemma last_pulse:
  assumes "ir_sync s = 2" "Suc (ir_n_pulse s) = ir_mx_pulse s"
  shows "store_timestamp pool vt (ir_prev_ts s + ucast p) f s =
           (vt_message_complete vt (ir_prev_ts s + ucast p) (put_pulse p s))
             \<lparr>ir_prev_ts := ir_prev_ts s + ucast p\<rparr>"
  using assms by (simp add: store_timestamp_def sync2 store_pulse_def put_pulse_def)

text \<open>The sync mark and the sync space bring an idle receiver into the data phase.\<close>

lemma header_phase:
  assumes idle: "ir_sync s = 0" and len: "length (ir_pulses s) = ir_mx_pulse s"
    and mx: "2 \<le> ir_mx_pulse s" and w: "win0 p" "win1 q"
  obtains t where
    "feed pool vt s (edge_train (ir_prev_ts s) True [p, q]) = t"
    "ir_sync t = 2" "ir_n_pulse t = 2" "ir_pulses t = write_at (ir_pulses s) 0 [p, q]"
    "ir_mx_pulse t = ir_mx_pulse s" "ir_prev_ts t = train_end (ir_prev_ts s) [p, q]"
    "ir_rcb t = ir_rcb s" "ir_rpt t = ir_rpt s" "ir_receiver.more t = ir_receiver.more s"
    "received (ir_calls t) = received (ir_calls s)"
    "repeated (ir_calls t) = repeated (ir_calls s)"
    "releases (ir_calls t) = releases (ir_calls s)"
proof -
  let ?a = "start_timeout pool
    ((put_pulse p (s\<lparr>ir_n_pulse := 0, ir_sync := 1\<rparr>))\<lparr>ir_prev_ts := ir_prev_ts s + ucast p\<rparr>)"
  let ?b = "(put_pulse q (?a\<lparr>ir_sync := 2\<rparr>))\<lparr>ir_prev_ts := ir_prev_ts s + ucast p + ucast q\<rparr>"
  have a: "store_timestamp pool vt (ir_prev_ts s + ucast p) True s = ?a"
    using idle w(1) by (simp add: store_timestamp_def sync0 put_pulse_def)
  have sync: "ir_sync ?a = 1" "ir_prev_ts ?a = ir_prev_ts s + ucast p"
    by (simp_all add: start_timeout_frame put_pulse_def)
  have "store_timestamp pool vt (ir_prev_ts ?a + ucast q) False ?a =
        (put_pulse q (?a\<lparr>ir_sync := 2\<rparr>))\<lparr>ir_prev_ts := ir_prev_ts ?a + ucast q\<rparr>"
    using sync(1) w(2) by (simp add: store_timestamp_def sync1)
  then have "feed pool vt s (edge_train (ir_prev_ts s) True [p, q]) = ?b"
    using a sync(2) by simp
  then show thesis
    using mx len that [of ?b]
    by (simp add: put_pulse_def start_timeout_frame write_at_Cons write_at_single eval_nat_numeral)
qed

text \<open>
  A whole frame: the receiver is idle again, and the application has been given what the
  decoder makes of the pulses as they were sent.
\<close>

lemma receive_frame:
  assumes idle: "ir_sync s = 0" and len: "length (ir_pulses s) = ir_mx_pulse s"
    and ps: "length ps = ir_mx_pulse s" "3 \<le> length ps"
    and w: "win0 (ps ! 0)" "win1 (ps ! 1)"
    and u: "u = feed pool vt s (edge_train (ir_prev_ts s) True ps)"
  shows "ir_sync u = 0 \<and> ir_n_pulse u = 0 \<and> ir_prev_ts u = train_end (ir_prev_ts s) ps"
    and "received (ir_calls u) = received (ir_calls s) @
           (case dec (s\<lparr>ir_pulses := ps, ir_n_pulse := length ps\<rparr>) of (ok, a, f) \<Rightarrow>
              if ok \<and> ir_rcb s then [(train_end (ir_prev_ts s) ps, a, f)] else [])"
    and "(ir_rpt_addr u, ir_rpt_func u) = snd (dec (s\<lparr>ir_pulses := ps, ir_n_pulse := length ps\<rparr>))"
    and "ir_rpt u = ir_rpt s" and "repeated (ir_calls u) = repeated (ir_calls s)"
    and "ir_rcb u = ir_rcb s" and "ir_receiver.more u = ir_receiver.more s"
    and "ir_mx_pulse u = ir_mx_pulse s" and "length (ir_pulses u) = length (ir_pulses s)"
    and "releases (ir_calls u) = releases (ir_calls s) + 1"
proof -
  define ds where "ds = butlast (drop 2 ps)"
  have split: "ps = [ps ! 0, ps ! 1] @ ds @ [last ps]"
    using ps(2)
    by (cases ps; cases "tl ps") (auto simp: ds_def butlast_append eval_nat_numeral)
  have lds: "length ds + 3 = length ps" using ps(2) by (simp add: ds_def)
  obtain t where t: "feed pool vt s (edge_train (ir_prev_ts s) True [ps ! 0, ps ! 1]) = t"
    "ir_sync t = 2" "ir_n_pulse t = 2" "ir_pulses t = write_at (ir_pulses s) 0 [ps ! 0, ps ! 1]"
    "ir_mx_pulse t = ir_mx_pulse s" "ir_prev_ts t = train_end (ir_prev_ts s) [ps ! 0, ps ! 1]"
    "ir_rcb t = ir_rcb s" "ir_rpt t = ir_rpt s" "ir_receiver.more t = ir_receiver.more s"
    "received (ir_calls t) = received (ir_calls s)"
    "repeated (ir_calls t) = repeated (ir_calls s)"
    "releases (ir_calls t) = releases (ir_calls s)"
    by (rule header_phase [OF idle len _ w]) (use ps in auto)
  define d where "d = t\<lparr>ir_pulses := write_at (ir_pulses t) 2 ds, ir_n_pulse := 2 + length ds,
    ir_prev_ts := train_end (ir_prev_ts t) ds\<rparr>"
  have lt: "length (ir_pulses t) = ir_mx_pulse t" using t(4,5) len ps by simp
  have d: "feed pool vt t (edge_train (ir_prev_ts t) True ds) = d"
    using data_phase [of t ds pool True] t lt lds ps(1) by (simp add: d_def)
  let ?e = "ir_prev_ts d + ucast (last ps)"
  have full: "ir_pulses (put_pulse (last ps) d) = ps"
  proof -
    have "ir_pulses (put_pulse (last ps) d) = write_at (write_at (ir_pulses t) 2 ds) (2 + length ds) [last ps]"
      using lt t(5) lds ps by (simp add: put_pulse_def d_def write_at_single)
    also have "\<dots> = [ps ! 0, ps ! 1] @ ds @ [last ps]"
      using t(4) len lds ps by (simp add: write_at_def)
    finally show ?thesis using split by simp
  qed
  have "feed pool vt s (edge_train (ir_prev_ts s) True ([ps ! 0, ps ! 1] @ ds @ [last ps])) =
      feed pool vt d (edge_train (ir_prev_ts d) (even (length ds)) [last ps])"
    using d t(1,6)
    by (simp add: edge_train_append feed_append d_def
        del: append_Cons append.simps edge_train.simps feed.simps train_end.simps)
  then have fin: "feed pool vt s (edge_train (ir_prev_ts s) True ps) =
      (vt_message_complete vt ?e (put_pulse (last ps) d))\<lparr>ir_prev_ts := ?e\<rparr>"
    unfolding split [symmetric] using t(2,5) lds ps(1) last_pulse [of d pool "last ps" "even (length ds)"]
    by (simp add: d_def)
  have e: "?e = train_end (ir_prev_ts s) ps"
    using t(6) by (subst (2) split) (simp add: train_end_append d_def)
  have n: "ir_n_pulse (put_pulse (last ps) d) = length ps"
    using lds by (simp add: put_pulse_def d_def)
  have dec: "dec (put_pulse (last ps) d) = dec (s\<lparr>ir_pulses := ps, ir_n_pulse := length ps\<rparr>)"
    by (rule dec_cong) (use full n t(9) in \<open>simp_all add: put_pulse_def d_def\<close>)
  have idle': "idle_after (put_pulse (last ps) d) (vt_message_complete vt ?e (put_pulse (last ps) d))"
    by (rule complete_idle)
  then show "ir_sync u = 0 \<and> ir_n_pulse u = 0 \<and> ir_prev_ts u = train_end (ir_prev_ts s) ps"
    by (simp add: u fin e idle_after_def)
  show "received (ir_calls u) = received (ir_calls s) @
           (case dec (s\<lparr>ir_pulses := ps, ir_n_pulse := length ps\<rparr>) of (ok, a, f) \<Rightarrow>
              if ok \<and> ir_rcb s then [(train_end (ir_prev_ts s) ps, a, f)] else [])"
    using t(7,10) e dec by (simp add: u fin complete received_complete put_pulse_def d_def)
  show "(ir_rpt_addr u, ir_rpt_func u) = snd (dec (s\<lparr>ir_pulses := ps, ir_n_pulse := length ps\<rparr>))"
    using dec by (simp add: u fin complete complete_repeat_members)
  show "repeated (ir_calls u) = repeated (ir_calls s)"
    using t(11) by (simp add: u fin complete put_pulse_def d_def)
  show "ir_rpt u = ir_rpt s"
    using t(8) by (simp add: u fin complete complete_repeat_members put_pulse_def d_def)
  show "ir_rcb u = ir_rcb s" "ir_receiver.more u = ir_receiver.more s"
    using t(7,9) by (simp_all add: u fin complete complete_keeps put_pulse_def d_def)
  show "ir_mx_pulse u = ir_mx_pulse s" "length (ir_pulses u) = length (ir_pulses s)"
    using idle' lt len t(5) lds ps(1)
    by (simp_all add: u fin idle_after_def put_pulse_def d_def)
  show "releases (ir_calls u) = releases (ir_calls s) + 1"
    using t(12) by (simp add: u fin complete releases_complete put_pulse_def d_def)
qed

text \<open>Until its last edge a frame releases nothing; the last edge does.\<close>

lemma receive_prefix:
  assumes idle: "ir_sync s = 0" and len: "length (ir_pulses s) = ir_mx_pulse s"
    and ps: "length ps = ir_mx_pulse s" "3 \<le> length ps" and k: "k < length ps"
    and w: "win0 (ps ! 0)" "win1 (ps ! 1)"
  shows "releases (ir_calls (feed pool vt s (edge_train (ir_prev_ts s) True (take k ps)))) = releases (ir_calls s)"
proof -
  consider "k = 0" | "k = 1" | m where "k = m + 2" by (metis One_nat_def add_2_eq_Suc' not0_implies_Suc)
  then show ?thesis
  proof cases
    case 2
    obtain p rest where p: "ps = p # rest" using ps(2) by (cases ps) auto
    have "releases (ir_calls (store_timestamp pool vt (ir_prev_ts s + ucast p) True s)) = releases (ir_calls s)"
      using idle w(1) p by (simp add: store_timestamp_def sync0 put_pulse_def start_timeout_frame)
    then show ?thesis using p 2 by simp
  next
    case (3 m)
    define ds where "ds = take m (drop 2 ps)"
    have split: "take k ps = [ps ! 0, ps ! 1] @ ds"
      using ps(2) 3 by (cases ps; cases "tl ps") (auto simp: ds_def)
    have lds: "length ds + 2 < length ps" using k 3 by (simp add: ds_def)
    obtain t where t: "feed pool vt s (edge_train (ir_prev_ts s) True [ps ! 0, ps ! 1]) = t"
      "ir_sync t = 2" "ir_n_pulse t = 2" "ir_pulses t = write_at (ir_pulses s) 0 [ps ! 0, ps ! 1]"
      "ir_mx_pulse t = ir_mx_pulse s" "ir_prev_ts t = train_end (ir_prev_ts s) [ps ! 0, ps ! 1]"
      "releases (ir_calls t) = releases (ir_calls s)"
      by (rule header_phase [OF idle len _ w]) (use ps in auto)
    have "releases (ir_calls (feed pool vt t (edge_train (ir_prev_ts t) True ds))) = releases (ir_calls t)"
      using data_phase [of t ds pool True] t(2-5) lds ps len by simp
    then show ?thesis using t(1,6,7) unfolding split
      by (simp add: edge_train_append feed_append del: append_Cons append.simps edge_train.simps feed.simps train_end.simps)
  qed simp
qed

text \<open>
  A frame that starts with its own rising edge at time \<open>T\<close>, and a number of them at a fixed
  distance.
\<close>

lemma receive_risen_frame:
  assumes idle: "ir_sync s = 0" and len: "length (ir_pulses s) = ir_mx_pulse s"
    and ps: "length ps = ir_mx_pulse s" "3 \<le> length ps"
    and w: "win0 (ps ! 0)" "win1 (ps ! 1)"
    and u: "u = feed pool vt s ((T, False) # edge_train T True ps)"
  shows "ir_sync u = 0" and "length (ir_pulses u) = ir_mx_pulse u" and "ir_mx_pulse u = ir_mx_pulse s"
    and "ir_rcb u = ir_rcb s" and "ir_receiver.more u = ir_receiver.more s"
    and "received (ir_calls u) = received (ir_calls s) @
           (case dec (s\<lparr>ir_pulses := ps, ir_n_pulse := length ps\<rparr>) of (ok, a, f) \<Rightarrow>
              if ok \<and> ir_rcb s then [(train_end T ps, a, f)] else [])"
proof -
  let ?s = "s\<lparr>ir_n_pulse := 0, ir_prev_ts := T\<rparr>"
  have "store_timestamp pool vt T False s = ?s"
    using idle by (simp add: store_timestamp_def idle_rise)
  then have u': "u = feed pool vt ?s (edge_train (ir_prev_ts ?s) True ps)" using u by simp
  have s: "ir_sync ?s = 0" "length (ir_pulses ?s) = ir_mx_pulse ?s" "length ps = ir_mx_pulse ?s"
    using idle len ps by simp_all
  note r = receive_frame [OF s ps(2) w u']
  have "dec (?s\<lparr>ir_pulses := ps, ir_n_pulse := length ps\<rparr>) = dec (s\<lparr>ir_pulses := ps, ir_n_pulse := length ps\<rparr>)"
    by (rule dec_cong) simp_all
  with r(2) show "received (ir_calls u) = received (ir_calls s) @
           (case dec (s\<lparr>ir_pulses := ps, ir_n_pulse := length ps\<rparr>) of (ok, a, f) \<Rightarrow>
              if ok \<and> ir_rcb s then [(train_end T ps, a, f)] else [])"
    by (cases "dec (s\<lparr>ir_pulses := ps, ir_n_pulse := length ps\<rparr>)") simp
  show "ir_sync u = 0" "length (ir_pulses u) = ir_mx_pulse u" "ir_mx_pulse u = ir_mx_pulse s"
    "ir_rcb u = ir_rcb s" "ir_receiver.more u = ir_receiver.more s"
    using r(1,6-9) len by simp_all
qed

lemma receive_frames:
  assumes "ir_sync s = 0" and "length (ir_pulses s) = ir_mx_pulse s"
    and "length ps = ir_mx_pulse s" and "3 \<le> length ps" and "win0 (ps ! 0)" and "win1 (ps ! 1)"
    and "dec (s\<lparr>ir_pulses := ps, ir_n_pulse := length ps\<rparr>) = (ok, a, f)"
  shows "received (ir_calls (feed pool vt s (frame_edges T d ps k))) = received (ir_calls s) @
    (if ok \<and> ir_rcb s
     then map (\<lambda>i. (train_end (T + of_nat i * d) ps, a, f)) [0..<Suc k] else [])"
  using assms
proof (induction k arbitrary: s T)
  case 0
  from receive_risen_frame(6) [OF 0(1-6) refl, of pool T] 0(7) show ?case
    by (simp add: frame_edges.simps(1) del: edge_train.simps feed.simps)
next
  case (Suc k)
  define u where "u = feed pool vt s ((T, False) # edge_train T True ps)"
  note r = receive_risen_frame [OF Suc.prems(1-6) u_def]
  have "dec (u\<lparr>ir_pulses := ps, ir_n_pulse := length ps\<rparr>) = (ok, a, f)"
    using dec_cong [of "u\<lparr>ir_pulses := ps, ir_n_pulse := length ps\<rparr>"
        "s\<lparr>ir_pulses := ps, ir_n_pulse := length ps\<rparr>"] r(5) Suc.prems(7) by simp
  then have IH: "received (ir_calls (feed pool vt u (frame_edges (T + d) d ps k))) = received (ir_calls u) @
    (if ok \<and> ir_rcb u
     then map (\<lambda>i. (train_end (T + d + of_nat i * d) ps, a, f)) [0..<Suc k] else [])"
    by (rule Suc.IH [rotated -1]) (use r Suc.prems in simp_all)
  have up: "[0..<Suc (Suc k)] = 0 # map Suc [0..<Suc k]"
    by (simp add: map_Suc_upt upt_conv_Cons del: upt_Suc)
  have feed: "feed pool vt s (frame_edges T d ps (Suc k)) = feed pool vt u (frame_edges (T + d) d ps k)"
    by (simp only: frame_edges.simps feed_append u_def)
  show ?case
    unfolding feed IH up using r(4,6) Suc.prems(7)
    by (simp add: algebra_simps comp_def del: upt_Suc)
qed

end

end
