(* ===== verification/Ir_Led.thy ===== *)
theory Ir_Led
  imports Ir_Frame
begin

text \<open>
  The infrared output class (\<open>ir/ir_led.h\<close>, \<open>ir/ir_led.cpp\<close>): a list of on and off times is
  put out by an alarm that re-arms itself.  The object is the record \<open>ir_led\<close>; \<open>led_on\<close> is
  the PWM output (\<open>True\<close> for \<open>setDutyCycle(duty_)\<close>, \<open>False\<close> for \<open>setDutyCycle(0.0)\<close>), and
  the alarm and callback calls are recorded in \<open>led_calls\<close>.  The two virtual functions that
  the base class calls are the record \<open>led_class\<close>.  \<open>pool\<close> is the alarm pool: the identifier
  it answers a request with.
\<close>

section \<open>Definitions\<close>

datatype led_call =
    Led_Alarm alarm_id int
  | Led_Cancel alarm_id
  | Led_Cancel_Default alarm_id
  | Led_Done

record led_class =
  repeat_interval :: int
  minimum_repeats :: int

record ir_led =
  led_times :: "u32 list"
  led_a_times :: nat
  led_n_times :: nat
  led_out_index :: nat
  led_timer :: alarm_id
  led_repeat :: int
  led_done_cb :: bool
  led_on :: bool
  led_calls :: "led_call list"

type_synonym led_pool = "led_call list \<Rightarrow> alarm_id"

text \<open>\<open>mem\<close> is the content of the freshly allocated array.\<close>

definition led_new :: "nat \<Rightarrow> (nat \<Rightarrow> u32) \<Rightarrow> ir_led" where
  "led_new a_times mem =
     \<lparr> led_times = map mem [0..<a_times], led_a_times = a_times, led_n_times = 0,
       led_out_index = 0, led_timer = -1, led_repeat = 0, led_done_cb = False, led_on = False,
       led_calls = [] \<rparr>"

definition led_emit :: "led_call \<Rightarrow> ir_led \<Rightarrow> ir_led" where
  "led_emit c s = s\<lparr>led_calls := led_calls s @ [c]\<rparr>"

text \<open>The destructor cancels with the default alarm pool's function.\<close>

definition led_destroy :: "ir_led \<Rightarrow> ir_led" where
  "led_destroy s =
     (if led_timer s \<noteq> -1 then led_emit (Led_Cancel_Default (led_timer s)) s else s)"

definition led_stop :: "ir_led \<Rightarrow> ir_led" where
  "led_stop s =
     (let s1 = if led_timer s \<noteq> -1
               then (led_emit (Led_Cancel (led_timer s)) s)\<lparr>led_timer := -1\<rparr> else s
      in s1\<lparr>led_out_index := 0, led_repeat := 0, led_on := False\<rparr>)"

definition led_set_output_times :: "(nat \<Rightarrow> u32) \<Rightarrow> u32 list \<Rightarrow> nat \<Rightarrow> ir_led \<Rightarrow> ir_led" where
  "led_set_output_times mem ts n s =
     (let s1 = led_stop s;
          s2 = if n > led_a_times s1
               then s1\<lparr>led_a_times := n + 16, led_times := map mem [0..<n + 16]\<rparr> else s1;
          s3 = s2\<lparr>led_n_times := n\<rparr>
      in s3\<lparr>led_times := write_at (led_times s3) 0 (take n ts)\<rparr>)"

text \<open>
  The pause after a message.  \<open>pause\<close> is an \<open>int32_t\<close>; subtracting an \<open>uint32_t\<close> from it is
  arithmetic modulo $2^{32}$, and the comparisons read it as signed.
\<close>

definition led_pause :: "led_class \<Rightarrow> ir_led \<Rightarrow> int" where
  "led_pause c s =
     (let p0 = fold (\<lambda>t p. p - t) (take (led_n_times s) (led_times s))
                 (word_of_int (repeat_interval c * 1000) :: u32);
          p1 = if led_repeat s > 0 then p0 - 1 else p0
      in if sint p1 < 1 then 1 else sint p1)"

definition led_set_next :: "led_class \<Rightarrow> ir_led \<Rightarrow> int \<times> ir_led" where
  "led_set_next c s =
     (let (ret, s1) =
        if led_out_index s < led_n_times s
        then (uint (led_times s ! led_out_index s),
              s\<lparr>led_on := (led_out_index s AND 1 = 0), led_out_index := led_out_index s + 1\<rparr>)
        else (0, s)
      in if ret \<noteq> 0 then (ret, s1)
         else let s2 = s1\<lparr>led_on := False\<rparr>
              in if led_out_index s2 = led_n_times s2
                 then (led_pause c s2, s2\<lparr>led_out_index := led_out_index s2 + 1\<rparr>)
                 else if led_out_index s2 > led_n_times s2 \<and> led_repeat s2 > 0
                 then (1, s2\<lparr>led_repeat := led_repeat s2 - 1, led_out_index := 0\<rparr>)
                 else (0, (if led_done_cb s2 then led_emit Led_Done s2 else s2)\<lparr>led_timer := -1\<rparr>))"

definition led_start :: "led_pool \<Rightarrow> led_class \<Rightarrow> ir_led \<Rightarrow> bool \<times> ir_led" where
  "led_start pool c s =
     (case led_set_next c s of (next, s1) \<Rightarrow>
        let timer = pool (led_calls s1)
        in (timer > 0, (led_emit (Led_Alarm timer next) s1)\<lparr>led_timer := timer\<rparr>))"

definition led_transmit :: "led_pool \<Rightarrow> led_class \<Rightarrow> ir_led \<Rightarrow> bool \<times> ir_led" where
  "led_transmit pool c s =
     (let s1 = led_stop s
      in if led_n_times s1 > 0
         then led_start pool c (s1\<lparr>led_out_index := 0, led_repeat := minimum_repeats c\<rparr>)
         else (True, s1))"

definition led_repeat_send :: "led_pool \<Rightarrow> led_class \<Rightarrow> ir_led \<Rightarrow> bool \<times> ir_led" where
  "led_repeat_send pool c s =
     (let s1 = led_stop s
      in if led_n_times s1 > 0
         then led_start pool c (s1\<lparr>led_out_index := 0, led_repeat := 0\<rparr>)
         else (True, s1))"

text \<open>
  The alarm callback returns the negated time, which asks the SDK to fire again that long
  after the previous target, or 0 to end the alarm.
\<close>

definition led_timer_cb :: "led_class \<Rightarrow> ir_led \<Rightarrow> int \<times> ir_led" where
  "led_timer_cb c s = (case led_set_next c s of (next, s1) \<Rightarrow> (- next, s1))"

text \<open>
  A whole transmission: the alarm fires until the callback answers 0.  The result lists the
  output level and how long it is held.
\<close>

lemma led_set_next_measure:
  assumes "led_set_next c s = (r, t)" "r \<noteq> 0"
  shows "nat (led_repeat t) < nat (led_repeat s) \<or>
         led_repeat t = led_repeat s \<and>
         led_n_times t + 1 - led_out_index t < led_n_times s + 1 - led_out_index s"
  using assms by (auto simp: led_set_next_def Let_def split: if_splits)

function led_play :: "led_class \<Rightarrow> ir_led \<Rightarrow> (bool \<times> int) list \<times> ir_led" where
  "led_play c s =
     (case led_timer_cb c s of (r, t) \<Rightarrow>
        if r = 0 then ([], t)
        else (case led_play c t of (w, u) \<Rightarrow> ((led_on t, - r) # w, u)))"
  by pat_completeness auto
termination
proof (relation "measures [\<lambda>(c, s). nat (led_repeat s), \<lambda>(c, s). led_n_times s + 1 - led_out_index s]",
    goal_cases)
  case 1
  then show ?case by simp
next
  case 2
  then show ?case
    by (auto simp: led_timer_cb_def split: prod.splits dest!: led_set_next_measure)
qed

declare led_play.simps [simp del]


fun last_delay :: "led_call list \<Rightarrow> int" where
  "last_delay cs = (case rev cs of Led_Alarm i d # _ \<Rightarrow> d | _ \<Rightarrow> 0)"

text \<open>The output of an object that has just started, and what it becomes.\<close>

definition led_waveform :: "led_class \<Rightarrow> ir_led \<Rightarrow> (bool \<times> int) list" where
  "led_waveform c s = (led_on s, last_delay (led_calls s)) # fst (led_play c s)"

definition led_finished :: "led_class \<Rightarrow> ir_led \<Rightarrow> ir_led" where
  "led_finished c s = snd (led_play c s)"

section \<open>One message\<close>

definition message_wave :: "nat \<Rightarrow> u32 list \<Rightarrow> (bool \<times> int) list" where
  "message_wave i ts = map (\<lambda>k. (even k, uint (ts ! k))) [i..<length ts]"

text \<open>Frames at the repeat interval \<open>r\<close> (in microseconds): the last one ends in one pause.\<close>

fun frames :: "int \<Rightarrow> u32 list \<Rightarrow> nat \<Rightarrow> (bool \<times> int) list" where
  "frames p ts 0 = message_wave 0 ts @ [(False, p)]"
| "frames p ts (Suc k) = message_wave 0 ts @ [(False, p - 1), (False, 1)] @ frames p ts k"

definition led_ready :: "led_class \<Rightarrow> ir_led \<Rightarrow> bool" where
  "led_ready c s \<longleftrightarrow>
     0 < led_n_times s \<and> length (led_times s) \<ge> led_n_times s \<and>
     0 \<notin> set (take (led_n_times s) (led_times s)) \<and>
     repeat_interval c * 1000 < 2 ^ 31 \<and>
     sum_list (map uint (take (led_n_times s) (led_times s))) + 2 \<le> repeat_interval c * 1000"

definition led_gap :: "led_class \<Rightarrow> ir_led \<Rightarrow> int" where
  "led_gap c s = repeat_interval c * 1000 - sum_list (map uint (take (led_n_times s) (led_times s)))"

lemma led_ready_cong:
  "led_times s = led_times t \<Longrightarrow> led_n_times s = led_n_times t \<Longrightarrow> led_ready c s = led_ready c t"
  by (simp add: led_ready_def)

lemma led_gap_cong:
  "led_times s = led_times t \<Longrightarrow> led_n_times s = led_n_times t \<Longrightarrow> led_gap c s = led_gap c t"
  by (simp add: led_gap_def)

lemma fold_minus_word:
  "fold (\<lambda>t p. p - t) ts (word_of_int x :: u32) = word_of_int (x - sum_list (map uint ts))"
proof (induction ts arbitrary: x)
  case Nil
  then show ?case by simp
next
  case (Cons t ts)
  have "word_of_int x - t = word_of_int (x - uint t)" by simp
  then show ?case using Cons.IH [of "x - uint t"] by (simp add: algebra_simps)
qed

lemma uint_sum_nonneg: "0 \<le> sum_list (map uint (ts :: u32 list))"
  by (induction ts) auto

lemma led_pause_value:
  assumes "led_ready c s"
  shows "led_pause c s = (if led_repeat s > 0 then led_gap c s - 1 else led_gap c s)"
proof -
  let ?g = "led_gap c s"
  have g: "2 \<le> ?g" "?g < 2 ^ 31"
    using assms uint_sum_nonneg [of "take (led_n_times s) (led_times s)"]
    by (auto simp: led_ready_def led_gap_def)
  have "fold (\<lambda>t p. p - t) (take (led_n_times s) (led_times s))
      (word_of_int (repeat_interval c * 1000) :: u32) = word_of_int ?g"
    by (simp only: fold_minus_word led_gap_def)
  moreover have "sint (word_of_int ?g :: u32) = ?g" "sint (word_of_int ?g - 1 :: u32) = ?g - 1"
    using g sint_small [of ?g] sint_small [of "?g - 1"] by simp_all
  ultimately show ?thesis using g by (simp add: led_pause_def Let_def)
qed

lemma play_pulse:
  assumes "led_ready c s" "led_out_index s < led_n_times s"
  shows "led_play c s =
    (let i = led_out_index s; t = s\<lparr>led_on := even i, led_out_index := Suc i\<rparr>
     in ((even i, uint (led_times s ! i)) # fst (led_play c t), snd (led_play c t)))"
proof -
  have "led_times s ! led_out_index s \<in> set (take (led_n_times s) (led_times s))"
    using assms by (auto simp: led_ready_def in_set_conv_nth)
  then have "uint (led_times s ! led_out_index s) \<noteq> 0"
    using assms by (auto simp: led_ready_def uint_0_iff)
  then show ?thesis
    using assms(2)
    by (subst led_play.simps)
      (simp add: led_timer_cb_def led_set_next_def Let_def and_one_eq even_iff_mod_2_eq_zero
        split: prod.splits)
qed


lemma play_pause:
  assumes "led_ready c s" "led_out_index s = led_n_times s"
  shows "led_play c s =
    (let t = s\<lparr>led_on := False, led_out_index := Suc (led_n_times s)\<rparr>
     in ((False, led_pause c s) # fst (led_play c t), snd (led_play c t)))"
proof -
  have "led_pause c (s\<lparr>led_on := False\<rparr>) = led_pause c s" by (simp add: led_pause_def)
  moreover have "led_pause c s \<noteq> 0" by (auto simp: led_pause_def Let_def)
  ultimately show ?thesis
    using assms(2)
    by (subst led_play.simps)
      (simp add: led_timer_cb_def led_set_next_def Let_def split: prod.splits)
qed

lemma play_again:
  assumes "led_out_index s > led_n_times s" "led_repeat s > 0"
  shows "led_play c s =
    (let t = s\<lparr>led_on := False, led_repeat := led_repeat s - 1, led_out_index := 0\<rparr>
     in ((False, 1) # fst (led_play c t), snd (led_play c t)))"
  using assms
  by (subst led_play.simps)
    (simp add: led_timer_cb_def led_set_next_def Let_def split: prod.splits)

lemma play_stop:
  assumes "led_out_index s > led_n_times s" "led_repeat s \<le> 0"
  shows "led_play c s =
    ([], (if led_done_cb s then led_emit Led_Done (s\<lparr>led_on := False\<rparr>) else s\<lparr>led_on := False\<rparr>)
           \<lparr>led_timer := -1\<rparr>)"
  using assms
  by (subst led_play.simps) (simp add: led_timer_cb_def led_set_next_def Let_def)

lemma play_message:
  assumes "led_ready c s" "led_out_index s \<le> led_n_times s"
  shows "led_play c s =
    (let t = s\<lparr>led_on := False, led_out_index := Suc (led_n_times s)\<rparr>
     in (message_wave (led_out_index s) (take (led_n_times s) (led_times s)) @
           (False, led_pause c s) # fst (led_play c t), snd (led_play c t)))"
  using assms
proof (induction "led_n_times s - led_out_index s" arbitrary: s)
  case 0
  then have "led_out_index s = led_n_times s" by simp
  with play_pause [OF 0(2) this] 0(2) show ?case
    by (simp add: message_wave_def led_ready_def)
next
  case (Suc k)
  let ?i = "led_out_index s"
  let ?s = "s\<lparr>led_on := even ?i, led_out_index := Suc ?i\<rparr>"
  have i: "?i < led_n_times s" using Suc.hyps(2) by simp
  have len: "min (length (led_times s)) (led_n_times s) = led_n_times s"
    using Suc.prems by (simp add: led_ready_def)
  have wave: "message_wave ?i (take (led_n_times s) (led_times s)) =
      (even ?i, uint (led_times s ! ?i)) # message_wave (Suc ?i) (take (led_n_times s) (led_times s))"
    using i len by (simp add: message_wave_def upt_conv_Cons)
  have "led_ready c ?s" using Suc.prems(1) by (subst led_ready_cong [of _ s]) simp_all
  from Suc.hyps(1) [of ?s, OF _ this] Suc.hyps(2)
  have "led_play c ?s = (let t = ?s\<lparr>led_on := False, led_out_index := Suc (led_n_times s)\<rparr>
     in (message_wave (Suc ?i) (take (led_n_times s) (led_times s)) @
           (False, led_pause c ?s) # fst (led_play c t), snd (led_play c t)))"
    by simp
  moreover have "led_pause c ?s = led_pause c s" by (simp add: led_pause_def)
  ultimately show ?case
    using play_pulse [OF Suc.prems(1) i] wave by (simp add: Let_def)
qed

definition led_end :: "ir_led \<Rightarrow> ir_led \<Rightarrow> bool" where
  "led_end s t \<longleftrightarrow> \<not> led_on t \<and> led_timer t = -1 \<and> led_times t = led_times s \<and>
     led_n_times t = led_n_times s \<and>
     led_calls t = led_calls s @ (if led_done_cb s then [Led_Done] else [])"

lemma play_frames:
  assumes "led_ready c s" "led_out_index s = i" "i \<le> led_n_times s" "led_repeat s = int k"
  shows "fst (led_play c s) = drop i (frames (led_gap c s) (take (led_n_times s) (led_times s)) k)"
    and "led_end s (snd (led_play c s))"
proof -
  have "fst (led_play c s) = drop i (frames (led_gap c s) (take (led_n_times s) (led_times s)) k) \<and>
        led_end s (snd (led_play c s))"
    using assms
  proof (induction k arbitrary: s i)
    case 0
    let ?t = "s\<lparr>led_on := False, led_out_index := Suc (led_n_times s)\<rparr>"
    have len: "length (message_wave 0 (take (led_n_times s) (led_times s))) = led_n_times s"
      using 0(1) by (simp add: message_wave_def led_ready_def)
    have d: "drop i (message_wave 0 ts) = message_wave i ts" for ts
      by (simp add: message_wave_def drop_map)
    show ?case
      using play_message [OF 0(1), unfolded 0(2), OF 0(3)] play_stop [of ?t c] 0 len
      by (simp add: led_pause_value [OF 0(1)] Let_def d led_end_def led_emit_def)
  next
    case (Suc k)
    let ?t = "s\<lparr>led_on := False, led_out_index := Suc (led_n_times s)\<rparr>"
    let ?u = "s\<lparr>led_on := False, led_repeat := int k, led_out_index := 0\<rparr>"
    have len: "length (message_wave 0 (take (led_n_times s) (led_times s))) = led_n_times s"
      using Suc.prems(1) by (simp add: message_wave_def led_ready_def)
    have d: "drop i (message_wave 0 ts) = message_wave i ts" for ts
      by (simp add: message_wave_def drop_map)
    have again: "led_play c ?t = ((False, 1) # fst (led_play c ?u), snd (led_play c ?u))"
      using play_again [of ?t c] Suc.prems(4) by (simp add: Let_def)
    have ready: "led_ready c ?u" using Suc.prems(1) by (subst led_ready_cong [of _ s]) simp_all
    have gap: "led_gap c ?u = led_gap c s" by (rule led_gap_cong) simp_all
    have IH: "fst (led_play c ?u) = frames (led_gap c s) (take (led_n_times s) (led_times s)) k"
      "led_end s (snd (led_play c ?u))"
      using Suc.IH [OF ready, of 0] gap by (simp_all add: led_end_def)
    show ?case
      using play_message [OF Suc.prems(1), unfolded Suc.prems(2), OF Suc.prems(3)] again IH Suc.prems len
      by (simp add: led_pause_value [OF Suc.prems(1)] Let_def d)
  qed
  then show "fst (led_play c s) = drop i (frames (led_gap c s) (take (led_n_times s) (led_times s)) k)"
    and "led_end s (snd (led_play c s))" by simp_all
qed


lemma sum_message_wave: "sum_list (map snd (message_wave 0 ts)) = sum_list (map uint ts)"
proof -
  have "map snd (message_wave 0 ts) = map (\<lambda>k. uint (ts ! k)) [0..<length ts]"
    by (simp add: message_wave_def comp_def)
  also have "\<dots> = map uint ts" by (rule nth_equalityI) simp_all
  finally show ?thesis by simp
qed

lemma sum_frames: "sum_list (map snd (frames p ts k)) = (int k + 1) * (sum_list (map uint ts) + p)"
  by (induction k) (simp_all add: sum_message_wave algebra_simps)

lemma led_start_waveform:
  assumes "led_ready c s" "led_out_index s = 0" "led_repeat s = int k" "led_start pool c s = (ok, t)"
  shows "led_waveform c t = frames (led_gap c s) (take (led_n_times s) (led_times s)) k"
    and "led_end t (led_finished c t)" and "ok \<longleftrightarrow> led_timer t > 0"
proof -
  have n: "0 < led_n_times s" "led_n_times s \<le> length (led_times s)"
    using assms(1) by (simp_all add: led_ready_def)
  have "led_times s ! 0 \<in> set (take (led_n_times s) (led_times s))"
    using n by (auto simp: in_set_conv_nth)
  then have nz: "uint (led_times s ! 0) \<noteq> 0"
    using assms(1) by (auto simp: led_ready_def uint_0_iff)
  let ?s = "s\<lparr>led_on := True, led_out_index := Suc 0\<rparr>"
  have t: "t = (led_emit (Led_Alarm (pool (led_calls ?s)) (uint (led_times s ! 0))) ?s)
      \<lparr>led_timer := pool (led_calls ?s)\<rparr>" "ok \<longleftrightarrow> pool (led_calls ?s) > 0"
    using assms(2,4) n nz by (auto simp: led_start_def led_set_next_def Let_def)
  have same: "led_times t = led_times s" "led_n_times t = led_n_times s" by (simp_all add: t led_emit_def)
  have ready: "led_ready c t" "led_gap c t = led_gap c s"
    using assms(1) led_ready_cong [OF same] led_gap_cong [OF same] by simp_all
  have w: "frames p (take (led_n_times s) (led_times s)) k =
      (True, uint (led_times s ! 0)) # drop 1 (frames p (take (led_n_times s) (led_times s)) k)" for p
    using n by (cases k) (simp_all add: message_wave_def upt_conv_Cons)
  note p = play_frames [OF ready(1), of 1 k]
  show "led_waveform c t = frames (led_gap c s) (take (led_n_times s) (led_times s)) k"
    using p(1) n assms(3) ready(2) same w
    by (simp add: led_waveform_def t(1) led_emit_def)
  show "led_end t (led_finished c t)"
    using p(2) n assms(3) same by (simp add: led_finished_def t(1) led_emit_def)
  show "ok \<longleftrightarrow> led_timer t > 0" using t by simp
qed

section \<open>Properties\<close>

lemma led_stop_simps [simp]:
  "led_times (led_stop s) = led_times s" "led_n_times (led_stop s) = led_n_times s"
  "led_a_times (led_stop s) = led_a_times s"
  "led_done_cb (led_stop s) = led_done_cb s" "led_out_index (led_stop s) = 0"
  "led_repeat (led_stop s) = 0" "led_timer (led_stop s) = -1" "led_on (led_stop s) = False"
  by (simp_all add: led_stop_def led_emit_def Let_def)

lemma led_start_simps:
  assumes "led_start pool c s = (ok, t)"
  shows "led_done_cb t = led_done_cb s"
  using assms by (auto simp: led_start_def led_set_next_def led_emit_def Let_def split: if_splits)

lemma led_transmit_waves:
  assumes "led_ready c s" and "0 \<le> minimum_repeats c" and "\<forall>cs. 0 < pool cs"
    and "led_transmit pool c s = (ok, t)"
  shows "ok \<and>
    led_waveform c t = frames (led_gap c s) (take (led_n_times s) (led_times s)) (nat (minimum_repeats c)) \<and>
    sum_list (map snd (led_waveform c t)) = (minimum_repeats c + 1) * (repeat_interval c * 1000) \<and>
    \<not> led_on (led_finished c t) \<and> led_timer (led_finished c t) = -1 \<and>
    led_calls (led_finished c t) = led_calls t @ (if led_done_cb s then [Led_Done] else [])"
proof -
  let ?s = "(led_stop s)\<lparr>led_out_index := 0, led_repeat := minimum_repeats c\<rparr>"
  have start: "led_start pool c ?s = (ok, t)"
    using assms(1,4) by (simp add: led_transmit_def led_ready_def Let_def)
  have same: "led_ready c ?s" "led_gap c ?s = led_gap c s"
    using assms(1) led_ready_cong [of ?s s] led_gap_cong [of ?s s] by simp_all
  note w = led_start_waveform [OF same(1) _ _ start, of "nat (minimum_repeats c)"]
  have "led_timer t = pool (butlast (led_calls t))"
    using start by (auto simp: led_start_def led_emit_def Let_def split: prod.splits)
  with w same assms(2,3) led_start_simps [OF start]
  show ?thesis by (simp add: led_end_def sum_frames) (simp add: led_gap_def)
qed

text \<open>C26: The timing of a transmission.  When the alarm pool has room and the message (all of
  whose times are positive) fits into the repeat interval of the protocol, \<open>transmit\<close> starts,
  and the alarm callback puts out the message once and then \<open>minimum_repeats\<close> times more:
  carrier on for the even times and off for the odd ones, with the output off between
  messages.  Message $i$ starts exactly $i$ repeat intervals after the first, the whole
  transmission takes a whole number of intervals, and at its end the output is off, the timer
  member is cleared and the completion callback has been called exactly once.\<close>

theorem led_transmit_timing:
  assumes "led_ready c s" and "0 \<le> minimum_repeats c" and "\<forall>cs. 0 < pool cs"
    and "led_transmit pool c s = (ok, t)"
  shows "ok \<and>
    led_waveform c t = frames (led_gap c s) (take (led_n_times s) (led_times s)) (nat (minimum_repeats c)) \<and>
    sum_list (map snd (led_waveform c t)) = (minimum_repeats c + 1) * (repeat_interval c * 1000) \<and>
    \<not> led_on (led_finished c t) \<and> led_timer (led_finished c t) = -1 \<and>
    led_calls (led_finished c t) = led_calls t @ (if led_done_cb s then [Led_Done] else [])"
  using led_transmit_waves [OF assms] .

definition led_demo :: ir_led where
  "led_demo = (led_set_output_times (\<lambda>_. 0) [900, 450, 560] 3 (led_new 4 (\<lambda>_. 7)))\<lparr>led_done_cb := True\<rparr>"

definition led_demo_class :: led_class where
  "led_demo_class = \<lparr>repeat_interval = 45, minimum_repeats = 1\<rparr>"

lemma led_demo_simps:
  "led_ready led_demo_class led_demo" "led_gap led_demo_class led_demo = 43090"
  "take (led_n_times led_demo) (led_times led_demo) = [900, 450, 560]" "led_done_cb led_demo"
  by code_simp+

lemma led_transmit_timing_witness:
  "led_waveform led_demo_class (snd (led_transmit (\<lambda>_. 1) led_demo_class led_demo)) =
     [(True, 900), (False, 450), (True, 560), (False, 43089), (False, 1),
      (True, 900), (False, 450), (True, 560), (False, 43090)]"
proof -
  have "nat (minimum_repeats led_demo_class) = 1" "0 \<le> minimum_repeats led_demo_class"
    by (simp_all add: led_demo_class_def)
  with led_transmit_timing [OF led_demo_simps(1), of "\<lambda>_. 1" _ "snd (led_transmit (\<lambda>_. 1) led_demo_class led_demo)",
      OF _ _ prod.collapse [symmetric]]
  show ?thesis by (simp add: led_demo_simps message_wave_def upt_rec)
qed

text \<open>A transmission the alarm pool cannot serve leaves the carrier on.  \<open>start\<close> switches the
  output on before it asks for the alarm, so when the pool refuses (a result of -1), \<open>transmit\<close>
  returns false with the output on, and the next \<open>stop\<close> is what switches it off.\<close>

theorem led_refused_stays_on:
  assumes "led_ready c s" and "\<forall>cs. pool cs = -1" and "led_transmit pool c s = (ok, t)"
  shows "\<not> ok \<and> led_on t \<and> led_timer t = -1 \<and> \<not> led_on (led_stop t)"
proof -
  have n: "0 < led_n_times s" "led_n_times s \<le> length (led_times s)"
    using assms(1) by (simp_all add: led_ready_def)
  have "led_times s ! 0 \<in> set (take (led_n_times s) (led_times s))"
    using n by (auto simp: in_set_conv_nth)
  then have "uint (led_times s ! 0) \<noteq> 0"
    using assms(1) by (auto simp: led_ready_def uint_0_iff)
  with n assms(2,3) show ?thesis
    by (auto simp: led_transmit_def led_start_def led_set_next_def led_emit_def Let_def)
qed

lemma led_refused_stays_on_witness:
  "led_on (snd (led_transmit (\<lambda>_. -1) led_demo_class led_demo))"
  using led_refused_stays_on [OF led_demo_simps(1), of "\<lambda>_. -1"]
  by (cases "led_transmit (\<lambda>_. -1) led_demo_class led_demo") simp

end
