(* ===== verification/Pulse_Code.thy ===== *)
theory Pulse_Code
  imports Ir_Receiver
begin

text \<open>
  Pulse-distance coding: a bit is a mark of one base length and a space of one base length
  for 0, three for 1.  The two loops that NEC and Samsung have in common, sending and
  receiving four bytes least significant bit first, and the lemma that the second undoes the
  first for any pulses that stay within the tolerance of the sent ones.
\<close>

text \<open>Receiving: the spaces are at every second index, starting at \<open>ii\<close>.\<close>

fun pulse_byte :: "u32 \<Rightarrow> u32 list \<Rightarrow> nat \<Rightarrow> nat \<Rightarrow> u8 \<Rightarrow> u8 \<Rightarrow> u8" where
  "pulse_byte threshold pulses ii 0 msk data = data"
| "pulse_byte threshold pulses ii (Suc kk) msk data =
     pulse_byte threshold pulses (ii + 2) kk (push_bit 1 msk)
       (if pulses ! ii > threshold then data OR msk else data)"

fun pulse_bytes :: "u32 \<Rightarrow> u32 list \<Rightarrow> nat \<Rightarrow> nat \<Rightarrow> u8 list" where
  "pulse_bytes threshold pulses ii 0 = []"
| "pulse_bytes threshold pulses ii (Suc jj) =
     pulse_byte threshold pulses ii 8 1 0 # pulse_bytes threshold pulses (ii + 16) jj"

text \<open>Sending.\<close>

fun byte_times :: "u32 \<Rightarrow> nat \<Rightarrow> u8 \<Rightarrow> u32 list" where
  "byte_times base 0 data = []"
| "byte_times base (Suc kk) data =
     base # (if data AND 1 = 0 then base else base * 3) # byte_times base kk (drop_bit 1 data)"

lemma length_byte_times [simp]: "length (byte_times base kk d) = 2 * kk"
  by (induction kk arbitrary: d) auto

text \<open>
  \<open>near band p q\<close> is the code's tolerance test; a received waveform is a disturbed copy of
  a sent one when every pulse passes it.
\<close>

definition disturbed :: "u32 \<Rightarrow> u32 list \<Rightarrow> u32 list \<Rightarrow> bool" where
  "disturbed band ps qs \<longleftrightarrow> list_all2 (\<lambda>p q. compare_pulse p q band) ps qs"

lemma disturbed_length: "disturbed band ps qs \<Longrightarrow> length ps = length qs"
  by (simp add: disturbed_def list_all2_lengthD)

lemma disturbed_nth: "disturbed band ps qs \<Longrightarrow> i < length qs \<Longrightarrow> compare_pulse (ps ! i) (qs ! i) band"
  by (auto simp: disturbed_def list_all2_conv_all_nth)

lemma disturbed_append2:
  "disturbed band ps (qs @ rs) \<longleftrightarrow>
     (\<exists>as bs. ps = as @ bs \<and> disturbed band as qs \<and> disturbed band bs rs)"
  by (auto simp: disturbed_def list_all2_append2 dest: list_all2_lengthD)

lemma disturbed_Cons2:
  "disturbed band ps (q # qs) \<longleftrightarrow>
     (\<exists>a bs. ps = a # bs \<and> compare_pulse a q band \<and> disturbed band bs qs)"
  by (auto simp: disturbed_def list_all2_Cons2)

lemma disturbed_Nil2 [simp]: "disturbed band ps [] \<longleftrightarrow> ps = []"
  by (auto simp: disturbed_def)

text \<open>The condition under which the threshold tells the two spaces apart.\<close>

definition separates :: "u32 \<Rightarrow> u32 \<Rightarrow> u32 \<Rightarrow> bool" where
  "separates threshold base band \<longleftrightarrow>
     (\<forall>p. compare_pulse p base band \<longrightarrow> \<not> p > threshold) \<and>
     (\<forall>p. compare_pulse p (base * 3) band \<longrightarrow> p > threshold)"

lemma pulse_byte_received:
  assumes "separates threshold base band" and "disturbed band b (byte_times base kk d)"
  shows "pulse_byte threshold (pre @ b @ post) (Suc (length pre)) kk m acc =
           collect (map (bit d) [0..<kk]) m acc"
  using assms(2)
proof (induction kk arbitrary: pre b d m acc)
  case 0
  then show ?case by simp
next
  case (Suc kk)
  then obtain p q b' where b: "b = p # q # b'"
    and q: "compare_pulse q (if d AND 1 = 0 then base else base * 3) band"
    and b': "disturbed band b' (byte_times base kk (drop_bit 1 d))"
    by (auto simp: disturbed_Cons2)
  have bit0: "threshold < q \<longleftrightarrow> bit d 0"
    using q assms(1) by (auto simp: separates_def and_one_eq bit_0 odd_iff_mod_2_eq_one split: if_splits)
  have bits: "map (bit d) [0..<Suc kk] = bit d 0 # map (bit (drop_bit 1 d)) [0..<kk]"
    by (simp only: map_upt_Suc) (simp add: bit_drop_bit_eq)
  have "pulse_byte threshold ((pre @ [p, q]) @ b' @ post) (Suc (length (pre @ [p, q]))) kk
          (push_bit 1 m) (if bit d 0 then acc OR m else acc) =
        collect (map (bit (drop_bit 1 d)) [0..<kk]) (push_bit 1 m) (if bit d 0 then acc OR m else acc)"
    using b' by (rule Suc.IH)
  then show ?case
    unfolding bits by (simp add: b bit0 nth_append)
qed

lemma pulse_byte_roundtrip:
  assumes "separates threshold base band" and "disturbed band b (byte_times base 8 d)"
    and "i = Suc (length pre)"
  shows "pulse_byte threshold (pre @ b @ post) i 8 1 0 = d"
  using pulse_byte_received [OF assms(1,2), of pre post 1 0] assms(3)
  by (simp add: collect_bits)

lemma pulse_bytes_roundtrip:
  assumes "separates threshold base band"
    and "disturbed band bs (concat (map (byte_times base 8) ds))"
  shows "pulse_bytes threshold (pre @ bs @ post) (Suc (length pre)) (length ds) = ds"
  using assms(2)
proof (induction ds arbitrary: pre bs)
  case Nil
  then show ?case by simp
next
  case (Cons d ds)
  then obtain b bs' where bs: "bs = b @ bs'" and b: "disturbed band b (byte_times base 8 d)"
    and bs': "disturbed band bs' (concat (map (byte_times base 8) ds))"
    by (auto simp: disturbed_append2)
  have "length b = 16" using disturbed_length [OF b] by simp
  then show ?case
    using Cons.IH [OF bs', of "pre @ b"] pulse_byte_roundtrip [OF assms(1) b, of _ pre "bs' @ post"]
    by (simp add: bs)
qed

text \<open>The two bytes of a 16-bit address.\<close>

lemma and_0xff: "a AND 0xff = take_bit 8 a" for a :: "'a::len word"
  by (simp add: take_bit_eq_mask mask_eq_exp_minus_1)

lemma split_u16:
  "ucast (ucast (a AND 0xff) :: u8) + ucast (ucast (drop_bit 8 a AND 0xff) :: u8) * 256 = (a :: u16)"
proof -
  have "a = take_bit 8 a + push_bit 8 (drop_bit 8 a)"
    by (metis bits_ident add.commute)
  moreover have "ucast (ucast (a AND 0xff) :: u8) = take_bit 8 a"
    by (rule bit_word_eqI) (auto simp: and_0xff bit_simps)
  moreover have "ucast (ucast (drop_bit 8 a AND 0xff) :: u8) * 256 = push_bit 8 (drop_bit 8 a)"
  proof -
    have "ucast (ucast (drop_bit 8 a AND 0xff) :: u8) = drop_bit 8 a"
      by (rule bit_word_eqI) (auto simp: and_0xff bit_simps dest: bit_imp_le_length)
    then show ?thesis by (simp add: push_bit_eq_mult)
  qed
  ultimately show ?thesis by simp
qed

lemma ucast_low_byte [simp]: "(ucast (a AND 0xff) :: u8) = ucast (a :: u16)"
  by (rule bit_word_eqI) (simp add: and_0xff bit_simps)

lemma ucast_high_byte [simp]: "(ucast (drop_bit 8 a AND 0xff) :: u8) = ucast (drop_bit 8 (a :: u16))"
  by (rule bit_word_eqI) (simp add: and_0xff bit_simps)

lemma ucast_ucast_low [simp]: "ucast (ucast a :: u8) = (a :: u16) AND 0xff"
  by (rule bit_word_eqI) (auto simp: and_0xff bit_simps)

text \<open>An undisturbed waveform.\<close>

lemma disturbed_self:
  "list_all (\<lambda>q. compare_pulse q q band) qs \<Longrightarrow> disturbed band qs qs"
  by (induction qs) (auto simp: disturbed_def)

end
