(* ===== verification/Nec.thy ===== *)
theory Nec
  imports Ir_Frame Pulse_Code
begin

text \<open>
  The NEC protocol: the receiver class (\<open>ir/nec_receiver.h\<close>, \<open>ir/nec_receiver.cpp\<close>) with its
  sync detection, repeat codes and decoder, and the message encoder of the transmitter class
  (\<open>ir/nec_transmitter.cpp\<close>).  The class is interpreted in the receiver contract, and the
  decoder is shown to undo the encoder for any waveform within the pulse tolerance.
\<close>

section \<open>Definitions\<close>

definition NEC_BASE_PULSE :: u32 where "NEC_BASE_PULSE = 562"
definition NEC_MESSAGE_LEN :: nat where "NEC_MESSAGE_LEN = 67"

record nec_receiver = ir_receiver +
  nec_address :: u32

definition nec_new :: "u32 \<Rightarrow> u32 \<Rightarrow> (nat \<Rightarrow> u32) \<Rightarrow> nec_receiver" where
  "nec_new gpio address mem =
     ir_receiver.extend (ir_new gpio NEC_MESSAGE_LEN mem) (nec_receiver.fields address)"

definition nec_near :: "u32 \<Rightarrow> u32 \<Rightarrow> bool" where
  "nec_near pulse units = compare_pulse pulse (NEC_BASE_PULSE * units) (NEC_BASE_PULSE div 2)"

definition nec_check_sync ::
  "u64 \<Rightarrow> bool \<Rightarrow> 'z nec_receiver_scheme \<Rightarrow> bool \<times> 'z nec_receiver_scheme" where
  "nec_check_sync ts falling s =
     (if ir_sync s = 0
      then let s1 = s\<lparr>ir_n_pulse := 0\<rparr>
           in if falling
              then let delta = ucast (ts - ir_prev_ts s1)
                   in if nec_near delta 16
                      then (False, (put_pulse delta s1)\<lparr>ir_sync := 1\<rparr>)
                      else (False, s1)
              else (False, s1)
      else if ir_sync s = 1
      then let delta = ucast (ts - ir_prev_ts s)
           in if \<not> falling \<and> nec_near delta 8
              then (False, put_pulse delta (s\<lparr>ir_sync := 2\<rparr>))
              else let s1 = ir_reset s
                   in if \<not> falling \<and> nec_near delta 4
                      then if ir_rpt s1
                           then (False, ir_emit (Rpt_Callback ts (ir_rpt_addr s1) (ir_rpt_func s1)) s1)
                           else (False, s1)
                      else (False, s1)
      else if ir_sync s = 2 then (True, s)
      else (False, s))"

text \<open>
  The static decoder.  \<open>n_pulse\<close> is at least 3 where it is subtracted from, so the unsigned
  subtraction of the code does not wrap.  The results are the returned flag and the two
  reference arguments.
\<close>

definition nec_decode :: "u32 list \<Rightarrow> nat \<Rightarrow> u16 \<Rightarrow> bool \<times> u16 \<times> u16" where
  "nec_decode pulses n_pulse address =
     (if n_pulse < 3 then (False, 0, 0)
      else
        let ii0 = 0 :: nat;
            ii1 = if nec_near (pulses ! ii0) 16 then ii0 + 1 else ii0
        in if nec_near (pulses ! ii1) 4 \<and> nec_near (pulses ! (ii1 + 1)) 1
           then (ii1 = 1, 0, 0)
           else
             let ii2 = if nec_near (pulses ! ii1) 8 then ii1 + 1 else ii1;
                 ii3 = ii2 + 1
             in if ii3 \<noteq> 3 \<or> n_pulse - ii3 < 64 then (False, 0, 0)
                else
                  let data = pulse_bytes (2 * NEC_BASE_PULSE) pulses ii3 4;
                      func = ucast (data ! 2);
                      addr = if (data ! 0) XOR (data ! 1) \<noteq> 0xff
                             then ucast (data ! 0) + ucast (data ! 1) * 256
                             else ucast (data ! 0)
                  in ((data ! 2) XOR (data ! 3) = 0xff \<and> (addr = address \<or> address = 0xffff),
                      addr, func))"

definition nec_decode_message :: "'z nec_receiver_scheme \<Rightarrow> bool \<times> u16 \<times> u16" where
  "nec_decode_message s = nec_decode (ir_pulses s) (ir_n_pulse s) (ucast (nec_address s))"

definition nec_check_bit_timeout :: "'z nec_receiver_scheme \<Rightarrow> bool" where
  "nec_check_bit_timeout s \<longleftrightarrow> ir_sync s = 2"

definition nec_vtable :: "'z nec_receiver_ext ir_vtable" where
  "nec_vtable =
     \<lparr> vt_check_sync = nec_check_sync,
       vt_check_bit_timeout = nec_check_bit_timeout,
       vt_message_complete = ir_message_complete nec_decode_message,
       vt_timeout = ir_timeout \<rparr>"

text \<open>The transmitter's message, and its repeat code.\<close>

definition nec_data :: "u16 \<Rightarrow> u16 \<Rightarrow> u8 list" where
  "nec_data addr func =
     (let d0 = ucast (addr AND 0xff);
          d1 = if addr > 255 then ucast (drop_bit 8 addr AND 0xff) else d0 XOR 0xff;
          d2 = ucast (func AND 0xff);
          d3 = d2 XOR 0xff
      in [d0, d1, d2, d3])"

definition nec_message_times :: "u16 \<Rightarrow> u16 \<Rightarrow> u32 list" where
  "nec_message_times addr func =
     [NEC_BASE_PULSE * 16, NEC_BASE_PULSE * 8] @
     concat (map (byte_times NEC_BASE_PULSE 8) (nec_data addr func)) @ [NEC_BASE_PULSE]"

definition nec_repeat_times :: "u32 list" where
  "nec_repeat_times = [NEC_BASE_PULSE * 16, NEC_BASE_PULSE * 4, NEC_BASE_PULSE]"

section \<open>The class meets the receiver contract\<close>

lemma nec_vtable_simps [simp]:
  "vt_check_sync nec_vtable = nec_check_sync"
  "vt_check_bit_timeout nec_vtable = nec_check_bit_timeout"
  "vt_message_complete nec_vtable = ir_message_complete nec_decode_message"
  "vt_timeout nec_vtable = ir_timeout"
  by (simp_all add: nec_vtable_def)

lemma nec_decode_message_cong:
  assumes "ir_receiver.more s = ir_receiver.more t" "ir_pulses s = ir_pulses t"
    "ir_n_pulse s = ir_n_pulse t"
  shows "nec_decode_message s = nec_decode_message t"
  using assms by (cases s; cases t) (simp add: nec_decode_message_def)

interpretation nec: framed_protocol nec_vtable frame_phase "\<lambda>p. nec_near p 16" "\<lambda>p. nec_near p 8"
  nec_decode_message
proof (unfold_locales, goal_cases)
  case (1 mx n sy)
  then show ?case by (simp add: frame_phase_def)
next
  case (2 s ts f)
  then show ?case
    by (auto simp: nec_check_sync_def ir_ok_def frame_phase_def ir_defs Let_def)
next
  case (3 ts f s)
  then show ?case by (simp add: nec_check_sync_def ir_defs Let_def)
next
  case (4 s ts f t)
  then show ?case
    by (auto simp: nec_check_sync_def ir_ok_def frame_phase_def Let_def split: if_splits)
next
  case (5 s ts f)
  then show ?case
    using timer_ok_idle [OF 5 idle_after_reset]
    by (auto simp: nec_check_sync_def put_pulse_def Let_def timer_ok_def ir_emit_def)
next
  case (6 s ts f)
  then show ?case by (simp add: nec_check_sync_def put_pulse_def Let_def)
next
  case (7 s ts)
  then show ?case by (simp add: idle_after_complete)
next
  case (8 m s t)
  then show ?case by (simp add: ir_timeout_False)
next
  case (9 m s t)
  then show ?case by (simp add: ir_timeout_True)
next
  case (10 s ts)
  then show ?case by (simp add: nec_check_sync_def put_pulse_def)
next
  case (11 s ts)
  then show ?case by (simp add: nec_check_sync_def put_pulse_def)
next
  case (12 s ts f)
  then show ?case by (simp add: nec_check_sync_def)
next
  case 13
  then show ?case by simp
next
  case (14 s t)
  then show ?case by (rule nec_decode_message_cong)
next
  case (15 s ts)
  then show ?case by (simp add: nec_check_sync_def)
qed

lemma nec_new_ok: "ir_ok frame_phase (nec_new gpio address mem)" "timer_ok (nec_new gpio address mem)"
  by (simp_all add: nec_new_def ir_receiver.defs nec_receiver.defs ir_new_def ir_ok_def
      frame_phase_def NEC_MESSAGE_LEN_def timer_ok_def)

section \<open>The decoder undoes the encoder\<close>

abbreviation nec_band :: u32 where "nec_band \<equiv> NEC_BASE_PULSE div 2"

lemma nec_separates: "separates (2 * NEC_BASE_PULSE) NEC_BASE_PULSE nec_band"
  by (auto simp: separates_def compare_pulse_def NEC_BASE_PULSE_def word_less_nat_alt)

lemma nec_windows:
  "compare_pulse p (NEC_BASE_PULSE * 16) nec_band \<longleftrightarrow> nec_near p 16"
  "compare_pulse p (NEC_BASE_PULSE * 8) nec_band \<longleftrightarrow> nec_near p 8"
  by (simp_all add: nec_near_def)

lemma nec_near_disjoint: "nec_near p 8 \<Longrightarrow> \<not> nec_near p 4"
  by (auto simp: nec_near_def compare_pulse_def NEC_BASE_PULSE_def word_less_nat_alt)

text \<open>
  What a receiver makes of a sent address: an address of 8 bits, or one of 16 bits whose
  bytes happen to be complements, is heard as its low byte.
\<close>

definition nec_heard :: "u16 \<Rightarrow> u16" where
  "nec_heard addr =
     (let lo = ucast addr :: u8; hi = ucast (drop_bit 8 addr) :: u8
      in if addr > 255 \<and> lo XOR hi \<noteq> 0xff then addr else ucast lo)"

lemma length_nec_message_times [simp]: "length (nec_message_times addr func) = 67"
  by (simp add: nec_message_times_def nec_data_def Let_def)

lemma nec_decode_data:
  assumes "disturbed nec_band ps (nec_message_times addr func)"
  shows "nec_near (ps ! 0) 16" "nec_near (ps ! 1) 8" "length ps = 67"
    "pulse_bytes (2 * NEC_BASE_PULSE) ps 3 4 = nec_data addr func"
proof -
  from assms obtain p q bs l where ps: "ps = [p, q] @ bs @ [l]"
    and p: "nec_near p 16" and q: "nec_near q 8"
    and bs: "disturbed nec_band bs (concat (map (byte_times NEC_BASE_PULSE 8) (nec_data addr func)))"
    unfolding nec_message_times_def
    by (auto simp: disturbed_append2 disturbed_Cons2 nec_windows)
  show "nec_near (ps ! 0) 16" "nec_near (ps ! 1) 8" using ps p q by simp_all
  show "length ps = 67" using disturbed_length [OF assms] by simp
  show "pulse_bytes (2 * NEC_BASE_PULSE) ps 3 4 = nec_data addr func"
    using pulse_bytes_roundtrip [OF nec_separates bs, of "[p, q]" "[l]"]
    unfolding ps by (simp add: nec_data_def Let_def eval_nat_numeral)
qed

lemma nec_decode_disturbed:
  assumes "disturbed nec_band ps (nec_message_times addr func)"
  shows "nec_decode ps (length ps) address =
           (nec_heard addr = address \<or> address = 0xffff, nec_heard addr, func AND 0xff)"
proof -
  note d = nec_decode_data [OF assms]
  have data: "pulse_bytes (2 * NEC_BASE_PULSE) ps (Suc (Suc (Suc 0))) 4 = nec_data addr func"
    using d(4) by (simp add: numeral_3_eq_3)
  show ?thesis
    using d(1-3) nec_near_disjoint [OF d(2)] split_u16 [of addr]
    by (auto simp: nec_decode_def data nec_data_def nec_heard_def Let_def)
qed

section \<open>Reception of messages and repeat codes\<close>

text \<open>What an object bound to an address accepts.\<close>

definition nec_accepts :: "'z nec_receiver_scheme \<Rightarrow> u16 \<Rightarrow> bool" where
  "nec_accepts s addr \<longleftrightarrow> nec_heard addr = ucast (nec_address s) \<or> (ucast (nec_address s) :: u16) = 0xffff"

definition idle_receiver :: "'z nec_receiver_scheme \<Rightarrow> bool" where
  "idle_receiver s \<longleftrightarrow> ir_ok frame_phase s \<and> ir_sync s = 0 \<and> ir_mx_pulse s = 67"

lemma nec_address_cong [simp]:
  "nec_address (s\<lparr>ir_pulses := ps, ir_n_pulse := n\<rparr>) = nec_address s"
  by simp

lemma nec_decode_message_sent:
  assumes "disturbed nec_band ps (nec_message_times addr func)"
  shows "nec_decode_message (s\<lparr>ir_pulses := ps, ir_n_pulse := length ps\<rparr>) =
           (nec_accepts s addr, nec_heard addr, func AND 0xff)"
  using nec_decode_disturbed [OF assms] by (simp add: nec_decode_message_def nec_accepts_def)

lemma nec_receive:
  assumes "idle_receiver s" and d: "disturbed nec_band ps (nec_message_times addr func)"
    and u: "u = feed pool nec_vtable s (edge_train (ir_prev_ts s) True ps)"
  shows "ir_sync u = 0" "ir_prev_ts u = train_end (ir_prev_ts s) ps"
    "received (ir_calls u) = received (ir_calls s) @
       (if nec_accepts s addr \<and> ir_rcb s
        then [(train_end (ir_prev_ts s) ps, nec_heard addr, func AND 0xff)] else [])"
    "ir_rpt_addr u = nec_heard addr" "ir_rpt_func u = func AND 0xff" "ir_rpt u = ir_rpt s"
    "repeated (ir_calls u) = repeated (ir_calls s)"
proof -
  have s: "ir_sync s = 0" "length (ir_pulses s) = ir_mx_pulse s" "length ps = ir_mx_pulse s"
    "3 \<le> length ps"
    using assms(1) nec_decode_data(3) [OF d] by (auto simp: idle_receiver_def ir_ok_def)
  note r = nec.receive_frame [OF s nec_decode_data(1,2) [OF d] u, unfolded nec_decode_message_sent [OF d]]
  show "ir_sync u = 0" "ir_prev_ts u = train_end (ir_prev_ts s) ps" using r(1) by simp_all
  show "received (ir_calls u) = received (ir_calls s) @
       (if nec_accepts s addr \<and> ir_rcb s
        then [(train_end (ir_prev_ts s) ps, nec_heard addr, func AND 0xff)] else [])"
    using r(2) by simp
  show "ir_rpt_addr u = nec_heard addr" "ir_rpt_func u = func AND 0xff" using r(3) by simp_all
  show "ir_rpt u = ir_rpt s" "repeated (ir_calls u) = repeated (ir_calls s)" by (rule r(4), rule r(5))
qed

text \<open>A repeat code on an idle receiver: mark of 16, space of 4, closing mark.\<close>

lemma nec_repeat_code:
  assumes "ir_sync s = 0" and "nec_near p 16" and "nec_near q 4" and "nec_near r 1"
    and u: "u = feed pool nec_vtable s (edge_train (ir_prev_ts s) True [p, q, r])"
  shows "repeated (ir_calls u) = repeated (ir_calls s) @
           (if ir_rpt s then [(ir_prev_ts s + ucast p + ucast q, ir_rpt_addr s, ir_rpt_func s)] else [])"
    and "received (ir_calls u) = received (ir_calls s)"
proof -
  let ?a = "start_timeout pool
    ((put_pulse p (s\<lparr>ir_n_pulse := 0, ir_sync := 1\<rparr>))\<lparr>ir_prev_ts := ir_prev_ts s + ucast p\<rparr>)"
  have a: "store_timestamp pool nec_vtable (ir_prev_ts s + ucast p) True s = ?a"
    using assms(1,2)
    by (simp add: store_timestamp_def nec.sync0 put_pulse_def del: nec_vtable_simps)
  have sa: "ir_sync ?a = 1" "ir_prev_ts ?a = ir_prev_ts s + ucast p" "ir_rpt ?a = ir_rpt s"
    "ir_rpt_addr ?a = ir_rpt_addr s" "ir_rpt_func ?a = ir_rpt_func s"
    "repeated (ir_calls ?a) = repeated (ir_calls s)" "received (ir_calls ?a) = received (ir_calls s)"
    by (simp_all add: start_timeout_frame put_pulse_def)
  have q8: "\<not> nec_near q 8" using assms(3) nec_near_disjoint by blast
  define b where "b = store_timestamp pool nec_vtable (ir_prev_ts s + ucast p + ucast q) False ?a"
  have reset: "ir_sync (ir_reset ?a) = 0" "ir_rpt (ir_reset ?a) = ir_rpt ?a"
    "ir_rpt_addr (ir_reset ?a) = ir_rpt_addr ?a" "ir_rpt_func (ir_reset ?a) = ir_rpt_func ?a"
    by (simp_all add: ir_reset_def cancel_msg_timer_def cancel_bit_timer_def ir_emit_def)
  have b: "ir_sync b = 0" "ir_prev_ts b = ir_prev_ts s + ucast p + ucast q"
    "repeated (ir_calls b) = repeated (ir_calls s) @
       (if ir_rpt s then [(ir_prev_ts s + ucast p + ucast q, ir_rpt_addr s, ir_rpt_func s)] else [])"
    "received (ir_calls b) = received (ir_calls s)"
    using sa q8 assms(3) reset
    by (simp_all add: b_def store_timestamp_def nec_check_sync_def Let_def ir_emit_def)
  have r16: "\<not> nec_near r 16"
    using assms(4) by (auto simp: nec_near_def compare_pulse_def NEC_BASE_PULSE_def word_less_nat_alt)
  have "store_timestamp pool nec_vtable (ir_prev_ts b + ucast r) True b =
        b\<lparr>ir_n_pulse := 0, ir_prev_ts := ir_prev_ts b + ucast r\<rparr>"
    using b(1) r16 by (simp add: store_timestamp_def nec_check_sync_def)
  then have "u = b\<lparr>ir_n_pulse := 0, ir_prev_ts := ir_prev_ts b + ucast r\<rparr>"
    using a b(2) by (simp add: u b_def)
  then show "repeated (ir_calls u) = repeated (ir_calls s) @
           (if ir_rpt s then [(ir_prev_ts s + ucast p + ucast q, ir_rpt_addr s, ir_rpt_func s)] else [])"
    and "received (ir_calls u) = received (ir_calls s)"
    using b(3,4) by simp_all
qed

lemma nec_reachable_idle:
  assumes "rtranclp (ir_step pool nec_vtable) (nec_new gpio address mem) s" and "ir_sync s = 0"
  shows "idle_receiver s"
  using nec.reachable_keeps [OF assms(1) nec_new_ok] assms(2)
  by (simp add: idle_receiver_def nec_new_def ir_receiver.defs nec_receiver.defs ir_new_def
      NEC_MESSAGE_LEN_def)

lemma nec_message_then_repeat:
  assumes "idle_receiver s" and d: "disturbed nec_band ps (nec_message_times addr func)"
    and r: "disturbed nec_band rs nec_repeat_times"
    and u: "u = feed pool nec_vtable s (edge_train (ir_prev_ts s) True (ps @ [gap] @ rs))"
  shows "received (ir_calls u) = received (ir_calls s) @
           (if nec_accepts s addr \<and> ir_rcb s
            then [(train_end (ir_prev_ts s) ps, nec_heard addr, func AND 0xff)] else [])"
    and "repeated (ir_calls u) = repeated (ir_calls s) @
           (if ir_rpt s
            then [(train_end (ir_prev_ts s) (ps @ [gap] @ butlast rs), nec_heard addr, func AND 0xff)]
            else [])"
proof -
  define v where "v = feed pool nec_vtable s (edge_train (ir_prev_ts s) True ps)"
  note v = nec_receive [OF assms(1) d v_def]
  define w where "w = v\<lparr>ir_n_pulse := 0, ir_prev_ts := ir_prev_ts v + ucast gap\<rparr>"
  have w: "store_timestamp pool nec_vtable (ir_prev_ts v + ucast gap) False v = w"
    using v(1) by (simp add: store_timestamp_def nec_check_sync_def w_def)
  from r obtain p q l where rs: "rs = [p, q, l]" "nec_near p 16" "nec_near q 4" "nec_near l 1"
    by (auto simp: nec_repeat_times_def disturbed_Cons2 nec_near_def)
  have odd: "odd (length ps)" using nec_decode_data(3) [OF d] by simp
  have "u = feed pool nec_vtable w (edge_train (ir_prev_ts w) True [p, q, l])"
    using w odd v(2) by (simp add: u edge_train_append feed_append v_def [symmetric] rs(1) w_def)
  note x = nec_repeat_code [OF _ rs(2-4) this]
  show "received (ir_calls u) = received (ir_calls s) @
           (if nec_accepts s addr \<and> ir_rcb s
            then [(train_end (ir_prev_ts s) ps, nec_heard addr, func AND 0xff)] else [])"
    using x(2) v(1,3) by (simp add: w_def)
  show "repeated (ir_calls u) = repeated (ir_calls s) @
           (if ir_rpt s
            then [(train_end (ir_prev_ts s) (ps @ [gap] @ butlast rs), nec_heard addr, func AND 0xff)]
            else [])"
    using x(1) v(1,2,4-7) by (simp add: w_def rs(1) train_end_append)
qed

section \<open>Properties\<close>


definition nec_demo :: nec_receiver where
  "nec_demo = (nec_new 5 0xffff (\<lambda>_. 0))\<lparr>ir_rcb := True, ir_rpt := True, ir_tmo := None, ir_err := False\<rparr>"

lemma nec_demo_reachable: "rtranclp (ir_step (\<lambda>_. 1) nec_vtable) (nec_new 5 0xffff (\<lambda>_. 0)) nec_demo"
  unfolding nec_demo_def by (rule r_into_rtranclp) (rule ir_step.set_callbacks)

lemma nec_demo_simps:
  "ir_sync nec_demo = 0" "ir_rcb nec_demo" "ir_rpt nec_demo" "nec_accepts nec_demo addr"
  "ir_calls nec_demo = []" "ir_prev_ts nec_demo = 0" "ir_tmo nec_demo = None"
  by (simp_all add: nec_demo_def nec_new_def ir_receiver.defs nec_receiver.defs ir_new_def
      nec_accepts_def)

lemma nec_clean: "disturbed nec_band (nec_message_times 4 8) (nec_message_times 4 8)"
  by (rule disturbed_self) code_simp




text \<open>Repeat codes.  When a message waveform is followed, after a gap that is not itself a sync
  mark, by the repeat waveform of \<open>NEC_Transmitter::repeat\<close> (again disturbed within
  tolerance), the object calls its repeat callback exactly once, with the address and function
  of that message, and its receive callback only for the message.\<close>

theorem nec_repeat_after_message:
  assumes "rtranclp (ir_step pool nec_vtable) (nec_new gpio address mem) s"
    and "ir_sync s = 0" and "ir_rcb s" and "ir_rpt s" and "nec_accepts s addr"
    and "disturbed nec_band ps (nec_message_times addr func)"
    and "disturbed nec_band rs nec_repeat_times"
    and "u = feed pool nec_vtable s (edge_train (ir_prev_ts s) True (ps @ [gap] @ rs))"
  shows "received (ir_calls u) = received (ir_calls s) @
           [(train_end (ir_prev_ts s) ps, nec_heard addr, func AND 0xff)] \<and>
         repeated (ir_calls u) = repeated (ir_calls s) @
           [(train_end (ir_prev_ts s) (ps @ [gap] @ butlast rs), nec_heard addr, func AND 0xff)]"
  using nec_message_then_repeat [OF nec_reachable_idle [OF assms(1,2)] assms(6-8)] assms(3-5) by simp

lemma nec_repeat_clean: "disturbed nec_band nec_repeat_times nec_repeat_times"
  by (rule disturbed_self) code_simp

lemma nec_repeat_after_message_witness:
  "repeated (ir_calls (feed (\<lambda>_. 1) nec_vtable nec_demo
     (edge_train 0 True (nec_message_times 4 8 @ [40000] @ nec_repeat_times)))) =
   [(train_end 0 (nec_message_times 4 8 @ [40000] @ butlast nec_repeat_times), 4, 8)]"
proof -
  have "nec_heard 4 = 4" "(8 :: u16) AND 0xff = 8" by (simp_all add: nec_heard_def Let_def)
  with nec_repeat_after_message [OF nec_demo_reachable nec_demo_simps(1-4) nec_clean
      nec_repeat_clean refl, of "40000"]
  show ?thesis by (simp add: nec_demo_simps)
qed

text \<open>Repeat codes are not filtered by address.  The decoder writes the repeat address before
  it compares addresses, so after a message for another device (the receive callback is not
  called) the repeat code that belongs to that message still calls this object's repeat
  callback, with the other device's address.\<close>

theorem nec_foreign_repeat:
  assumes "rtranclp (ir_step pool nec_vtable) (nec_new gpio address mem) s"
    and "ir_sync s = 0" and "ir_rpt s" and "\<not> nec_accepts s addr"
    and "disturbed nec_band ps (nec_message_times addr func)"
    and "disturbed nec_band rs nec_repeat_times"
    and "u = feed pool nec_vtable s (edge_train (ir_prev_ts s) True (ps @ [gap] @ rs))"
  shows "received (ir_calls u) = received (ir_calls s) \<and>
         repeated (ir_calls u) = repeated (ir_calls s) @
           [(train_end (ir_prev_ts s) (ps @ [gap] @ butlast rs), nec_heard addr, func AND 0xff)]"
  using nec_message_then_repeat [OF nec_reachable_idle [OF assms(1,2)] assms(5-7)] assms(3,4) by simp

definition nec_demo_bound :: nec_receiver where
  "nec_demo_bound = (nec_new 5 7 (\<lambda>_. 0))\<lparr>ir_rcb := True, ir_rpt := True, ir_tmo := None, ir_err := False\<rparr>"

lemma nec_foreign_repeat_witness:
  "received (ir_calls (feed (\<lambda>_. 1) nec_vtable nec_demo_bound
     (edge_train 0 True (nec_message_times 4 8 @ [40000] @ nec_repeat_times)))) = [] \<and>
   repeated (ir_calls (feed (\<lambda>_. 1) nec_vtable nec_demo_bound
     (edge_train 0 True (nec_message_times 4 8 @ [40000] @ nec_repeat_times)))) =
   [(train_end 0 (nec_message_times 4 8 @ [40000] @ butlast nec_repeat_times), 4, 8)]"
proof -
  have r: "rtranclp (ir_step (\<lambda>_. 1) nec_vtable) (nec_new 5 7 (\<lambda>_. 0)) nec_demo_bound"
    unfolding nec_demo_bound_def by (rule r_into_rtranclp) (rule ir_step.set_callbacks)
  have h: "nec_heard 4 = 4" "(8 :: u16) AND 0xff = 8" by (simp_all add: nec_heard_def Let_def)
  have s: "ir_sync nec_demo_bound = 0" "ir_rpt nec_demo_bound" "\<not> nec_accepts nec_demo_bound 4"
    "ir_calls nec_demo_bound = []" "ir_prev_ts nec_demo_bound = 0"
    by (simp_all add: nec_demo_bound_def nec_new_def ir_receiver.defs nec_receiver.defs ir_new_def
        nec_accepts_def nec_heard_def Let_def)
  show ?thesis
    using nec_foreign_repeat [OF r s(1-3) nec_clean nec_repeat_clean refl, of "40000"] s(4,5) h by simp
qed

end
