(* ===== verification/Samsung.thy ===== *)
theory Samsung
  imports Ir_Frame Pulse_Code
begin

text \<open>
  The Samsung protocol: the receiver class (\<open>ir/samsung_receiver.h\<close>,
  \<open>ir/samsung_receiver.cpp\<close>) and the message encoder of the transmitter class
  (\<open>ir/samsung_transmitter.cpp\<close>).  It is NEC's pulse coding behind a sync of two equal
  pulses, with an 8-bit address sent twice instead of with its complement, and no repeat code.
\<close>

section \<open>Definitions\<close>

definition SAMSUNG_BASE_PULSE :: u32 where "SAMSUNG_BASE_PULSE = 562"
definition SAMSUNG_MESSAGE_LEN :: nat where "SAMSUNG_MESSAGE_LEN = 67"

record samsung_receiver = ir_receiver +
  samsung_address :: u32

definition samsung_new :: "u32 \<Rightarrow> u32 \<Rightarrow> (nat \<Rightarrow> u32) \<Rightarrow> samsung_receiver" where
  "samsung_new gpio address mem =
     ir_receiver.extend (ir_new gpio SAMSUNG_MESSAGE_LEN mem) (samsung_receiver.fields address)"

definition samsung_near :: "u32 \<Rightarrow> u32 \<Rightarrow> bool" where
  "samsung_near pulse units =
     compare_pulse pulse (SAMSUNG_BASE_PULSE * units) (SAMSUNG_BASE_PULSE div 2)"

definition samsung_check_sync ::
  "u64 \<Rightarrow> bool \<Rightarrow> 'z samsung_receiver_scheme \<Rightarrow> bool \<times> 'z samsung_receiver_scheme" where
  "samsung_check_sync ts falling s =
     (if ir_sync s = 0
      then let s1 = s\<lparr>ir_n_pulse := 0\<rparr>
           in if falling
              then let delta = ucast (ts - ir_prev_ts s1)
                   in if samsung_near delta 8
                      then (False, (put_pulse delta s1)\<lparr>ir_sync := 1\<rparr>)
                      else (False, s1)
              else (False, s1)
      else if ir_sync s = 1
      then let delta = ucast (ts - ir_prev_ts s)
           in if \<not> falling \<and> samsung_near delta 8
              then (False, put_pulse delta (s\<lparr>ir_sync := 2\<rparr>))
              else (False, ir_reset s)
      else if ir_sync s = 2 then (True, s)
      else (False, s))"

definition samsung_decode :: "u32 list \<Rightarrow> nat \<Rightarrow> u16 \<Rightarrow> bool \<times> u16 \<times> u16" where
  "samsung_decode pulses n_pulse address =
     (if n_pulse < 3 then (False, 0, 0)
      else
        let ii0 = 0 :: nat;
            ii1 = if samsung_near (pulses ! ii0) 8 then ii0 + 1 else ii0;
            ii2 = if samsung_near (pulses ! ii1) 8 then ii1 + 1 else ii1;
            ii3 = ii2 + 1
        in if ii3 \<noteq> 3 \<or> n_pulse - ii3 < 64 then (False, 0, 0)
           else
             let data = pulse_bytes (2 * SAMSUNG_BASE_PULSE) pulses ii3 4;
                 func = ucast (data ! 2);
                 addr = if data ! 0 \<noteq> data ! 1
                        then ucast (data ! 0) + ucast (data ! 1) * 256
                        else ucast (data ! 0)
             in ((data ! 2) XOR (data ! 3) = 0xff \<and> (addr = address \<or> address = 0xffff),
                 addr, func))"

definition samsung_decode_message :: "'z samsung_receiver_scheme \<Rightarrow> bool \<times> u16 \<times> u16" where
  "samsung_decode_message s = samsung_decode (ir_pulses s) (ir_n_pulse s) (ucast (samsung_address s))"

definition samsung_check_bit_timeout :: "'z samsung_receiver_scheme \<Rightarrow> bool" where
  "samsung_check_bit_timeout s \<longleftrightarrow> ir_sync s = 2"

definition samsung_vtable :: "'z samsung_receiver_ext ir_vtable" where
  "samsung_vtable =
     \<lparr> vt_check_sync = samsung_check_sync,
       vt_check_bit_timeout = samsung_check_bit_timeout,
       vt_message_complete = ir_message_complete samsung_decode_message,
       vt_timeout = ir_timeout \<rparr>"

definition samsung_data :: "u16 \<Rightarrow> u16 \<Rightarrow> u8 list" where
  "samsung_data addr func =
     (let d0 = ucast (addr AND 0xff);
          d1 = if addr > 255 then ucast (drop_bit 8 addr AND 0xff) else d0;
          d2 = ucast (func AND 0xff);
          d3 = d2 XOR 0xff
      in [d0, d1, d2, d3])"

definition samsung_message_times :: "u16 \<Rightarrow> u16 \<Rightarrow> u32 list" where
  "samsung_message_times addr func =
     [SAMSUNG_BASE_PULSE * 8, SAMSUNG_BASE_PULSE * 8] @
     concat (map (byte_times SAMSUNG_BASE_PULSE 8) (samsung_data addr func)) @ [SAMSUNG_BASE_PULSE]"

section \<open>The class meets the receiver contract\<close>

lemma samsung_vtable_simps [simp]:
  "vt_check_sync samsung_vtable = samsung_check_sync"
  "vt_check_bit_timeout samsung_vtable = samsung_check_bit_timeout"
  "vt_message_complete samsung_vtable = ir_message_complete samsung_decode_message"
  "vt_timeout samsung_vtable = ir_timeout"
  by (simp_all add: samsung_vtable_def)

lemma samsung_decode_message_cong:
  assumes "ir_receiver.more s = ir_receiver.more t" "ir_pulses s = ir_pulses t"
    "ir_n_pulse s = ir_n_pulse t"
  shows "samsung_decode_message s = samsung_decode_message t"
  using assms by (cases s; cases t) (simp add: samsung_decode_message_def)

interpretation samsung: framed_protocol samsung_vtable frame_phase
  "\<lambda>p. samsung_near p 8" "\<lambda>p. samsung_near p 8" samsung_decode_message
proof (unfold_locales, goal_cases)
  case (1 mx n sy)
  then show ?case by (simp add: frame_phase_def)
next
  case (2 s ts f)
  then show ?case
    by (auto simp: samsung_check_sync_def ir_ok_def frame_phase_def ir_defs Let_def)
next
  case (3 ts f s)
  then show ?case by (simp add: samsung_check_sync_def ir_defs Let_def)
next
  case (4 s ts f t)
  then show ?case
    by (auto simp: samsung_check_sync_def ir_ok_def frame_phase_def Let_def split: if_splits)
next
  case (5 s ts f)
  then show ?case
    using timer_ok_idle [OF 5 idle_after_reset]
    by (auto simp: samsung_check_sync_def put_pulse_def Let_def timer_ok_def)
next
  case (6 s ts f)
  then show ?case by (simp add: samsung_check_sync_def put_pulse_def Let_def)
next
  case (7 s ts)
  then show ?case by (simp add: idle_after_complete)
next
  case (8 m s t)
  then show ?case by (simp add: ir_timeout_False)
next
  case (9 m s t)
  then show ?case by (simp add: ir_timeout_True)
next
  case (10 s ts)
  then show ?case by (simp add: samsung_check_sync_def put_pulse_def)
next
  case (11 s ts)
  then show ?case by (simp add: samsung_check_sync_def put_pulse_def)
next
  case (12 s ts f)
  then show ?case by (simp add: samsung_check_sync_def)
next
  case 13
  then show ?case by simp
next
  case (14 s t)
  then show ?case by (rule samsung_decode_message_cong)
next
  case (15 s ts)
  then show ?case by (simp add: samsung_check_sync_def)
qed

lemma samsung_new_ok:
  "ir_ok frame_phase (samsung_new gpio address mem)" "timer_ok (samsung_new gpio address mem)"
  by (simp_all add: samsung_new_def ir_receiver.defs samsung_receiver.defs ir_new_def ir_ok_def
      frame_phase_def SAMSUNG_MESSAGE_LEN_def timer_ok_def)

section \<open>The decoder undoes the encoder\<close>

abbreviation samsung_band :: u32 where "samsung_band \<equiv> SAMSUNG_BASE_PULSE div 2"

lemma samsung_separates: "separates (2 * SAMSUNG_BASE_PULSE) SAMSUNG_BASE_PULSE samsung_band"
  by (auto simp: separates_def compare_pulse_def SAMSUNG_BASE_PULSE_def word_less_nat_alt)

text \<open>
  What a receiver makes of a sent address: an address of 8 bits, or one of 16 bits whose two
  bytes are equal, is heard as its low byte.
\<close>

definition samsung_heard :: "u16 \<Rightarrow> u16" where
  "samsung_heard addr =
     (let lo = ucast addr :: u8; hi = ucast (drop_bit 8 addr) :: u8
      in if addr > 255 \<and> lo \<noteq> hi then addr else ucast lo)"

definition samsung_accepts :: "'z samsung_receiver_scheme \<Rightarrow> u16 \<Rightarrow> bool" where
  "samsung_accepts s addr \<longleftrightarrow>
     samsung_heard addr = ucast (samsung_address s) \<or> (ucast (samsung_address s) :: u16) = 0xffff"

lemma samsung_decode_data:
  assumes "disturbed samsung_band ps (samsung_message_times addr func)"
  shows "samsung_near (ps ! 0) 8" "samsung_near (ps ! 1) 8" "length ps = 67"
    "pulse_bytes (2 * SAMSUNG_BASE_PULSE) ps 3 4 = samsung_data addr func"
proof -
  from assms obtain p q bs l where ps: "ps = [p, q] @ bs @ [l]"
    and p: "samsung_near p 8" and q: "samsung_near q 8"
    and bs: "disturbed samsung_band bs
      (concat (map (byte_times SAMSUNG_BASE_PULSE 8) (samsung_data addr func)))"
    unfolding samsung_message_times_def
    by (auto simp: disturbed_append2 disturbed_Cons2 samsung_near_def)
  show "samsung_near (ps ! 0) 8" "samsung_near (ps ! 1) 8" using ps p q by simp_all
  show "length ps = 67"
    using disturbed_length [OF assms] by (simp add: samsung_message_times_def samsung_data_def Let_def)
  show "pulse_bytes (2 * SAMSUNG_BASE_PULSE) ps 3 4 = samsung_data addr func"
    using pulse_bytes_roundtrip [OF samsung_separates bs, of "[p, q]" "[l]"]
    unfolding ps by (simp add: samsung_data_def Let_def eval_nat_numeral)
qed

lemma samsung_decode_disturbed:
  assumes "disturbed samsung_band ps (samsung_message_times addr func)"
  shows "samsung_decode ps (length ps) address =
           (samsung_heard addr = address \<or> address = 0xffff, samsung_heard addr, func AND 0xff)"
proof -
  note d = samsung_decode_data [OF assms]
  have data: "pulse_bytes (2 * SAMSUNG_BASE_PULSE) ps (Suc (Suc (Suc 0))) 4 = samsung_data addr func"
    using d(4) by (simp add: numeral_3_eq_3)
  show ?thesis
    using d(1-3) split_u16 [of addr]
    by (auto simp: samsung_decode_def data samsung_data_def samsung_heard_def Let_def)
qed

section \<open>Properties\<close>

lemma samsung_reachable_ok:
  assumes "rtranclp (ir_step pool samsung_vtable) (samsung_new gpio address mem) s"
  shows "ir_ok frame_phase s" "timer_ok s" "ir_mx_pulse s = 67"
  using samsung.reachable_keeps [OF assms samsung_new_ok]
  by (simp_all add: samsung_new_def ir_receiver.defs samsung_receiver.defs ir_new_def
      SAMSUNG_MESSAGE_LEN_def)

text \<open>C9: Samsung transmitter and receiver agree end to end.  From any reachable idle state, the
  edges of a disturbed copy of the waveform of \<open>SAMSUNG_Transmitter::setMessageTimes\<close> make
  the object call its receive callback exactly once, with the address as heard and the low
  byte of the function code, if it is bound to that address or to all, and not at all
  otherwise; it is idle afterwards.\<close>

theorem samsung_message_received:
  assumes "rtranclp (ir_step pool samsung_vtable) (samsung_new gpio address mem) s"
    and "ir_sync s = 0" and "ir_rcb s"
    and "disturbed samsung_band ps (samsung_message_times addr func)"
    and "u = feed pool samsung_vtable s (edge_train (ir_prev_ts s) True ps)"
  shows "ir_sync u = 0 \<and> received (ir_calls u) = received (ir_calls s) @
           (if samsung_accepts s addr
            then [(train_end (ir_prev_ts s) ps, samsung_heard addr, func AND 0xff)] else [])"
proof -
  note ok = samsung_reachable_ok [OF assms(1)]
  have s: "length (ir_pulses s) = ir_mx_pulse s" "length ps = ir_mx_pulse s" "3 \<le> length ps"
    using ok samsung_decode_data(3) [OF assms(4)] by (auto simp: ir_ok_def)
  show ?thesis
    using samsung.receive_frame(1,2) [OF assms(2) s samsung_decode_data(1,2) [OF assms(4)] assms(5)]
      samsung_decode_disturbed [OF assms(4)] assms(3)
    by (simp add: samsung_decode_message_def samsung_accepts_def)
qed

definition samsung_demo :: samsung_receiver where
  "samsung_demo =
     (samsung_new 5 7 (\<lambda>_. 0))\<lparr>ir_rcb := True, ir_rpt := False, ir_tmo := None, ir_err := False\<rparr>"

lemma samsung_demo_reachable:
  "rtranclp (ir_step (\<lambda>_. 1) samsung_vtable) (samsung_new 5 7 (\<lambda>_. 0)) samsung_demo"
  unfolding samsung_demo_def by (rule r_into_rtranclp) (rule ir_step.set_callbacks)

lemma samsung_demo_simps:
  "ir_sync samsung_demo = 0" "ir_rcb samsung_demo" "samsung_accepts samsung_demo 7"
  "ir_calls samsung_demo = []" "ir_prev_ts samsung_demo = 0"
  "samsung_heard 7 = 7" "(2 :: u16) AND 0xff = 2"
  by (simp_all add: samsung_demo_def samsung_new_def ir_receiver.defs samsung_receiver.defs
      ir_new_def samsung_accepts_def samsung_heard_def Let_def)

lemma samsung_message_received_witness:
  "received (ir_calls (feed (\<lambda>_. 1) samsung_vtable samsung_demo
     (edge_train 0 True (samsung_message_times 7 2)))) =
   [(train_end 0 (samsung_message_times 7 2), 7, 2)]"
proof -
  have c: "disturbed samsung_band (samsung_message_times 7 2) (samsung_message_times 7 2)"
    by (rule disturbed_self) code_simp
  show ?thesis
    using samsung_message_received [OF samsung_demo_reachable samsung_demo_simps(1,2) c refl]
      samsung_demo_simps(3-7) by simp
qed

end
