(* ===== verification/Sony.thy ===== *)
theory Sony
  imports Ir_Frame Pulse_Code
begin

text \<open>
  The Sony protocols: the receiver class with its static decoder (\<open>ir/sony_receiver.h\<close>,
  \<open>ir/sony_receiver.cpp\<close>), parametrised by the number of value and address bits, and the
  message encoder of the transmitter class (\<open>ir/sony_transmitter.cpp\<close>).  A bit is a space of
  one base length and a mark of one base length for 0, two for 1; the decoder checks both.
\<close>

section \<open>Definitions\<close>

definition SONY_BASE_PULSE :: u32 where "SONY_BASE_PULSE = 600"

record sony_receiver = ir_receiver +
  sony_address_size :: nat
  sony_value_size :: nat
  sony_address :: u32

definition sony_new :: "u32 \<Rightarrow> nat \<Rightarrow> nat \<Rightarrow> u32 \<Rightarrow> (nat \<Rightarrow> u32) \<Rightarrow> sony_receiver" where
  "sony_new gpio address_size value_size address mem =
     ir_receiver.extend (ir_new gpio ((address_size + value_size) * 2 + 1) mem)
       (sony_receiver.fields address_size value_size address)"

definition sony12_new :: "u32 \<Rightarrow> u32 \<Rightarrow> (nat \<Rightarrow> u32) \<Rightarrow> sony_receiver" where
  "sony12_new gpio address mem = sony_new gpio 5 7 address mem"

definition sony15_new :: "u32 \<Rightarrow> u32 \<Rightarrow> (nat \<Rightarrow> u32) \<Rightarrow> sony_receiver" where
  "sony15_new gpio address mem = sony_new gpio 8 7 address mem"

definition sony_near :: "u32 \<Rightarrow> u32 \<Rightarrow> bool" where
  "sony_near pulse units = compare_pulse pulse (SONY_BASE_PULSE * units) (SONY_BASE_PULSE div 2)"

definition sony_check_sync ::
  "u64 \<Rightarrow> bool \<Rightarrow> 'z sony_receiver_scheme \<Rightarrow> bool \<times> 'z sony_receiver_scheme" where
  "sony_check_sync ts falling s =
     (if ir_sync s = 0
      then let s1 = s\<lparr>ir_n_pulse := 0\<rparr>
           in if falling
              then let delta = ucast (ts - ir_prev_ts s1)
                   in if sony_near delta 4
                      then (False, (put_pulse delta s1)\<lparr>ir_sync := 1\<rparr>)
                      else (False, s1)
              else (False, s1)
      else if ir_sync s = 1
      then let delta = ucast (ts - ir_prev_ts s)
           in if \<not> falling \<and> sony_near delta 1
              then (False, put_pulse delta (s\<lparr>ir_sync := 2\<rparr>))
              else (False, ir_reset s)
      else if ir_sync s = 2 then (True, s)
      else (False, s))"

text \<open>
  One of the two bit loops of the decoder.  It stops at the first pulse out of tolerance, with
  what it has accumulated in the reference argument so far.
\<close>

fun sony_bits :: "u32 list \<Rightarrow> nat \<Rightarrow> nat \<Rightarrow> u16 \<Rightarrow> u16 \<Rightarrow> bool \<times> u16 \<times> nat" where
  "sony_bits pulses ii 0 msk val = (True, val, ii)"
| "sony_bits pulses ii (Suc jj) msk val =
     (let space = pulses ! ii; mark = pulses ! (ii + 1)
      in if \<not> sony_near space 1 then (False, val, ii + 2)
         else if sony_near mark 2
         then sony_bits pulses (ii + 2) jj (push_bit 1 msk) (val OR msk)
         else if \<not> sony_near mark 1 then (False, val, ii + 2)
         else sony_bits pulses (ii + 2) jj (push_bit 1 msk) val)"

definition sony_decode ::
  "u32 list \<Rightarrow> nat \<Rightarrow> u16 \<Rightarrow> nat \<Rightarrow> nat \<Rightarrow> bool \<times> u16 \<times> u16" where
  "sony_decode pulses n_pulse address addr_size value_size =
     (if n_pulse < 1 then (False, 0, 0)
      else
        let ii = if sony_near (pulses ! 0) 4 then 1 else 0 :: nat
        in if ii \<noteq> 1 \<or> n_pulse - ii < (addr_size + value_size) * 2 + 1 - 1 then (False, 0, 0)
           else (case sony_bits pulses ii value_size 1 0 of (ok1, func, ii1) \<Rightarrow>
             if \<not> ok1 then (False, 0, func)
             else (case sony_bits pulses ii1 addr_size 1 0 of (ok2, addr, ii2) \<Rightarrow>
               if \<not> ok2 then (False, addr, func)
               else (addr = address \<or> address = 0xffff, addr, func))))"

definition sony_decode_message :: "'z sony_receiver_scheme \<Rightarrow> bool \<times> u16 \<times> u16" where
  "sony_decode_message s =
     sony_decode (ir_pulses s) (ir_n_pulse s) (ucast (sony_address s))
       (sony_address_size s) (sony_value_size s)"

definition sony_check_bit_timeout :: "'z sony_receiver_scheme \<Rightarrow> bool" where
  "sony_check_bit_timeout s \<longleftrightarrow> ir_sync s = 2"

definition sony_vtable :: "'z sony_receiver_ext ir_vtable" where
  "sony_vtable =
     \<lparr> vt_check_sync = sony_check_sync,
       vt_check_bit_timeout = sony_check_bit_timeout,
       vt_message_complete = ir_message_complete sony_decode_message,
       vt_timeout = ir_timeout \<rparr>"

fun sony_bit_times :: "nat \<Rightarrow> u16 \<Rightarrow> u16 \<Rightarrow> u32 list" where
  "sony_bit_times 0 msk val = []"
| "sony_bit_times (Suc jj) msk val =
     (if val AND msk = 0 then [SONY_BASE_PULSE, SONY_BASE_PULSE]
      else [SONY_BASE_PULSE, SONY_BASE_PULSE * 2]) @ sony_bit_times jj (push_bit 1 msk) val"

definition sony_message_times :: "nat \<Rightarrow> nat \<Rightarrow> u16 \<Rightarrow> u16 \<Rightarrow> u32 list" where
  "sony_message_times address_size command_size addr func =
     [SONY_BASE_PULSE * 4] @ sony_bit_times command_size 1 func @ sony_bit_times address_size 1 addr"

section \<open>The class meets the receiver contract\<close>

lemma sony_vtable_simps [simp]:
  "vt_check_sync sony_vtable = sony_check_sync"
  "vt_check_bit_timeout sony_vtable = sony_check_bit_timeout"
  "vt_message_complete sony_vtable = ir_message_complete sony_decode_message"
  "vt_timeout sony_vtable = ir_timeout"
  by (simp_all add: sony_vtable_def)

lemma sony_decode_message_cong:
  assumes "ir_receiver.more s = ir_receiver.more t" "ir_pulses s = ir_pulses t"
    "ir_n_pulse s = ir_n_pulse t"
  shows "sony_decode_message s = sony_decode_message t"
  using assms by (cases s; cases t) (simp add: sony_decode_message_def)

interpretation sony: framed_protocol sony_vtable frame_phase
  "\<lambda>p. sony_near p 4" "\<lambda>p. sony_near p 1" sony_decode_message
proof (unfold_locales, goal_cases)
  case (1 mx n sy)
  then show ?case by (simp add: frame_phase_def)
next
  case (2 s ts f)
  then show ?case
    by (auto simp: sony_check_sync_def ir_ok_def frame_phase_def ir_defs Let_def)
next
  case (3 ts f s)
  then show ?case by (simp add: sony_check_sync_def ir_defs Let_def)
next
  case (4 s ts f t)
  then show ?case
    by (auto simp: sony_check_sync_def ir_ok_def frame_phase_def Let_def split: if_splits)
next
  case (5 s ts f)
  then show ?case
    using timer_ok_idle [OF 5 idle_after_reset]
    by (auto simp: sony_check_sync_def put_pulse_def Let_def timer_ok_def)
next
  case (6 s ts f)
  then show ?case by (simp add: sony_check_sync_def put_pulse_def Let_def)
next
  case (7 s ts)
  then show ?case by (simp add: idle_after_complete)
next
  case (8 m s t)
  then show ?case by (simp add: ir_timeout_False)
next
  case (9 m s t)
  then show ?case by (simp add: ir_timeout_True)
next
  case (10 s ts)
  then show ?case by (simp add: sony_check_sync_def put_pulse_def)
next
  case (11 s ts)
  then show ?case by (simp add: sony_check_sync_def put_pulse_def)
next
  case (12 s ts f)
  then show ?case by (simp add: sony_check_sync_def)
next
  case 13
  then show ?case by simp
next
  case (14 s t)
  then show ?case by (rule sony_decode_message_cong)
next
  case (15 s ts)
  then show ?case by (simp add: sony_check_sync_def)
qed

lemma sony_new_ok:
  assumes "0 < address_size + value_size"
  shows "ir_ok frame_phase (sony_new gpio address_size value_size address mem)"
    and "timer_ok (sony_new gpio address_size value_size address mem)"
  using assms
  by (simp_all add: sony_new_def ir_receiver.defs sony_receiver.defs ir_new_def ir_ok_def
      frame_phase_def timer_ok_def) linarith

section \<open>The decoder undoes the encoder\<close>

abbreviation sony_band :: u32 where "sony_band \<equiv> SONY_BASE_PULSE div 2"

lemma sony_windows:
  "compare_pulse p SONY_BASE_PULSE sony_band \<longleftrightarrow> sony_near p 1"
  "compare_pulse p (SONY_BASE_PULSE * 2) sony_band \<longleftrightarrow> sony_near p 2"
  "compare_pulse p (SONY_BASE_PULSE * 4) sony_band \<longleftrightarrow> sony_near p 4"
  by (simp_all add: sony_near_def)

lemma sony_near_disjoint: "sony_near p 1 \<Longrightarrow> \<not> sony_near p 2"
  by (auto simp: sony_near_def compare_pulse_def SONY_BASE_PULSE_def word_less_nat_alt)

lemma length_sony_bit_times [simp]: "length (sony_bit_times k m v) = 2 * k"
  by (induction k arbitrary: m) auto

lemma and_push_bit_1: "v AND push_bit j 1 = 0 \<longleftrightarrow> \<not> bit v j" for v :: "'a::len word"
proof
  assume *: "v AND push_bit j 1 = 0"
  show "\<not> bit v j"
  proof
    assume b: "bit v j"
    then have "bit (v AND push_bit j 1) j"
      by (auto simp: bit_simps dest: bit_imp_le_length)
    with * show False by simp
  qed
next
  assume *: "\<not> bit v j"
  show "v AND push_bit j 1 = 0"
    by (rule bit_word_eqI) (use * in \<open>auto simp: bit_simps\<close>)
qed

lemma sony_bits_step:
  assumes "sony_near p 1" and "sony_near q (if c then 2 else 1)"
  shows "sony_bits (pre @ (p # q # b) @ post) (length pre) (Suc k) m acc =
    sony_bits ((pre @ [p, q]) @ b @ post) (length (pre @ [p, q])) k (push_bit 1 m)
      (if c then acc OR m else acc)"
  using assms sony_near_disjoint [of q] by (cases c) (auto simp: nth_append Let_def)

lemma sony_bits_received:
  assumes "disturbed sony_band b (sony_bit_times k (push_bit j 1) v)"
  shows "sony_bits (pre @ b @ post) (length pre) k (push_bit j 1) acc =
           (True, collect (map (bit v) [j..<j + k]) (push_bit j 1) acc, length pre + 2 * k)"
  using assms
proof (induction k arbitrary: pre b j acc)
  case 0
  then show ?case by simp
next
  case (Suc k)
  have pj: "push_bit 1 (push_bit j 1) = (push_bit (Suc j) 1 :: u16)" by simp
  obtain p q b' where b: "b = p # q # b'" and p: "sony_near p 1"
    and q: "sony_near q (if bit v j then 2 else 1)"
    and b': "disturbed sony_band b' (sony_bit_times k (push_bit (Suc j) 1) v)"
    using Suc.prems unfolding sony_bit_times.simps pj and_push_bit_1
    by (cases "bit v j") (auto simp: disturbed_Cons2 sony_windows simp del: push_bit_of_1)
  have bits: "map (bit v) [j..<j + Suc k] = bit v j # map (bit v) [Suc j..<Suc j + k]"
    by (subst upt_conv_Cons) simp_all
  have IH: "sony_bits ((pre @ [p, q]) @ b' @ post) (length (pre @ [p, q])) k (push_bit (Suc j) 1)
      (if bit v j then acc OR push_bit j 1 else acc) =
    (True, collect (map (bit v) [Suc j..<Suc j + k]) (push_bit (Suc j) 1)
      (if bit v j then acc OR push_bit j 1 else acc), length (pre @ [p, q]) + 2 * k)"
    by (rule Suc.IH) (rule b')
  show ?case
    unfolding bits b collect.simps pj
    using sony_bits_step [OF p q, of pre b' post k "push_bit j 1" acc, unfolded pj] IH
    by (simp del: push_bit_of_1 sony_bits.simps)
qed

lemma sony_bits_roundtrip:
  assumes "disturbed sony_band b (sony_bit_times k 1 v)" and "i = length pre"
  shows "sony_bits (pre @ b @ post) i k 1 0 = (True, take_bit k v, length pre + 2 * k)"
  using sony_bits_received [of b k 0 v pre post 0] assms by (simp add: collect_bits_mask)

lemma sony_decode_disturbed:
  assumes "disturbed sony_band ps (sony_message_times as vs addr func)"
  shows "sony_decode ps (length ps) address as vs =
           (take_bit as addr = address \<or> address = 0xffff, take_bit as addr, take_bit vs func)"
    and "sony_near (ps ! 0) 4" and "length ps = (as + vs) * 2 + 1"
    and "0 < as + vs \<Longrightarrow> sony_near (ps ! 1) 1"
proof -
  from assms obtain p fs ads where ps: "ps = [p] @ fs @ ads" and p: "sony_near p 4"
    and fs: "disturbed sony_band fs (sony_bit_times vs 1 func)"
    and ads: "disturbed sony_band ads (sony_bit_times as 1 addr)"
    unfolding sony_message_times_def
    by (auto simp: disturbed_append2 disturbed_Cons2 sony_windows)
  have len: "length fs = 2 * vs" "length ads = 2 * as"
    using disturbed_length [OF fs] disturbed_length [OF ads] by simp_all
  have f: "sony_bits ps 1 vs 1 0 = (True, take_bit vs func, 1 + 2 * vs)"
    using sony_bits_roundtrip [OF fs, of 1 "[p]" ads] by (simp add: ps)
  have a: "sony_bits ps (1 + 2 * vs) as 1 0 = (True, take_bit as addr, 1 + 2 * vs + 2 * as)"
    using sony_bits_roundtrip [OF ads, of "1 + 2 * vs" "[p] @ fs" "[]"] len by (simp add: ps)
  show "sony_near (ps ! 0) 4" using p ps by simp
  show l: "length ps = (as + vs) * 2 + 1" using len ps by simp
  show "sony_decode ps (length ps) address as vs =
           (take_bit as addr = address \<or> address = 0xffff, take_bit as addr, take_bit vs func)"
    using f a p l by (simp add: sony_decode_def ps Let_def)
  assume pos: "0 < as + vs"
  have first: "sony_near (hd (b @ bs)) 1" if "disturbed sony_band b (sony_bit_times (Suc k) 1 v)" for b bs k v
    using that by (auto simp: disturbed_Cons2 sony_windows split: if_splits)
  show "sony_near (ps ! 1) 1"
  proof (cases vs)
    case 0
    with pos obtain k where "as = Suc k" by (cases as) auto
    with first [of ads k addr "[]"] ads 0 len show ?thesis by (cases ads) (simp_all add: ps)
  next
    case (Suc k)
    with fs first [of fs k func ads] len show ?thesis by (cases fs) (simp_all add: ps)
  qed
qed

section \<open>Properties\<close>

definition sony_accepts :: "'z sony_receiver_scheme \<Rightarrow> u16 \<Rightarrow> bool" where
  "sony_accepts s addr \<longleftrightarrow>
     take_bit (sony_address_size s) addr = ucast (sony_address s) \<or>
     (ucast (sony_address s) :: u16) = 0xffff"

lemma sony_reachable_ok:
  assumes "rtranclp (ir_step pool sony_vtable) (sony_new gpio as vs address mem) s"
    and "0 < as + vs"
  shows "ir_ok frame_phase s" "timer_ok s" "ir_mx_pulse s = (as + vs) * 2 + 1"
  using sony.reachable_keeps [OF assms(1) sony_new_ok [OF assms(2)]]
  by (simp_all add: sony_new_def ir_receiver.defs sony_receiver.defs ir_new_def)

text \<open>Sony transmitter and receiver agree end to end, for every pair of address and value
  sizes with at least one bit.  From any reachable idle state of a receiver whose sizes are
  those it was constructed with, the edges of a disturbed copy of the waveform of
  \<open>Sony_Transmitter::setMessageTimes\<close> make the object call its receive callback exactly once
  with the low address bits and the low command bits if it is bound to that address or to
  all, and not at all otherwise.\<close>

theorem sony_message_received:
  assumes "rtranclp (ir_step pool sony_vtable) (sony_new gpio as vs address mem) s"
    and "0 < as + vs" and "sony_address_size s = as" and "sony_value_size s = vs"
    and "ir_sync s = 0" and "ir_rcb s"
    and "disturbed sony_band ps (sony_message_times as vs addr func)"
    and "u = feed pool sony_vtable s (edge_train (ir_prev_ts s) True ps)"
  shows "ir_sync u = 0 \<and> received (ir_calls u) = received (ir_calls s) @
           (if sony_accepts s addr
            then [(train_end (ir_prev_ts s) ps, take_bit as addr, take_bit vs func)] else [])"
proof -
  note ok = sony_reachable_ok [OF assms(1,2)]
  note d = sony_decode_disturbed [OF assms(7)]
  have s: "length (ir_pulses s) = ir_mx_pulse s" "length ps = ir_mx_pulse s" "3 \<le> length ps"
    using ok d(3) assms(2) by (auto simp: ir_ok_def)
  show ?thesis
    using sony.receive_frame(1,2) [OF assms(5) s d(2) d(4) [OF assms(2)] assms(8)] d(1) assms(3,4,6)
    by (simp add: sony_decode_message_def sony_accepts_def)
qed

definition sony_demo :: sony_receiver where
  "sony_demo = (sony12_new 5 1 (\<lambda>_. 0))\<lparr>ir_rcb := True, ir_rpt := False, ir_tmo := None, ir_err := False\<rparr>"

lemma sony_demo_reachable:
  "rtranclp (ir_step (\<lambda>_. 1) sony_vtable) (sony_new 5 5 7 1 (\<lambda>_. 0)) sony_demo"
  unfolding sony_demo_def sony12_new_def by (rule r_into_rtranclp) (rule ir_step.set_callbacks)

lemma sony_demo_simps:
  "sony_address_size sony_demo = 5" "sony_value_size sony_demo = 7" "ir_sync sony_demo = 0"
  "ir_rcb sony_demo" "sony_accepts sony_demo 1" "ir_calls sony_demo = []" "ir_prev_ts sony_demo = 0"
  by (simp_all add: sony_demo_def sony12_new_def sony_new_def ir_receiver.defs sony_receiver.defs
      ir_new_def sony_accepts_def)

lemma sony_message_received_witness:
  "received (ir_calls (feed (\<lambda>_. 1) sony_vtable sony_demo
     (edge_train 0 True (sony_message_times 5 7 1 21)))) =
   [(train_end 0 (sony_message_times 5 7 1 21), 1, 21)]"
proof -
  have c: "disturbed sony_band (sony_message_times 5 7 1 21) (sony_message_times 5 7 1 21)"
    by (rule disturbed_self) code_simp
  have p: "(0 :: nat) < 5 + 7" by simp
  show ?thesis
    using sony_message_received [OF sony_demo_reachable p sony_demo_simps(1-4) c refl]
    by (simp add: sony_demo_simps)
qed

end
