(* ===== verification/Transmitters.thy ===== *)
theory Transmitters
  imports Ir_Led Nec Samsung Sony
begin

text \<open>
  The transmitter classes (\<open>ir/nec_transmitter\<close>, \<open>ir/samsung_transmitter\<close>,
  \<open>ir/sony_transmitter\<close>) as users of the infrared output class, and the link from the output of a
  transmitter to the interrupts of a receiver: the receiver sees an edge whenever the carrier
  goes on or off.
\<close>

section \<open>Definitions\<close>

definition nec_led_class :: led_class where
  "nec_led_class = \<lparr>repeat_interval = 110, minimum_repeats = 0\<rparr>"

definition samsung_led_class :: led_class where
  "samsung_led_class = \<lparr>repeat_interval = 110, minimum_repeats = 0\<rparr>"

definition sony_led_class :: led_class where
  "sony_led_class = \<lparr>repeat_interval = 45, minimum_repeats = 2\<rparr>"

definition nec_set_message_times :: "(nat \<Rightarrow> u32) \<Rightarrow> u16 \<Rightarrow> u16 \<Rightarrow> ir_led \<Rightarrow> ir_led" where
  "nec_set_message_times mem addr func s =
     (let ts = nec_message_times addr func in led_set_output_times mem ts (length ts) s)"

definition nec_repeat :: "led_pool \<Rightarrow> (nat \<Rightarrow> u32) \<Rightarrow> ir_led \<Rightarrow> bool \<times> ir_led" where
  "nec_repeat pool mem s =
     led_repeat_send pool nec_led_class
       (led_set_output_times mem nec_repeat_times (length nec_repeat_times) s)"

definition samsung_set_message_times :: "(nat \<Rightarrow> u32) \<Rightarrow> u16 \<Rightarrow> u16 \<Rightarrow> ir_led \<Rightarrow> ir_led" where
  "samsung_set_message_times mem addr func s =
     (let ts = samsung_message_times addr func in led_set_output_times mem ts (length ts) s)"

definition sony_set_message_times ::
  "(nat \<Rightarrow> u32) \<Rightarrow> nat \<Rightarrow> nat \<Rightarrow> u16 \<Rightarrow> u16 \<Rightarrow> ir_led \<Rightarrow> ir_led" where
  "sony_set_message_times mem address_size command_size addr func s =
     (let ts = sony_message_times address_size command_size addr func
      in led_set_output_times mem ts (length ts) s)"

section \<open>From carrier to interrupts\<close>

text \<open>The light starts at level \<open>lvl\<close> at time \<open>t\<close>; an edge is reported when the level changes.\<close>

fun light_edges :: "bool \<Rightarrow> u64 \<Rightarrow> (bool \<times> int) list \<Rightarrow> (u64 \<times> bool) list" where
  "light_edges lvl t [] = []"
| "light_edges lvl t ((l, d) # ws) =
     (if l = lvl then [] else [(t, \<not> l)]) @ light_edges l (t + word_of_int d) ws"

lemma light_edges_message:
  assumes "i < length ts" "odd (length ts)"
  shows "light_edges (odd i) t (message_wave i ts @ (False, p) # ws) =
    (t, odd i) # edge_train t (even i) (drop i ts) @
      light_edges False (train_end t (drop i ts) + word_of_int p) ws"
  using assms
proof (induction "length ts - i" arbitrary: i t)
  case 0
  then show ?case by simp
next
  case (Suc k)
  have wave: "message_wave i ts = (even i, uint (ts ! i)) # message_wave (Suc i) ts"
    using Suc.prems by (simp add: message_wave_def upt_conv_Cons)
  have dr: "drop i ts = ts ! i # drop (Suc i) ts" using Suc.prems by (simp add: Cons_nth_drop_Suc)
  have u: "word_of_int (uint (ts ! i)) = (ucast (ts ! i) :: u64)" by simp
  show ?case
  proof (cases "Suc i < length ts")
    case True
    with Suc.hyps(1) [of "Suc i" "t + ucast (ts ! i)"] Suc.hyps(2) Suc.prems(2) show ?thesis
      by (simp add: wave dr u)
  next
    case False
    with Suc.prems have l: "Suc i = length ts" by simp
    with Suc.prems(2) have "even i" by (metis even_Suc)
    then show ?thesis by (simp add: wave dr u l [symmetric] message_wave_def)
  qed
qed

lemma train_end_sum: "train_end t ps = t + word_of_int (sum_list (map uint ps))"
  by (induction ps arbitrary: t) (simp_all add: add.assoc)

lemma light_edges_frames:
  assumes "odd (length ts)"
  shows "light_edges False t (frames p ts k) =
         frame_edges t (word_of_int (sum_list (map uint ts) + p)) ts k"
proof (induction k arbitrary: t)
  case 0
  have "0 < length ts" using assms by (cases ts) auto
  from light_edges_message [OF this assms, of t p "[]"] show ?case by simp
next
  case (Suc k)
  have "0 < length ts" using assms by (cases ts) auto
  from light_edges_message [OF this assms, of t "p - 1" "(False, 1) # frames p ts k"]
  show ?case using Suc.IH by (simp add: train_end_sum add.assoc)
qed

section \<open>Set times\<close>

definition led_ok :: "ir_led \<Rightarrow> bool" where
  "led_ok s \<longleftrightarrow> length (led_times s) = led_a_times s \<and> led_n_times s \<le> led_a_times s"

lemma led_set_output_times_ok:
  assumes "led_ok s" "length ts = n"
  shows "led_ok (led_set_output_times mem ts n s)"
    and "led_n_times (led_set_output_times mem ts n s) = n"
    and "take n (led_times (led_set_output_times mem ts n s)) = ts"
  using assms
  by (auto simp: led_set_output_times_def led_ok_def Let_def write_at_def)

lemma led_ready_set:
  assumes "led_ok s" "ts \<noteq> []" "0 \<notin> set ts" "repeat_interval c * 1000 < 2 ^ 31"
    "sum_list (map uint ts) + 2 \<le> repeat_interval c * 1000"
  shows "led_ready c (led_set_output_times mem ts (length ts) s)"
    and "led_gap c (led_set_output_times mem ts (length ts) s) =
           repeat_interval c * 1000 - sum_list (map uint ts)"
  using led_set_output_times_ok [OF assms(1) refl, where mem = mem and ts = ts] assms(2-)
  by (auto simp: led_ready_def led_ok_def led_gap_def)

lemma transmitted_edges:
  assumes "led_ok s" "odd (length ts)" "0 \<notin> set ts" "repeat_interval c * 1000 < 2 ^ 31"
    "sum_list (map uint ts) + 2 \<le> repeat_interval c * 1000" "0 \<le> minimum_repeats c" "\<forall>cs. 0 < pool cs"
    "led_transmit pool c (led_set_output_times mem ts (length ts) s) = (ok, t)"
  shows "ok" and "light_edges False T (led_waveform c t) =
    frame_edges T (word_of_int (repeat_interval c * 1000)) ts (nat (minimum_repeats c))"
proof -
  let ?s = "led_set_output_times mem ts (length ts) s"
  have ne: "ts \<noteq> []" using assms(2) by auto
  note r = led_ready_set [OF assms(1) ne assms(3-5), of mem]
  have "ok \<and> led_waveform c t = frames (led_gap c ?s) ts (nat (minimum_repeats c))"
    using led_transmit_waves [OF r(1) assms(6-8)]
      led_set_output_times_ok [OF assms(1) refl, where mem = mem and ts = ts] by simp
  then show ok "light_edges False T (led_waveform c t) =
    frame_edges T (word_of_int (repeat_interval c * 1000)) ts (nat (minimum_repeats c))"
    by (simp_all add: light_edges_frames [OF assms(2)] r(2))
qed


section \<open>The messages fit\<close>

lemma byte_times_fit:
  assumes "base = 562"
  shows "0 \<notin> set (byte_times base k d)" and "sum_list (map uint (byte_times base k d)) \<le> int k * 2248"
proof -
  have "0 \<notin> set (byte_times base k d) \<and> sum_list (map uint (byte_times base k d)) \<le> int k * 2248"
    using assms by (induction base k d rule: byte_times.induct) auto
  then show "0 \<notin> set (byte_times base k d)" "sum_list (map uint (byte_times base k d)) \<le> int k * 2248"
    by simp_all
qed

lemma bytes_times_fit:
  assumes "base = 562"
  shows "0 \<notin> set (concat (map (byte_times base 8) ds))"
    and "sum_list (map uint (concat (map (byte_times base 8) ds))) \<le> int (length ds) * 17984"
proof -
  show "0 \<notin> set (concat (map (byte_times base 8) ds))"
    using byte_times_fit(1) [OF assms] by auto
  show "sum_list (map uint (concat (map (byte_times base 8) ds))) \<le> int (length ds) * 17984"
  proof (induction ds)
    case Nil
    then show ?case by simp
  next
    case (Cons d ds)
    then show ?case using byte_times_fit(2) [OF assms, of 8 d] by simp
  qed
qed

lemma nec_message_fits:
  "0 \<notin> set (nec_message_times addr func)"
  "sum_list (map uint (nec_message_times addr func)) + 2 \<le> repeat_interval nec_led_class * 1000"
  using bytes_times_fit [of NEC_BASE_PULSE "nec_data addr func"]
  by (auto simp: nec_message_times_def nec_led_class_def NEC_BASE_PULSE_def nec_data_def Let_def)

lemma samsung_message_fits:
  "0 \<notin> set (samsung_message_times addr func)"
  "sum_list (map uint (samsung_message_times addr func)) + 2 \<le> repeat_interval samsung_led_class * 1000"
  using bytes_times_fit [of SAMSUNG_BASE_PULSE "samsung_data addr func"]
  by (auto simp: samsung_message_times_def samsung_led_class_def SAMSUNG_BASE_PULSE_def
      samsung_data_def Let_def)

lemma sony_bits_fit:
  "0 \<notin> set (sony_bit_times k m v) \<and> sum_list (map uint (sony_bit_times k m v)) \<le> int k * 1800"
  by (induction k arbitrary: m) (auto simp: SONY_BASE_PULSE_def add_increasing)

lemma sony_message_fits:
  assumes "as + vs \<le> 20"
  shows "0 \<notin> set (sony_message_times as vs addr func)"
    and "sum_list (map uint (sony_message_times as vs addr func)) + 2 \<le> repeat_interval sony_led_class * 1000"
  using sony_bits_fit [of vs 1 func] sony_bits_fit [of as 1 addr] assms
  by (auto simp: sony_message_times_def sony_led_class_def SONY_BASE_PULSE_def)

lemma message_lengths:
  "length (samsung_message_times addr func) = 67"
  "length (sony_message_times as vs addr func) = (as + vs) * 2 + 1"
  by (simp_all add: samsung_message_times_def samsung_data_def sony_message_times_def Let_def)

lemma sony_clean: "disturbed sony_band (sony_message_times as vs addr func) (sony_message_times as vs addr func)"
proof (rule disturbed_self)
  have "q \<in> {600, 1200}" if "q \<in> set (sony_bit_times k m v)" for q k m v
    using that by (induction k arbitrary: m) (auto simp: SONY_BASE_PULSE_def split: if_splits)
  then show "list_all (\<lambda>q. compare_pulse q q sony_band) (sony_message_times as vs addr func)"
    unfolding list_all_iff
    by (fastforce simp: sony_message_times_def compare_pulse_def SONY_BASE_PULSE_def word_less_nat_alt)
qed


lemma nec_clean_any: "disturbed nec_band (nec_message_times addr func) (nec_message_times addr func)"
proof (rule disturbed_self)
  have "q \<in> {562, 1686}" if "q \<in> set (byte_times 562 k d)" for q k d
    using that by (induction "562 :: u32" k d rule: byte_times.induct) (auto split: if_splits)
  then show "list_all (\<lambda>q. compare_pulse q q nec_band) (nec_message_times addr func)"
    unfolding list_all_iff
    by (fastforce simp: nec_message_times_def compare_pulse_def NEC_BASE_PULSE_def word_less_nat_alt)
qed

lemma samsung_clean_any:
  "disturbed samsung_band (samsung_message_times addr func) (samsung_message_times addr func)"
proof (rule disturbed_self)
  have "q \<in> {562, 1686}" if "q \<in> set (byte_times 562 k d)" for q k d
    using that by (induction "562 :: u32" k d rule: byte_times.induct) (auto split: if_splits)
  then show "list_all (\<lambda>q. compare_pulse q q samsung_band) (samsung_message_times addr func)"
    unfolding list_all_iff
    by (fastforce simp: samsung_message_times_def compare_pulse_def SAMSUNG_BASE_PULSE_def word_less_nat_alt)
qed

section \<open>Properties\<close>

text \<open>From transmitter object to receiver object, NEC.  Whatever state the output object is
  in, setting a message and transmitting it starts, and the light it puts out, seen through
  the edge interrupts of any reachable idle receiver object that accepts the address, makes
  that receiver call its receive callback exactly once, with the address and the function
  code, at the end of the message.\<close>

theorem nec_link:
  assumes "rtranclp (ir_step pool nec_vtable) (nec_new gpio address mem) s"
    and "ir_sync s = 0" and "ir_rcb s" and "nec_accepts s addr"
    and "led_ok led" and "\<forall>cs. 0 < lpool cs"
    and "led_transmit lpool nec_led_class (nec_set_message_times lmem addr func led) = (ok, t)"
  shows "ok \<and> received (ir_calls (feed pool nec_vtable s
             (light_edges False start (led_waveform nec_led_class t)))) =
           received (ir_calls s) @
             [(train_end start (nec_message_times addr func), nec_heard addr, func AND 0xff)]"
proof -
  let ?ts = "nec_message_times addr func"
  have "led_transmit lpool nec_led_class (led_set_output_times lmem ?ts (length ?ts) led) = (ok, t)"
    using assms(7) by (simp only: nec_set_message_times_def Let_def)
  note e = transmitted_edges [OF assms(5) _ nec_message_fits(1) _ nec_message_fits(2) _ assms(6) this]
  have e: ok "light_edges False start (led_waveform nec_led_class t) = frame_edges start 110000 ?ts 0"
    using e by (simp_all add: nec_led_class_def)
  note idle = nec_reachable_idle [OF assms(1,2)]
  have s: "length (ir_pulses s) = ir_mx_pulse s" "length ?ts = ir_mx_pulse s" "3 \<le> length ?ts"
    using idle by (simp_all add: idle_receiver_def ir_ok_def)
  note d = nec_decode_data [OF nec_clean_any [of addr func]]
  show ?thesis
    using e nec.receive_frames [OF assms(2) s d(1,2) nec_decode_message_sent [OF nec_clean_any],
        of pool start 110000 0] assms(3,4)
    by simp
qed

definition lit_demo :: ir_led where
  "lit_demo = led_new 67 (\<lambda>_. 0)"

lemma lit_demo_ok: "led_ok lit_demo"
  by (simp add: lit_demo_def led_ok_def led_new_def)

lemma nec_link_witness:
  "received (ir_calls (feed (\<lambda>_. 1) nec_vtable nec_demo (light_edges False 500
     (led_waveform nec_led_class (snd (led_transmit (\<lambda>_. 1) nec_led_class
       (nec_set_message_times (\<lambda>_. 0) 4 8 lit_demo))))))) =
   [(train_end 500 (nec_message_times 4 8), 4, 8)]"
proof -
  have "nec_heard 4 = 4" "(8 :: u16) AND 0xff = 8" by (simp_all add: nec_heard_def Let_def)
  with nec_link [OF nec_demo_reachable nec_demo_simps(1,2,4) lit_demo_ok _ prod.collapse [symmetric]]
  show ?thesis by (simp add: nec_demo_simps)
qed

text \<open>From transmitter object to receiver object, Samsung: the same end to end statement for
  the Samsung pair, whose 8-bit addresses travel as two equal bytes.\<close>

theorem samsung_link:
  assumes "rtranclp (ir_step pool samsung_vtable) (samsung_new gpio address mem) s"
    and "ir_sync s = 0" and "ir_rcb s" and "led_ok led" and "\<forall>cs. 0 < lpool cs"
    and "led_transmit lpool samsung_led_class (samsung_set_message_times lmem addr func led) = (ok, t)"
  shows "ok \<and> received (ir_calls (feed pool samsung_vtable s
             (light_edges False start (led_waveform samsung_led_class t)))) =
           received (ir_calls s) @
             (if samsung_accepts s addr
              then [(train_end start (samsung_message_times addr func), samsung_heard addr, func AND 0xff)]
              else [])"
proof -
  let ?ts = "samsung_message_times addr func"
  have "led_transmit lpool samsung_led_class (led_set_output_times lmem ?ts (length ?ts) led) = (ok, t)"
    using assms(6) by (simp only: samsung_set_message_times_def Let_def)
  note e = transmitted_edges [OF assms(4) _ samsung_message_fits(1) _ samsung_message_fits(2) _ assms(5) this]
  have e: ok "light_edges False start (led_waveform samsung_led_class t) = frame_edges start 110000 ?ts 0"
    using e by (simp_all add: samsung_led_class_def message_lengths)
  note ok = samsung_reachable_ok [OF assms(1)]
  note d = samsung_decode_disturbed [OF samsung_clean_any [of addr func]]
  have s: "length (ir_pulses s) = ir_mx_pulse s" "length ?ts = ir_mx_pulse s" "3 \<le> length ?ts"
    using ok by (simp_all add: ir_ok_def message_lengths)
  have dec: "samsung_decode_message (s\<lparr>ir_pulses := ?ts, ir_n_pulse := length ?ts\<rparr>) =
      (samsung_accepts s addr, samsung_heard addr, func AND 0xff)"
    using d by (simp add: samsung_decode_message_def samsung_accepts_def)
  show ?thesis
    using e samsung.receive_frames [OF assms(2) s
        samsung_decode_data(1,2) [OF samsung_clean_any] dec, of pool start 110000 0] assms(3)
    by simp
qed

lemma samsung_link_witness:
  "received (ir_calls (feed (\<lambda>_. 1) samsung_vtable samsung_demo (light_edges False 500
     (led_waveform samsung_led_class (snd (led_transmit (\<lambda>_. 1) samsung_led_class
       (samsung_set_message_times (\<lambda>_. 0) 7 2 lit_demo))))))) =
   [(train_end 500 (samsung_message_times 7 2), 7, 2)]"
  using samsung_link [OF samsung_demo_reachable samsung_demo_simps(1,2) lit_demo_ok _ prod.collapse [symmetric]]
  by (simp add: samsung_demo_simps)

text \<open>C10: From transmitter object to receiver object, Sony.  Transmitting sends the message three
  times at 45 millisecond intervals, and a reachable idle receiver of the same sizes that
  accepts the address hears it exactly three times, at those distances, with the low address
  and command bits, for all sizes that fit the transmitter's array of 42 times.\<close>

theorem sony_link:
  assumes "rtranclp (ir_step pool sony_vtable) (sony_new gpio as vs address mem) s"
    and "0 < as + vs" and "as + vs \<le> 20" and "sony_address_size s = as" and "sony_value_size s = vs"
    and "ir_sync s = 0" and "ir_rcb s" and "sony_accepts s addr"
    and "led_ok led" and "\<forall>cs. 0 < lpool cs"
    and "led_transmit lpool sony_led_class (sony_set_message_times lmem as vs addr func led) = (ok, t)"
  shows "ok \<and> received (ir_calls (feed pool sony_vtable s
             (light_edges False start (led_waveform sony_led_class t)))) =
           received (ir_calls s) @
             map (\<lambda>T. (train_end T (sony_message_times as vs addr func), take_bit as addr, take_bit vs func))
               [start, start + 45000, start + 90000]"
proof -
  let ?ts = "sony_message_times as vs addr func"
  have "led_transmit lpool sony_led_class (led_set_output_times lmem ?ts (length ?ts) led) = (ok, t)"
    using assms(11) by (simp only: sony_set_message_times_def Let_def)
  note e = transmitted_edges [OF assms(9) _ sony_message_fits(1) [OF assms(3)] _
      sony_message_fits(2) [OF assms(3)] _ assms(10) this]
  have e: ok "light_edges False start (led_waveform sony_led_class t) = frame_edges start 45000 ?ts 2"
    using e by (simp_all add: sony_led_class_def message_lengths)
  note ok = sony_reachable_ok [OF assms(1,2)]
  note d = sony_decode_disturbed [OF sony_clean [of as vs addr func]]
  have s: "length (ir_pulses s) = ir_mx_pulse s" "length ?ts = ir_mx_pulse s" "3 \<le> length ?ts"
    using ok d(3) assms(2) by (auto simp: ir_ok_def)
  have dec: "sony_decode_message (s\<lparr>ir_pulses := ?ts, ir_n_pulse := length ?ts\<rparr>) =
      (sony_accepts s addr, take_bit as addr, take_bit vs func)"
    using d(1) assms(4,5) by (simp add: sony_decode_message_def sony_accepts_def)
  have "of_nat 2 * (45000 :: u64) = 90000" by simp
  then show ?thesis
    using e sony.receive_frames [OF assms(6) s d(2) d(4) [OF assms(2)] dec,
        of pool start 45000 2] assms(7,8)
    by (simp add: upt_rec)
qed

lemma sony_link_witness:
  "map (\<lambda>(t, a, f). (a, f)) (received (ir_calls (feed (\<lambda>_. 1) sony_vtable sony_demo (light_edges False 500
     (led_waveform sony_led_class (snd (led_transmit (\<lambda>_. 1) sony_led_class
       (sony_set_message_times (\<lambda>_. 0) 5 7 1 21 lit_demo)))))))) = [(1, 21), (1, 21), (1, 21)]"
proof -
  show ?thesis
    using sony_link [OF sony_demo_reachable _ _ sony_demo_simps(1-5) lit_demo_ok,
        of "\<lambda>_. 1" "\<lambda>_. 0" 21 _ _ 500, OF _ _ _ prod.collapse [symmetric]]
    by (simp add: take_bit_eq_mask mask_eq_exp_minus_1 sony_demo_simps)
qed

end
