(* ===== verification/Raw_Receiver.thy ===== *)
theory Raw_Receiver
  imports Ir_Frame
begin

text \<open>
  The receiver of raw pulse times (\<open>ir/raw_receiver.h\<close>, \<open>ir/raw_receiver.cpp\<close>).  It accepts
  every edge after the first, decodes nothing, and copies the pulse buffer to the array of the
  application when a message is complete or times out.  The application's array is the list
  \<open>raw_times\<close>; its documented contract is that it has at least \<open>raw_n_times\<close> elements.  The
  variable behind \<open>countptr_\<close> is \<open>raw_countptr\<close>, \<open>None\<close> for a null pointer.
\<close>

section \<open>Definitions\<close>

record raw_receiver = ir_receiver +
  raw_times :: "u32 list"
  raw_n_times :: nat
  raw_countptr :: "nat option"
  raw_count :: nat

definition raw_new :: "u32 \<Rightarrow> nat \<Rightarrow> (nat \<Rightarrow> u32) \<Rightarrow> raw_receiver" where
  "raw_new gpio edges mem =
     ir_receiver.extend (ir_new gpio edges mem) (raw_receiver.fields [] 0 None 0)"

definition raw_set_times ::
  "u32 list \<Rightarrow> nat \<Rightarrow> nat option \<Rightarrow> 'z raw_receiver_scheme \<Rightarrow> 'z raw_receiver_scheme" where
  "raw_set_times dest n_times count s =
     s\<lparr>raw_times := dest, raw_n_times := n_times, raw_countptr := count\<rparr>"

definition raw_check_sync ::
  "u64 \<Rightarrow> bool \<Rightarrow> 'z raw_receiver_scheme \<Rightarrow> bool \<times> 'z raw_receiver_scheme" where
  "raw_check_sync ts falling s =
     (if ir_sync s = 0 \<and> \<not> falling then (False, s) else (True, s\<lparr>ir_sync := 1\<rparr>))"

definition raw_decode_message :: "'z raw_receiver_scheme \<Rightarrow> bool \<times> u16 \<times> u16" where
  "raw_decode_message s = (True, 0, 0)"

definition raw_store_pulses :: "'z raw_receiver_scheme \<Rightarrow> 'z raw_receiver_scheme" where
  "raw_store_pulses s =
     (let count = if ir_n_pulse s < raw_n_times s then ir_n_pulse s else raw_n_times s
      in s\<lparr>raw_count := count,
           raw_times := write_at (raw_times s) 0 (take count (ir_pulses s)),
           raw_countptr := map_option (\<lambda>_. count) (raw_countptr s)\<rparr>)"

definition raw_timeout :: "bool \<Rightarrow> 'z raw_receiver_scheme \<Rightarrow> bool \<times> 'z raw_receiver_scheme" where
  "raw_timeout msg s = ir_timeout msg (raw_store_pulses s)"

definition raw_message_complete :: "u64 \<Rightarrow> 'z raw_receiver_scheme \<Rightarrow> 'z raw_receiver_scheme" where
  "raw_message_complete ts s = ir_message_complete raw_decode_message ts (raw_store_pulses s)"

definition raw_vtable :: "'z raw_receiver_ext ir_vtable" where
  "raw_vtable =
     \<lparr> vt_check_sync = raw_check_sync,
       vt_check_bit_timeout = (\<lambda>_. True),
       vt_message_complete = raw_message_complete,
       vt_timeout = raw_timeout \<rparr>"

text \<open>
  The interrupts that arrive while the caller waits.  A timer event for a timer that is not
  running does not happen.
\<close>

datatype ir_event = Edge u64 bool | Bit_Timer | Msg_Timer

fun ir_handle :: "pool \<Rightarrow> 'z ir_vtable \<Rightarrow> ir_event \<Rightarrow> 'z ir_receiver_scheme \<Rightarrow> 'z ir_receiver_scheme" where
  "ir_handle pool vt (Edge ts falling) s = store_timestamp pool vt ts falling s"
| "ir_handle pool vt Bit_Timer s =
     (if ir_bit_timer s = -1 then s else snd (timeout_bit vt (ir_bit_timer s) s))"
| "ir_handle pool vt Msg_Timer s =
     (if ir_msg_timer s = -1 then s else timeout_msg vt (ir_msg_timer s) s)"

text \<open>
  \<open>read_raw_times\<close> blocks in \<open>wait_for_message\<close>; \<open>waiting\<close> is the sequence of interrupts
  served until the semaphore is released or the wait times out.  The result is the count
  together with the caller's array and the object.
\<close>

definition read_raw_times ::
  "pool \<Rightarrow> u32 list \<Rightarrow> nat \<Rightarrow> u32 \<Rightarrow> ir_event list \<Rightarrow> 'z raw_receiver_scheme \<Rightarrow>
     nat \<times> u32 list \<times> 'z raw_receiver_scheme" where
  "read_raw_times pool dest n_times edge_tmo waiting s =
     (let s1 = s\<lparr>raw_times := dest, raw_n_times := n_times, ir_n_pulse := 0, raw_count := 0,
                 ir_bit_timeout := edge_tmo\<rparr>;
          s2 = fold (ir_handle pool raw_vtable) waiting s1
      in (raw_count s2, raw_times s2, s2\<lparr>raw_times := [], raw_n_times := 0\<rparr>))"

section \<open>The class meets the receiver contract\<close>

definition raw_phase :: "nat \<Rightarrow> nat \<Rightarrow> u8 \<Rightarrow> bool" where
  "raw_phase mx n sync \<longleftrightarrow> sync = 0 \<and> n = 0 \<or> sync = 1 \<and> n < mx \<or> sync = 1 \<and> mx = 0"

lemma raw_vtable_simps [simp]:
  "vt_check_sync raw_vtable = raw_check_sync"
  "vt_check_bit_timeout raw_vtable = (\<lambda>_. True)"
  "vt_message_complete raw_vtable = raw_message_complete"
  "vt_timeout raw_vtable = raw_timeout"
  by (simp_all add: raw_vtable_def)

lemma raw_store_progress [wf_intros]: "same_progress s (raw_store_pulses s)"
  by (simp add: same_progress_def raw_store_pulses_def Let_def)

lemma same_progress_trans: "same_progress s t \<Longrightarrow> same_progress t u \<Longrightarrow> same_progress s u"
  by (simp add: same_progress_def)

interpretation raw: ir_protocol raw_vtable raw_phase
proof (unfold_locales, goal_cases)
  case (1 mx n sy)
  then show ?case by (simp add: raw_phase_def)
next
  case (2 s ts f)
  then show ?case by (auto simp: raw_check_sync_def ir_ok_def raw_phase_def)
next
  case (3 ts f s)
  then show ?case by (simp add: raw_check_sync_def)
next
  case (4 s ts f t)
  then show ?case by (auto simp: raw_check_sync_def raw_phase_def split: if_splits)
next
  case (5 s ts f)
  then show ?case by (auto simp: raw_check_sync_def timer_ok_def)
next
  case (6 s ts f)
  then show ?case by (simp add: raw_check_sync_def)
next
  case (7 s ts)
  then show ?case
    using idle_after_pre [OF raw_store_progress idle_after_complete]
    by (simp add: raw_message_complete_def)
next
  case (8 m s t)
  then show ?case
    using idle_after_pre [OF raw_store_progress ir_timeout_False]
    by (simp add: raw_timeout_def)
next
  case (9 m s t)
  then show ?case
    using same_progress_trans [OF raw_store_progress ir_timeout_True]
    by (simp add: raw_timeout_def)
qed

section \<open>Capturing a waveform\<close>

lemma fold_edges: "fold (ir_handle pool vt) (map (\<lambda>(t, f). Edge t f) es) s = feed pool vt s es"
  by (induction es arbitrary: s) auto

lemma raw_data_step:
  assumes "ir_sync s = 1" "Suc (ir_n_pulse s) < ir_mx_pulse s"
  shows "store_timestamp pool raw_vtable (ir_prev_ts s + ucast p) f s =
           (put_pulse p s)\<lparr>ir_prev_ts := ir_prev_ts s + ucast p\<rparr>"
  using assms by (simp add: store_timestamp_def raw_check_sync_def store_pulse_def put_pulse_def)

lemma raw_first_step:
  assumes "ir_sync s = 0" "Suc (ir_n_pulse s) < ir_mx_pulse s"
  shows "store_timestamp pool raw_vtable (ir_prev_ts s + ucast p) True s =
           start_timeout pool ((put_pulse p (s\<lparr>ir_sync := 1\<rparr>))\<lparr>ir_prev_ts := ir_prev_ts s + ucast p\<rparr>)"
  using assms by (simp add: store_timestamp_def raw_check_sync_def store_pulse_def put_pulse_def)

lemma raw_data_phase:
  assumes "ir_sync s = 1" "length (ir_pulses s) = ir_mx_pulse s"
    "ir_n_pulse s + length ps < ir_mx_pulse s"
  shows "feed pool raw_vtable s (edge_train (ir_prev_ts s) f ps) =
           s\<lparr>ir_pulses := write_at (ir_pulses s) (ir_n_pulse s) ps,
             ir_n_pulse := ir_n_pulse s + length ps, ir_prev_ts := train_end (ir_prev_ts s) ps\<rparr>"
  using assms
proof (induction ps arbitrary: s f)
  case Nil
  then show ?case by simp
next
  case (Cons p ps)
  let ?s = "(put_pulse p s)\<lparr>ir_prev_ts := ir_prev_ts s + ucast p\<rparr>"
  have "feed pool raw_vtable s (edge_train (ir_prev_ts s) f (p # ps)) =
        feed pool raw_vtable ?s (edge_train (ir_prev_ts ?s) (\<not> f) ps)"
    using Cons.prems by (simp add: raw_data_step)
  also have "\<dots> = ?s\<lparr>ir_pulses := write_at (ir_pulses ?s) (ir_n_pulse ?s) ps,
             ir_n_pulse := ir_n_pulse ?s + length ps, ir_prev_ts := train_end (ir_prev_ts ?s) ps\<rparr>"
    by (rule Cons.IH) (use Cons.prems in \<open>auto simp: put_pulse_def\<close>)
  finally show ?case
    using Cons.prems by (simp add: put_pulse_def write_at_Cons)
qed

lemma start_timeout_bit:
  assumes "ir_bit_timeout s > 0"
  shows "ir_bit_timer (start_timeout pool s) \<in> range pool"
    and "ir_prev_count (start_timeout pool s) = ir_n_pulse s"
    and "ir_bit_timeout (start_timeout pool s) = ir_bit_timeout s"
    and "ir_tmo (start_timeout pool s) = ir_tmo s"
  using assms
  by (cases "ir_msg_timeout s > 0 \<and> ir_msg_timer s = -1";
      simp add: start_timeout_def start_message_timeout_def ir_emit_def Let_def)+

lemma raw_capture:
  assumes idle: "ir_sync s = 0" "ir_n_pulse s = 0" and len: "length (ir_pulses s) = ir_mx_pulse s"
    and ps: "ps \<noteq> []" "length ps < ir_mx_pulse s"
    and t: "t = feed pool raw_vtable s (edge_train (ir_prev_ts s) True ps)"
  shows "ir_sync t = 1" "ir_n_pulse t = length ps" "take (length ps) (ir_pulses t) = ps"
    "length (ir_pulses t) = ir_mx_pulse s" "ir_mx_pulse t = ir_mx_pulse s"
    "ir_prev_ts t = train_end (ir_prev_ts s) ps"
    "ir_receiver.more t = ir_receiver.more s"
    "ir_rcb t = ir_rcb s" "received (ir_calls t) = received (ir_calls s)"
    "0 < ir_bit_timeout s \<Longrightarrow> \<forall>cs. pool cs \<noteq> -1 \<Longrightarrow>
      ir_bit_timer t \<noteq> -1 \<and> ir_prev_count t = 1 \<and> ir_bit_timeout t = ir_bit_timeout s \<and> ir_tmo t = ir_tmo s"
proof -
  obtain p qs where p: "ps = p # qs" using ps(1) by (cases ps) auto
  define a where "a = start_timeout pool
    ((put_pulse p (s\<lparr>ir_sync := 1\<rparr>))\<lparr>ir_prev_ts := ir_prev_ts s + ucast p\<rparr>)"
  have a: "ir_sync a = 1" "ir_n_pulse a = 1" "ir_pulses a = (ir_pulses s)[0 := p]"
    "ir_mx_pulse a = ir_mx_pulse s" "ir_prev_ts a = ir_prev_ts s + ucast p"
    "ir_receiver.more a = ir_receiver.more s"
    "ir_rcb a = ir_rcb s" "received (ir_calls a) = received (ir_calls s)"
    using idle by (simp_all add: a_def start_timeout_frame put_pulse_def)
  have "t = feed pool raw_vtable a (edge_train (ir_prev_ts a) False qs)"
  proof (cases qs)
    case Nil
    with t idle ps p show ?thesis by (simp add: raw_first_step a_def)
  next
    case (Cons q rs)
    with t idle ps p a(5) show ?thesis by (simp add: raw_first_step a_def)
  qed
  also have "\<dots> = a\<lparr>ir_pulses := write_at (ir_pulses a) 1 qs, ir_n_pulse := 1 + length qs,
      ir_prev_ts := train_end (ir_prev_ts a) qs\<rparr>"
    using raw_data_phase [of a qs pool False] a ps len p by simp
  finally have t': "t = a\<lparr>ir_pulses := write_at (ir_pulses a) 1 qs, ir_n_pulse := 1 + length qs,
      ir_prev_ts := train_end (ir_prev_ts a) qs\<rparr>" .
  show "ir_sync t = 1" "ir_n_pulse t = length ps" "length (ir_pulses t) = ir_mx_pulse s"
    "ir_mx_pulse t = ir_mx_pulse s" "ir_prev_ts t = train_end (ir_prev_ts s) ps"
    "ir_receiver.more t = ir_receiver.more s"
    "ir_rcb t = ir_rcb s" "received (ir_calls t) = received (ir_calls s)"
    using a ps len p by (simp_all add: t')
  show "take (length ps) (ir_pulses t) = ps"
    using a ps len p by (cases "ir_pulses s") (simp_all add: t' write_at_def)
  assume b: "0 < ir_bit_timeout s" "\<forall>cs. pool cs \<noteq> -1"
  have b': "0 < ir_bit_timeout ((put_pulse p (s\<lparr>ir_sync := 1\<rparr>))\<lparr>ir_prev_ts := ir_prev_ts s + ucast p\<rparr>)"
    using b by (simp add: put_pulse_def)
  have "ir_bit_timer a \<in> range pool" "ir_prev_count a = 1"
    "ir_bit_timeout a = ir_bit_timeout s" "ir_tmo a = ir_tmo s"
    using start_timeout_bit [OF b', of pool] idle by (simp_all add: a_def put_pulse_def)
  then show "ir_bit_timer t \<noteq> -1 \<and> ir_prev_count t = 1 \<and> ir_bit_timeout t = ir_bit_timeout s \<and> ir_tmo t = ir_tmo s"
    using b by (auto simp: t')
qed


definition raw_stored :: "nat \<Rightarrow> u32 list \<Rightarrow> u32 list \<Rightarrow> nat \<times> u32 list" where
  "raw_stored n_times dest ps =
     (let count = min (length ps) n_times in (count, take count ps @ drop count dest))"

lemma raw_store_pulses_stored:
  assumes "take (length ps) (ir_pulses s) = ps" "ir_n_pulse s = length ps"
  shows "(raw_count (raw_store_pulses s), raw_times (raw_store_pulses s)) =
         raw_stored (raw_n_times s) (raw_times s) ps"
proof -
  have "take k (ir_pulses s) = take k ps" if "k \<le> length ps" for k
    using assms(1) that by (metis take_take min.absorb1)
  moreover have "length ps \<le> length (ir_pulses s)" using assms(1) by (metis length_take min.cobounded1)
  ultimately show ?thesis
    using assms(2)
    by (auto simp: raw_store_pulses_def raw_stored_def Let_def write_at_def min_def)
qed

lemma raw_keeps_dest:
  "raw_count (ir_message_error s) = raw_count s" "raw_times (ir_message_error s) = raw_times s"
  "raw_count (ir_message_complete d ts s) = raw_count s"
  "raw_times (ir_message_complete d ts s) = raw_times s"
  by (auto simp: ir_defs ir_message_complete_def Let_def split: prod.splits)

lemma raw_bit_timeout:
  assumes "ir_sync t = 1" "ir_bit_timer t \<noteq> -1" "ir_tmo t = None" "ir_prev_count t = ir_n_pulse t"
  shows "ir_handle pool raw_vtable Bit_Timer t =
    ir_emit (Alarm_Over (ir_bit_timer t)) ((ir_message_error (raw_store_pulses t))\<lparr>ir_bit_timer := -1\<rparr>)"
  using assms
  by (simp add: timeout_bit_def timeout_bit_body_def raw_timeout_def ir_timeout_def
      raw_store_pulses_def Let_def)

lemma raw_bit_rearm:
  assumes "ir_sync t = 1" "ir_bit_timer t \<noteq> -1" "ir_prev_count t \<noteq> ir_n_pulse t"
    "ir_bit_timeout t * 1000 \<noteq> 0"
  shows "ir_handle pool raw_vtable Bit_Timer t = t\<lparr>ir_prev_count := ir_n_pulse t\<rparr>"
  using assms by (simp add: timeout_bit_def timeout_bit_body_def)

lemma raw_two_bit_timeouts:
  assumes "ir_sync t = 1" "ir_bit_timer t \<noteq> -1" "ir_tmo t = None"
    "ir_bit_timeout t * 1000 \<noteq> 0" "take (length ps) (ir_pulses t) = ps" "ir_n_pulse t = length ps"
  shows "(let u = fold (ir_handle pool raw_vtable) [Bit_Timer, Bit_Timer] t
          in (raw_count u, raw_times u) = raw_stored (raw_n_times t) (raw_times t) ps \<and> ir_sync u = 0)"
proof -
  have sy: "ir_sync (ir_message_error s) = 0" "ir_bit_timer (ir_message_error s) = -1" for s :: "'a raw_receiver_scheme"
    by (simp_all add: ir_defs)
  have eq: "raw_stored (raw_n_times t) (raw_times t) ps =
      (raw_count (raw_store_pulses (t\<lparr>ir_prev_count := c\<rparr>)), raw_times (raw_store_pulses (t\<lparr>ir_prev_count := c\<rparr>)))" for c
    using raw_store_pulses_stored [of ps "t\<lparr>ir_prev_count := c\<rparr>"] assms(5,6) by simp
  show ?thesis
  proof (cases "ir_prev_count t = ir_n_pulse t")
    case True
    then show ?thesis
      using raw_bit_timeout [OF assms(1-3) True] eq [of "ir_n_pulse t"]
      by (simp add: Let_def ir_emit_def sy raw_keeps_dest del: ir_handle.simps) (simp add: True [symmetric] sy raw_keeps_dest)
  next
    case False
    then show ?thesis
      using raw_bit_rearm [OF assms(1,2) False assms(4)] assms eq [of "ir_n_pulse t"]
        raw_bit_timeout [of "t\<lparr>ir_prev_count := ir_n_pulse t\<rparr>"]
      by (simp add: Let_def ir_emit_def sy raw_keeps_dest del: ir_handle.simps)
  qed
qed

section \<open>Properties\<close>

lemma raw_new_ok:
  "ir_ok raw_phase (raw_new gpio edges mem)" "timer_ok (raw_new gpio edges mem)"
  by (simp_all add: raw_new_def ir_receiver.defs raw_receiver.defs ir_new_def ir_ok_def
      raw_phase_def timer_ok_def)

lemma raw_reachable_idle:
  assumes "rtranclp (ir_step pool raw_vtable) (raw_new gpio edges mem) s" and "ir_sync s = 0"
  shows "ir_n_pulse s = 0" "length (ir_pulses s) = edges" "ir_mx_pulse s = edges"
  using raw.reachable_keeps [OF assms(1) raw_new_ok] assms(2)
  by (auto simp: raw_new_def ir_receiver.defs raw_receiver.defs ir_new_def ir_ok_def raw_phase_def)

text \<open>\<open>read_raw_times\<close> captures a message that ends in silence.  From any reachable idle state
  without a timeout callback, when the edges of a waveform shorter than the object's buffer
  arrive and then the edge timer expires twice, the call returns the smaller of the number of
  pulses and the size of the caller's array, that many leading entries of the array are the
  pulse times of the waveform and the rest of the array is untouched.  The edge timeout must
  not be one whose value in microseconds wraps to zero.\<close>

theorem raw_times_read:
  assumes "rtranclp (ir_step pool raw_vtable) (raw_new gpio edges mem) s"
    and "ir_sync s = 0" and "ir_tmo s = None" and "\<forall>cs. pool cs \<noteq> -1"
    and "ps \<noteq> []" and "length ps < edges" and "0 < edge_tmo" and "edge_tmo * 1000 \<noteq> 0"
    and "waiting = map (\<lambda>(t, f). Edge t f) (edge_train (ir_prev_ts s) True ps) @ [Bit_Timer, Bit_Timer]"
  shows "(case read_raw_times pool dest n_times edge_tmo waiting s of (count, dest', s') \<Rightarrow>
            count = min (length ps) n_times \<and> dest' = take count ps @ drop count dest \<and>
            ir_sync s' = 0)"
proof -
  let ?s = "s\<lparr>raw_times := dest, raw_n_times := n_times, ir_n_pulse := 0, raw_count := 0,
    ir_bit_timeout := edge_tmo\<rparr>"
  let ?t = "feed pool raw_vtable ?s (edge_train (ir_prev_ts s) True ps)"
  note idle = raw_reachable_idle [OF assms(1,2)]
  have more: "raw_n_times t = n_times \<and> raw_times t = dest"
    if "ir_receiver.more t = ir_receiver.more ?s" for t
    using that by (cases t; cases s) simp
  note t = raw_capture [of ?s ps ?t pool]
  have "ir_sync ?t = 1" "ir_bit_timer ?t \<noteq> -1" "ir_tmo ?t = None"
    "ir_bit_timeout ?t * 1000 \<noteq> 0" "take (length ps) (ir_pulses ?t) = ps" "ir_n_pulse ?t = length ps"
    and m: "ir_receiver.more ?t = ir_receiver.more ?s"
    using t idle assms(2-8) by auto
  then have "(let u = fold (ir_handle pool raw_vtable) [Bit_Timer, Bit_Timer] ?t
      in (raw_count u, raw_times u) = raw_stored n_times dest ps \<and> ir_sync u = 0)"
    using raw_two_bit_timeouts [of ?t ps] more [OF m] by simp
  then show ?thesis
    by (simp add: read_raw_times_def assms(9) fold_edges Let_def raw_stored_def)
qed

definition raw_demo :: raw_receiver where
  "raw_demo = raw_new 5 4 (\<lambda>_. 0)"

lemma raw_times_read_witness:
  "(case read_raw_times (\<lambda>_. 1) [0, 0] 2 10
      (map (\<lambda>(t, f). Edge t f) (edge_train 0 True [900, 400, 300]) @ [Bit_Timer, Bit_Timer]) raw_demo of
    (count, dest', s') \<Rightarrow> count = 2 \<and> dest' = [900, 400])"
proof -
  have s: "ir_sync raw_demo = 0" "ir_tmo raw_demo = None" "ir_prev_ts raw_demo = 0"
    by (simp_all add: raw_demo_def raw_new_def ir_receiver.defs raw_receiver.defs ir_new_def)
  have r: "rtranclp (ir_step (\<lambda>_. 1) raw_vtable) (raw_new 5 4 (\<lambda>_. 0)) raw_demo"
    by (simp add: raw_demo_def)
  show ?thesis
    using raw_times_read [where ps = "[900, 400, 300]" and edge_tmo = 10 and dest = "[0, 0]"
        and n_times = 2, OF r s(1,2) _ _ _ _ _ refl]
    by (auto simp: s(3) split: prod.splits)
qed

text \<open>The raw receiver completes a message that fills its buffer.  From any reachable idle
  state, a waveform with exactly as many pulses as the buffer has cells is copied to the
  application's array (as much of it as fits), the count is stored through \<open>countptr_\<close>, the
  receive callback is called once with address and function 0, and the object is idle again.\<close>

theorem raw_buffer_filled:
  assumes "rtranclp (ir_step pool raw_vtable) (raw_new gpio edges mem) s"
    and "ir_sync s = 0" and "ir_rcb s" and "length ps = edges" and "1 < edges"
    and "u = feed pool raw_vtable (raw_set_times dest n_times count s) (edge_train (ir_prev_ts s) True ps)"
  shows "ir_sync u = 0 \<and> raw_count u = min edges n_times \<and>
         raw_times u = take (raw_count u) ps @ drop (raw_count u) dest \<and>
         raw_countptr u = map_option (\<lambda>_. raw_count u) count \<and>
         received (ir_calls u) = received (ir_calls s) @ [(train_end (ir_prev_ts s) ps, 0, 0)]"
proof -
  let ?s = "raw_set_times dest n_times count s"
  let ?finish = "train_end (ir_prev_ts s) ps"
  note idle = raw_reachable_idle [OF assms(1,2)]
  obtain qs l where ps: "ps = qs @ [l]" "qs \<noteq> []"
    using assms(4,5) by (cases ps rule: rev_cases) auto
  define t where "t = feed pool raw_vtable ?s (edge_train (ir_prev_ts ?s) True qs)"
  have s: "ir_sync ?s = 0" "ir_n_pulse ?s = 0" "length (ir_pulses ?s) = ir_mx_pulse ?s"
    "length qs < ir_mx_pulse ?s" "ir_prev_ts ?s = ir_prev_ts s"
    using idle assms(2,4) ps by (simp_all add: raw_set_times_def)
  note t = raw_capture [OF s(1-3) ps(2) s(4) t_def]
  have mx: "Suc (ir_n_pulse t) = ir_mx_pulse t" "length (ir_pulses t) = edges"
    "ir_prev_ts t + ucast l = ?finish"
    using t(2,4-6) idle assms(4) ps(1) s(5) by (simp_all add: raw_set_times_def train_end_append)
  let ?f = "put_pulse l (t\<lparr>ir_sync := 1\<rparr>)"
  have "u = store_timestamp pool raw_vtable (ir_prev_ts t + ucast l) (even (length qs)) t"
    using assms(6) t(6) s(5) ps(1)
    by (simp add: edge_train_append feed_append t_def [unfolded s(5), symmetric])
  then have u: "u = (raw_message_complete ?finish ?f)\<lparr>ir_prev_ts := ?finish\<rparr>"
    using t(1) mx(1,2) unfolding mx(3) [symmetric]
    by (simp add: store_timestamp_def raw_check_sync_def store_pulse_def put_pulse_def)
  have full: "ir_pulses ?f = ps" "ir_n_pulse ?f = length ps"
    using t(2,3) mx(2) assms(4) ps(1)
    by (simp_all add: put_pulse_def upd_conv_take_nth_drop)
  have more: "raw_n_times ?f = n_times" "raw_times ?f = dest" "raw_countptr ?f = count"
    using t(7) by (cases t; cases s; simp add: put_pulse_def raw_set_times_def)+
  have idle': "idle_after ?f (raw_message_complete ?finish ?f)" using raw.complete_idle by simp
  have st: "(raw_count (raw_store_pulses ?f), raw_times (raw_store_pulses ?f)) = raw_stored n_times dest ps"
    using raw_store_pulses_stored [of ps ?f] full more by simp
  have cp: "raw_countptr u = map_option (\<lambda>_. raw_count u) count"
    using more(3) by (auto simp: u raw_message_complete_def ir_message_complete_def ir_defs
        raw_store_pulses_def Let_def split: prod.splits)
  have rc: "received (ir_calls u) = received (ir_calls s) @ [(?finish, 0, 0)]"
    using t(8,9) assms(3)
    by (simp add: u raw_message_complete_def received_complete raw_decode_message_def
        raw_store_pulses_def Let_def put_pulse_def raw_set_times_def)
  show ?thesis
    using idle' st cp rc assms(4)
    by (simp add: u idle_after_def raw_message_complete_def raw_keeps_dest raw_stored_def Let_def)
qed

lemma raw_buffer_filled_witness:
  "(let s = raw_demo\<lparr>ir_rcb := True\<rparr>;
        u = feed (\<lambda>_. 1) raw_vtable (raw_set_times [0, 0, 0] 3 (Some 9) s)
              (edge_train 0 True [900, 400, 300, 200])
    in raw_times u = [900, 400, 300] \<and> raw_countptr u = Some 3 \<and> raw_count u = 3)"
proof -
  let ?s = "raw_demo\<lparr>ir_rcb := True, ir_rpt := False, ir_tmo := None, ir_err := False\<rparr>"
  have eq: "?s = raw_demo\<lparr>ir_rcb := True\<rparr>"
    by (simp add: raw_demo_def raw_new_def ir_receiver.defs raw_receiver.defs ir_new_def)
  have r: "rtranclp (ir_step (\<lambda>_. 1) raw_vtable) (raw_new 5 4 (\<lambda>_. 0)) ?s"
    unfolding raw_demo_def by (rule r_into_rtranclp) (rule ir_step.set_callbacks)
  have s: "ir_sync ?s = 0" "ir_rcb ?s" "ir_prev_ts ?s = 0"
    by (simp_all add: raw_demo_def raw_new_def ir_receiver.defs raw_receiver.defs ir_new_def)
  show ?thesis
    using raw_buffer_filled [where ps = "[900, 400, 300, 200]" and dest = "[0, 0, 0]"
        and n_times = 3 and count = "Some 9", OF r s(1,2) _ _ refl]
    unfolding eq by (simp add: s(3) [unfolded eq] Let_def)
qed

end
