(* ===== verification/Registry.thy ===== *)
theory Registry
  imports Prelude
begin

text \<open>
  The static arrays of live objects that \<open>IR_Receiver\<close> (\<open>ir/ir_receiver.cpp\<close>) and \<open>Button\<close>
  (\<open>util/button.cpp\<close>) keep for their interrupt dispatchers: the constructors append, the
  destructors remove and close the gap.  Both classes have the same code; an object is any
  value that can be compared.
\<close>

record 'a registry =
  reg_slots :: "'a list"
  reg_n :: nat

definition reg_new :: "nat \<Rightarrow> (nat \<Rightarrow> 'a) \<Rightarrow> 'a registry" where
  "reg_new mx mem = \<lparr>reg_slots = map mem [0..<mx], reg_n = 0\<rparr>"

definition reg_add :: "nat \<Rightarrow> 'a \<Rightarrow> 'a registry \<Rightarrow> 'a registry" where
  "reg_add mx x r =
     (if reg_n r < mx
      then r\<lparr>reg_slots := (reg_slots r)[reg_n r := x], reg_n := reg_n r + 1\<rparr> else r)"

text \<open>The loop of the destructor, over the indices that are left.\<close>

fun reg_compact :: "'a \<Rightarrow> nat list \<Rightarrow> nat \<Rightarrow> 'a list \<Rightarrow> 'a list" where
  "reg_compact x [] jj slots = slots"
| "reg_compact x (ii # iis) jj slots =
     (let jj1 = if slots ! ii = x then jj + 1 else jj;
          slots1 = if jj1 \<noteq> ii then slots[ii := slots ! jj1] else slots
      in reg_compact x iis jj1 slots1)"

definition reg_remove :: "'a \<Rightarrow> 'a registry \<Rightarrow> 'a registry" where
  "reg_remove x r =
     (let n = reg_n r - 1 in r\<lparr>reg_n := n, reg_slots := reg_compact x [0..<n] 0 (reg_slots r)\<rparr>)"

text \<open>The objects the interrupt dispatcher visits.\<close>

definition reg_live :: "'a registry \<Rightarrow> 'a list" where
  "reg_live r = take (reg_n r) (reg_slots r)"

lemma reg_add_live:
  assumes "reg_n r < mx" "length (reg_slots r) = mx"
  shows "reg_live (reg_add mx x r) = reg_live r @ [x]"
  using assms by (simp add: reg_add_def reg_live_def take_Suc_conv_app_nth)

text \<open>A stretch without \<open>x\<close> is overwritten with what the copy index points at.\<close>

lemma reg_compact_fill:
  assumes "a + k \<le> length slots" "jj < a" "\<forall>i. a \<le> i \<and> i < a + k \<longrightarrow> slots ! i \<noteq> x"
  shows "reg_compact x [a..<a + k] jj slots = write_at slots a (replicate k (slots ! jj))"
  using assms
proof (induction k arbitrary: a slots)
  case 0
  then show ?case by simp
next
  case (Suc k)
  let ?s = "slots[a := slots ! jj]"
  have "reg_compact x [a..<a + Suc k] jj slots = reg_compact x [Suc a..<Suc a + k] jj ?s"
    using Suc.prems by (simp add: upt_conv_Cons Let_def del: upt_Suc)
  also have "\<dots> = write_at ?s (Suc a) (replicate k (?s ! jj))"
    by (rule Suc.IH) (use Suc.prems in \<open>auto simp: nth_list_update\<close>)
  also have "\<dots> = write_at slots a (replicate (Suc k) (slots ! jj))"
    using Suc.prems by (simp add: write_at_Cons)
  finally show ?case .
qed

text \<open>Removing one of at most two registered objects is right: the array then holds exactly
  the other object, if there is one, in its place.\<close>

theorem reg_remove_two:
  assumes "reg_n r \<le> 2" and "reg_n r \<le> length (reg_slots r)" and "distinct (reg_live r)"
    and "x \<in> set (reg_live r)"
  shows "reg_live (reg_remove x r) = remove1 x (reg_live r)"
proof -
  have "reg_n r \<noteq> 0" using assms(4) by (cases "reg_n r") (auto simp: reg_live_def)
  with assms(1) consider "reg_n r = 1" | "reg_n r = 2" by linarith
  then show ?thesis
  proof cases
    case 1
    with assms(2-4) show ?thesis
      by (cases "reg_slots r") (auto simp: reg_live_def reg_remove_def Let_def)
  next
    case 2
    with assms(2) obtain a b c where "reg_slots r = a # b # c"
      by (cases "reg_slots r"; cases "tl (reg_slots r)") auto
    with 2 assms(3,4) show ?thesis
      by (auto simp: reg_live_def reg_remove_def Let_def numeral_2_eq_2)
  qed
qed

lemma reg_remove_two_witness:
  "reg_live (reg_remove 4 (reg_add 4 7 (reg_add 4 (4 :: nat) (reg_new 4 (\<lambda>_. 0))))) = [7]"
  by (subst reg_remove_two) (simp_all add: reg_add_def reg_new_def reg_live_def upt_rec)

text \<open>With three or more registered objects, destroying the second one leaves it registered:
  the interrupt dispatcher goes on to call the destroyed object, and every object after it has
  been dropped from the array.\<close>

theorem reg_remove_dangles:
  assumes "3 \<le> reg_n r" and "reg_n r \<le> length (reg_slots r)" and "distinct (reg_live r)"
    and "x = reg_slots r ! 1"
  shows "reg_live (reg_remove x r) = reg_slots r ! 0 # replicate (reg_n r - 2) x"
proof -
  obtain n where n: "reg_n r = n + 3" using assms(1) by (metis add.commute le_Suc_ex)
  let ?s = "reg_slots r"
  have d: "?s ! i \<noteq> x" if "i < n + 3" "i \<noteq> 1" for i
  proof -
    have "take (n + 3) ?s ! i \<noteq> take (n + 3) ?s ! 1"
      using assms(2,3) that n by (simp add: reg_live_def nth_eq_iff_index_eq del: nth_take)
    with that assms(4) show ?thesis by simp
  qed
  have "[0..<n + 2] = 0 # 1 # [2..<2 + n]" by (simp add: upt_conv_Cons numeral_2_eq_2 add.commute)
  then have "reg_compact x [0..<n + 2] 0 ?s = reg_compact x [2..<2 + n] 1 ?s"
    using assms(4) d [of 0] by (simp add: Let_def)
  also have "\<dots> = write_at ?s 2 (replicate n (?s ! 1))"
    by (rule reg_compact_fill) (use assms(2) n d in auto)
  finally have c: "reg_compact x [0..<n + 2] 0 ?s = write_at ?s 2 (replicate n x)"
    using assms(4) by simp
  have "take 2 ?s = [?s ! 0, x]" using assms(2,4) n by (cases ?s; cases "tl ?s") auto
  then have "take (n + 2) (write_at ?s 2 (replicate n x)) = [?s ! 0, x] @ replicate n x"
    using take_write_at [of 2 ?s "replicate n x"] assms(2) n by (simp add: add.commute)
  then show ?thesis
    using c n by (simp add: reg_live_def reg_remove_def Let_def replicate_append_same)
qed

definition reg_demo :: "nat registry" where
  "reg_demo = fold (reg_add 8) [4, 5, 6, 7] (reg_new 8 (\<lambda>_. 0))"

lemma reg_demo_simps: "reg_n reg_demo = 4" "reg_slots reg_demo = [4, 5, 6, 7, 0, 0, 0, 0]"
  by code_simp+

lemma reg_remove_dangles_witness: "reg_live (reg_remove 5 reg_demo) = [4, 5, 5]"
proof -
  have d: "3 \<le> reg_n reg_demo" "reg_n reg_demo \<le> length (reg_slots reg_demo)"
    "distinct (reg_live reg_demo)" "5 = reg_slots reg_demo ! 1"
    by code_simp+
  have e: "reg_slots reg_demo ! 0 # replicate (reg_n reg_demo - 2) 5 = [4, 5, 5]" by code_simp
  show ?thesis unfolding e [symmetric] by (rule reg_remove_dangles [OF d])
qed

end
