(* ===== verification/Button.thy ===== *)
theory Button
  imports Prelude
begin

text \<open>
  The push button (\<open>util/button.h\<close>, \<open>util/button.cpp\<close>): a debounce timer, a hold timer and a
  click timer turn the edges of a pin into actions.  An object is the record \<open>button\<close>; the
  queue of events that \<open>getNextEvent\<close> reads is part of it, the events given to a callback are
  \<open>bt_given\<close>, and the requests to the SDK's alarm functions are \<open>bt_calls\<close>.  \<open>pool\<close> is the
  identifier the SDK answers \<open>add_alarm_in_ms\<close> with and \<open>now\<close> is \<open>time_us_64()\<close>.
\<close>

section \<open>Definitions\<close>

datatype button_action =
    No_Action | Button_Down | Button_Up | Button_Clicked | Button_DoubleClicked | Button_Held

record button_event =
  ev_time :: u64
  ev_id :: u32
  ev_action :: button_action

datatype button_call =
    Bt_Add int u32
  | Bt_Cancel int
  | Bt_Over int

record button =
  bt_id :: u32
  bt_gpio :: u32
  bt_bounce :: int
  bt_click :: int
  bt_hold :: int
  bt_bounce_time :: u32
  bt_click_time :: u32
  bt_hold_time :: u32
  bt_prev_state :: bool
  bt_cb :: bool
  bt_queue :: "button_event list"
  bt_given :: "button_event list"
  bt_calls :: "button_call list"

type_synonym bt_pool = "button_call list \<Rightarrow> int"

text \<open>\<open>down\<close> is what the pin reads after the pull-up has settled.\<close>

definition button_new :: "u32 \<Rightarrow> u32 \<Rightarrow> u32 \<Rightarrow> u32 \<Rightarrow> u32 \<Rightarrow> bool \<Rightarrow> button" where
  "button_new bid gpio hold_time click_time bounce_time down =
     \<lparr> bt_id = bid, bt_gpio = gpio, bt_bounce = -1, bt_click = -1, bt_hold = -1,
       bt_bounce_time = bounce_time, bt_click_time = click_time, bt_hold_time = hold_time,
       bt_prev_state = down, bt_cb = False, bt_queue = [], bt_given = [], bt_calls = [] \<rparr>"

definition bt_emit :: "button_call \<Rightarrow> button \<Rightarrow> button" where
  "bt_emit c s = s\<lparr>bt_calls := bt_calls s @ [c]\<rparr>"

text \<open>\<open>queue_try_add\<close> drops the event when the queue of 64 is full.\<close>

definition notify :: "u64 \<Rightarrow> button_action \<Rightarrow> button \<Rightarrow> button" where
  "notify now action s =
     (let ev = \<lparr>ev_time = now, ev_id = bt_id s, ev_action = action\<rparr>
      in if bt_cb s then s\<lparr>bt_given := bt_given s @ [ev]\<rparr>
         else if length (bt_queue s) < 64 then s\<lparr>bt_queue := bt_queue s @ [ev]\<rparr> else s)"

definition get_next_event :: "u64 \<Rightarrow> button \<Rightarrow> bool \<times> button_event \<times> button" where
  "get_next_event now s =
     (case bt_queue s of
        ev # evs \<Rightarrow> (True, ev, s\<lparr>bt_queue := evs\<rparr>)
      | [] \<Rightarrow> (False, \<lparr>ev_time = now, ev_id = 0, ev_action = No_Action\<rparr>, s))"

definition stop_hold_timer :: "button \<Rightarrow> button" where
  "stop_hold_timer s =
     (if bt_hold s \<noteq> -1 then (bt_emit (Bt_Cancel (bt_hold s)) s)\<lparr>bt_hold := -1\<rparr> else s)"

definition start_hold_timer :: "bt_pool \<Rightarrow> button \<Rightarrow> button" where
  "start_hold_timer pool s =
     (let s1 = stop_hold_timer s; timer = pool (bt_calls s1)
      in (bt_emit (Bt_Add timer (bt_hold_time s1)) s1)\<lparr>bt_hold := timer\<rparr>)"

definition stop_click_timer :: "button \<Rightarrow> button" where
  "stop_click_timer s =
     (if bt_click s \<noteq> -1 then (bt_emit (Bt_Cancel (bt_click s)) s)\<lparr>bt_click := -1\<rparr> else s)"

definition start_click_timer :: "bt_pool \<Rightarrow> button \<Rightarrow> button" where
  "start_click_timer pool s =
     (let s1 = stop_click_timer s; timer = pool (bt_calls s1)
      in (bt_emit (Bt_Add timer (bt_click_time s1)) s1)\<lparr>bt_click := timer\<rparr>)"

definition button_down :: "bt_pool \<Rightarrow> u64 \<Rightarrow> button \<Rightarrow> button" where
  "button_down pool now s = start_hold_timer pool (notify now Button_Down s)"

definition button_up :: "bt_pool \<Rightarrow> u64 \<Rightarrow> button \<Rightarrow> button" where
  "button_up pool now s =
     (let s1 = notify now Button_Up s;
          s2 = if bt_hold s1 \<noteq> -1
               then if bt_click s1 = -1 then start_click_timer pool s1
                    else notify now Button_DoubleClicked (stop_click_timer s1)
               else s1
      in stop_hold_timer s2)"

definition button_clicked :: "u64 \<Rightarrow> button \<Rightarrow> button" where
  "button_clicked now s = stop_click_timer (notify now Button_Clicked s)"

definition button_held :: "u64 \<Rightarrow> button \<Rightarrow> button" where
  "button_held now s = stop_hold_timer (stop_click_timer (notify now Button_Held s))"

definition do_event :: "bt_pool \<Rightarrow> button \<Rightarrow> button" where
  "do_event pool s =
     (if bt_bounce s = -1
      then let timer = pool (bt_calls s)
           in (bt_emit (Bt_Add timer (bt_bounce_time s)) s)\<lparr>bt_bounce := timer\<rparr>
      else s)"

definition button_gpio_cb :: "bt_pool \<Rightarrow> u32 \<Rightarrow> button list \<Rightarrow> button list" where
  "button_gpio_cb pool gpio bs = map (\<lambda>b. if bt_gpio b = gpio then do_event pool b else b) bs"

text \<open>The alarm callbacks; they return 0, which ends the alarm.  \<open>state\<close> is \<open>isDown()\<close>.\<close>

definition bounce_cb :: "bt_pool \<Rightarrow> u64 \<Rightarrow> bool \<Rightarrow> int \<Rightarrow> button \<Rightarrow> button" where
  "bounce_cb pool now state aid s =
     (let s1 = if state \<noteq> bt_prev_state s
               then let s2 = s\<lparr>bt_prev_state := state\<rparr>
                    in if state then button_down pool now s2 else button_up pool now s2
               else s
      in bt_emit (Bt_Over aid) (s1\<lparr>bt_bounce := -1\<rparr>))"

definition hold_cb :: "u64 \<Rightarrow> int \<Rightarrow> button \<Rightarrow> button" where
  "hold_cb now aid s = bt_emit (Bt_Over aid) (button_held now (s\<lparr>bt_hold := -1\<rparr>))"

definition click_cb :: "u64 \<Rightarrow> int \<Rightarrow> button \<Rightarrow> button" where
  "click_cb now aid s = bt_emit (Bt_Over aid) (button_clicked now (s\<lparr>bt_click := -1\<rparr>))"

text \<open>The destructor touches no timer.\<close>

definition button_destroy :: "button \<Rightarrow> button" where
  "button_destroy s = s"

lemmas button_defs =
  notify_def bt_emit_def stop_hold_timer_def start_hold_timer_def stop_click_timer_def
  start_click_timer_def button_down_def button_up_def button_clicked_def button_held_def
  do_event_def bounce_cb_def hold_cb_def click_cb_def Let_def

section \<open>Interleavings\<close>

text \<open>An interrupt of the pin or of one of the timers that is running.\<close>

datatype button_input = Pin_Edge | Bounce_Over bool | Hold_Over | Click_Over

fun button_step :: "bt_pool \<Rightarrow> u64 \<Rightarrow> button_input \<Rightarrow> button \<Rightarrow> button" where
  "button_step pool now Pin_Edge s = do_event pool s"
| "button_step pool now (Bounce_Over down) s =
     (if bt_bounce s = -1 then s else bounce_cb pool now down (bt_bounce s) s)"
| "button_step pool now Hold_Over s = (if bt_hold s = -1 then s else hold_cb now (bt_hold s) s)"
| "button_step pool now Click_Over s = (if bt_click s = -1 then s else click_cb now (bt_click s) s)"

fun button_run :: "bt_pool \<Rightarrow> (u64 \<times> button_input) list \<Rightarrow> button \<Rightarrow> button" where
  "button_run pool [] s = s"
| "button_run pool ((now, i) # is) s = button_run pool is (button_step pool now i s)"

section \<open>What the sequence of actions means\<close>




definition bt_actions :: "button \<Rightarrow> button_action list" where
  "bt_actions s = map ev_action (bt_given s)"





section \<open>Timers\<close>

fun bt_live_step :: "button_call \<Rightarrow> int set \<Rightarrow> int set" where
  "bt_live_step (Bt_Add i ms) A = (if 0 < i then insert i A else A)"
| "bt_live_step (Bt_Cancel i) A = A - {i}"
| "bt_live_step (Bt_Over i) A = A - {i}"

definition bt_live :: "button_call list \<Rightarrow> int set" where
  "bt_live cs = fold bt_live_step cs {}"

lemma bt_live_append [simp]: "bt_live (cs @ ds) = fold bt_live_step ds (bt_live cs)"
  by (simp add: bt_live_def)

definition bt_timers_ok :: "button \<Rightarrow> bool" where
  "bt_timers_ok s \<longleftrightarrow> bt_live (bt_calls s) \<subseteq> {bt_bounce s, bt_hold s, bt_click s} - {-1}"

lemma bt_timers_ok_step:
  assumes "bt_timers_ok s"
  shows "bt_timers_ok (button_step pool now i s)"
proof (cases i)
  case Pin_Edge
  with assms show ?thesis by (auto simp: bt_timers_ok_def button_defs)
next
  case (Bounce_Over down)
  with assms show ?thesis
    by (cases "bt_hold s = -1"; cases "bt_click s = -1"; cases "bt_prev_state s"; cases down)
      (auto simp: bt_timers_ok_def button_defs)
next
  case Hold_Over
  with assms show ?thesis
    by (cases "bt_click s = -1") (auto simp: bt_timers_ok_def button_defs)
next
  case Click_Over
  with assms show ?thesis by (auto simp: bt_timers_ok_def button_defs)
qed

lemma bt_timers_ok_run: "bt_timers_ok s \<Longrightarrow> bt_timers_ok (button_run pool is s)"
proof (induction "is" arbitrary: s)
  case Nil
  then show ?case by simp
next
  case (Cons x "is")
  obtain now i where x: "x = (now, i)" by (cases x)
  show ?case using Cons.IH [OF bt_timers_ok_step [OF Cons.prems]] by (simp add: x)
qed

section \<open>Properties\<close>


definition button_demo :: button where
  "button_demo = (button_new 3 15 3000 250 7 False)\<lparr>bt_cb := True\<rparr>"



text \<open>The three gestures.  From an idle released button, a press and release followed by
  the click time report down, up, clicked; two presses and releases inside the click time
  report down, up, down, up, double-clicked; a press that outlasts the hold time reports down,
  held, and only up when it is released.  Contact bounce between the edge and the debounce
  time adds nothing.\<close>

theorem button_gesture_reports:
  assumes "\<forall>cs. 0 < pool cs" and "bt_cb s" and "\<not> bt_prev_state s"
    and "bt_bounce s = -1" and "bt_hold s = -1" and "bt_click s = -1"
  shows "bt_actions (button_run pool
           [(t1, Pin_Edge), (t2, Pin_Edge), (t3, Bounce_Over True), (t4, Pin_Edge),
            (t5, Bounce_Over False), (t6, Click_Over)] s) =
         bt_actions s @ [Button_Down, Button_Up, Button_Clicked] \<and>
         bt_actions (button_run pool
           [(t1, Pin_Edge), (t2, Bounce_Over True), (t3, Pin_Edge), (t4, Bounce_Over False),
            (t5, Pin_Edge), (t6, Bounce_Over True), (t7, Pin_Edge), (t8, Bounce_Over False)] s) =
         bt_actions s @ [Button_Down, Button_Up, Button_Down, Button_Up, Button_DoubleClicked] \<and>
         bt_actions (button_run pool
           [(t1, Pin_Edge), (t2, Bounce_Over True), (t3, Hold_Over), (t4, Pin_Edge),
            (t5, Bounce_Over False)] s) =
         bt_actions s @ [Button_Down, Button_Held, Button_Up]"
proof -
  have pool: "pool cs \<noteq> -1" for cs using assms(1) [rule_format, of cs] by simp
  then show ?thesis
    using assms(2-) by (simp add: bt_actions_def button_defs)
qed

lemma button_gesture_reports_witness:
  "bt_actions (button_run (\<lambda>_. 1)
     [(1, Pin_Edge), (2, Pin_Edge), (8, Bounce_Over True), (90, Pin_Edge),
      (97, Bounce_Over False), (347, Click_Over)] button_demo) = [Button_Down, Button_Up, Button_Clicked]"
proof -
  have d: "bt_cb button_demo" "\<not> bt_prev_state button_demo" "bt_bounce button_demo = -1"
    "bt_hold button_demo = -1" "bt_click button_demo = -1" "bt_actions button_demo = []"
    by (simp_all add: button_demo_def button_new_def bt_actions_def)
  show ?thesis
    using button_gesture_reports [of "\<lambda>_. 1", OF _ d(1-5), of 1 2 8 90 97 347] d(6) by simp
qed

text \<open>A destroyed button can still be called.  The three timer members cover every pending
  alarm in every reachable state, but the destructor cancels none of them: whatever was pending
  stays pending, for instance the debounce alarm of an edge that has just been seen.\<close>

theorem button_destroy_pending:
  assumes "s = button_run pool inputs (button_new bid gpio ht ct bt down)"
    and "bt_bounce s = -1" and "0 < pool (bt_calls s)"
  shows "bt_live (bt_calls s) \<subseteq> {bt_hold s, bt_click s} - {-1} \<and>
         pool (bt_calls s) \<in> bt_live (bt_calls (button_destroy (do_event pool s)))"
proof -
  have "bt_timers_ok (button_new bid gpio ht ct bt down)"
    by (simp add: bt_timers_ok_def button_new_def bt_live_def)
  from bt_timers_ok_run [OF this, of pool inputs] assms show ?thesis
    by (auto simp: bt_timers_ok_def button_destroy_def do_event_def bt_emit_def Let_def)
qed

lemma button_destroy_pending_witness:
  "9 \<in> bt_live (bt_calls (button_destroy (do_event (\<lambda>_. 9) (button_new 3 15 3000 250 7 False))))"
  using button_destroy_pending [of _ "\<lambda>_. 9" "[]" 3 15 3000 250 7 False, OF refl]
  by (simp add: button_new_def)

end
