(* ===== verification/Cpp_String.thy ===== *)
theory Cpp_String
  imports Prelude "HOL-Library.Sublist"
begin

text \<open>
  The operations of \<open>std::string\<close> and of the C string library that the network and utility
  classes use.  A \<open>std::string\<close> is a list of characters; a position that may be \<open>npos\<close> is an
  option.  \<open>char\<close> is unsigned on the target, so a character is a byte.
\<close>

section \<open>Searching\<close>

fun find_at :: "'a list \<Rightarrow> 'a list \<Rightarrow> nat option" where
  "find_at pat [] = (if pat = [] then Some 0 else None)"
| "find_at pat (c # cs) = (if prefix pat (c # cs) then Some 0 else map_option Suc (find_at pat cs))"

text \<open>\<open>s.find(pat, from)\<close>\<close>

definition str_find :: "'a list \<Rightarrow> 'a list \<Rightarrow> nat \<Rightarrow> nat option" where
  "str_find s pat from =
     (if from \<le> length s then map_option ((+) from) (find_at pat (drop from s)) else None)"

fun index_of :: "('a \<Rightarrow> bool) \<Rightarrow> 'a list \<Rightarrow> nat option" where
  "index_of P [] = None"
| "index_of P (c # cs) = (if P c then Some 0 else map_option Suc (index_of P cs))"

text \<open>
  \<open>find\<close> of a character, \<open>find_first_of\<close> and \<open>find_first_not_of\<close> search for the first
  element from a position on that satisfies a predicate.
\<close>

definition find_if :: "('a \<Rightarrow> bool) \<Rightarrow> 'a list \<Rightarrow> nat \<Rightarrow> nat option" where
  "find_if P s from = map_option ((+) from) (index_of P (drop from s))"

definition find_char :: "'a \<Rightarrow> 'a list \<Rightarrow> nat \<Rightarrow> nat option" where
  "find_char c s from = find_if (\<lambda>d. d = c) s from"

definition find_first_of :: "'a list \<Rightarrow> 'a list \<Rightarrow> nat \<Rightarrow> nat option" where
  "find_first_of seps s from = find_if (\<lambda>d. d \<in> set seps) s from"

definition find_first_not_of :: "'a list \<Rightarrow> 'a list \<Rightarrow> nat \<Rightarrow> nat option" where
  "find_first_not_of seps s from = find_if (\<lambda>d. d \<notin> set seps) s from"

definition find_last :: "('a \<Rightarrow> bool) \<Rightarrow> 'a list \<Rightarrow> nat option" where
  "find_last P s = map_option (\<lambda>i. length s - 1 - i) (index_of P (rev s))"

text \<open>
  \<open>s.substr(pos, n)\<close>; a length of \<open>npos\<close> means the rest.  A position beyond the end throws
  \<open>out_of_range\<close>, the result \<open>None\<close> of \<open>substr_at\<close>.
\<close>

definition substr :: "'a list \<Rightarrow> nat \<Rightarrow> nat \<Rightarrow> 'a list" where
  "substr s pos n = take n (drop pos s)"

definition substr_to :: "'a list \<Rightarrow> nat \<Rightarrow> nat option \<Rightarrow> 'a list" where
  "substr_to s pos stop = (case stop of None \<Rightarrow> drop pos s | Some i \<Rightarrow> take (i - pos) (drop pos s))"

section \<open>C strings\<close>

definition NUL :: char where "NUL = CHR 0x00"
definition CR :: char where "CR = CHR 0x0D"
definition LF :: char where "LF = CHR 0x0A"

text \<open>The string that starts at the beginning of a piece of memory.\<close>

definition c_str :: "char list \<Rightarrow> string" where
  "c_str mem = takeWhile (\<lambda>c. c \<noteq> NUL) mem"

text \<open>\<open>strncpy(dst, src, n)\<close> pads with NUL.\<close>

definition strncpy :: "string \<Rightarrow> nat \<Rightarrow> string" where
  "strncpy src n = take n (c_str src) @ replicate (n - length (c_str src)) NUL"

definition to_lower :: "char \<Rightarrow> char" where
  "to_lower c = (let n = of_char c :: nat in if 65 \<le> n \<and> n \<le> 90 then char_of (n + 32) else c)"

definition strcasecmp_eq :: "string \<Rightarrow> string \<Rightarrow> bool" where
  "strcasecmp_eq a b \<longleftrightarrow> map to_lower (c_str a) = map to_lower (c_str b)"

text \<open>\<open>std::to_string\<close> and \<open>%d\<close> of a natural number.\<close>

fun decimal :: "nat \<Rightarrow> string" where
  "decimal n = (if n < 10 then [char_of (48 + n)] else decimal (n div 10) @ [char_of (48 + n mod 10)])"

declare decimal.simps [simp del]

definition digit :: "char \<Rightarrow> bool" where
  "digit c \<longleftrightarrow> (let n = of_char c :: nat in 48 \<le> n \<and> n \<le> 57)"

definition digit_value :: "char \<Rightarrow> nat" where
  "digit_value c = of_char c - 48"

text \<open>The digits \<open>stoul\<close> reads.\<close>

definition read_digits :: "string \<Rightarrow> nat" where
  "read_digits s = fold (\<lambda>c n. n * 10 + digit_value c) (takeWhile digit s) 0"

section \<open>Facts\<close>

lemma find_at_bound: "find_at pat s = Some i \<Longrightarrow> i + length pat \<le> length s"
  by (induction s arbitrary: i) (auto split: if_splits dest: prefix_length_le)

lemma find_at_prefix: "find_at pat s = Some i \<Longrightarrow> prefix pat (drop i s)"
  by (induction s arbitrary: i) (auto split: if_splits)

lemma find_at_None: "find_at pat s = None \<longleftrightarrow> \<not> sublist pat s"
  by (induction s) (auto simp: sublist_Cons_right)

lemma find_at_first: "find_at pat s = Some i \<Longrightarrow> j < i \<Longrightarrow> \<not> prefix pat (drop j s)"
proof (induction s arbitrary: i j)
  case Nil
  then show ?case by (simp split: if_splits)
next
  case (Cons c cs)
  then show ?case by (cases j) (auto split: if_splits)
qed

text \<open>The first occurrence of a separator after a part that does not overlap it.\<close>

lemma find_atI:
  assumes "\<And>j. j < length a \<Longrightarrow> \<not> prefix pat (drop j a @ pat @ b)"
  shows "find_at pat (a @ pat @ b) = Some (length a)"
  using assms
proof (induction a)
  case Nil
  have "prefix pat (pat @ b)" by simp
  then show ?case by (cases "pat @ b") (auto simp del: prefix_append)
next
  case (Cons c cs)
  have "\<not> prefix pat (drop j cs @ pat @ b)" if "j < length cs" for j
    using Cons.prems [of "Suc j"] that by simp
  with Cons.IH Cons.prems [of 0] show ?case by simp
qed

lemma index_of_Some: "index_of P s = Some i \<Longrightarrow> i < length s \<and> P (s ! i) \<and> (\<forall>j < i. \<not> P (s ! j))"
  by (induction s arbitrary: i) (auto simp: less_Suc_eq_0_disj split: if_splits)

lemma index_of_None: "index_of P s = None \<longleftrightarrow> (\<forall>c \<in> set s. \<not> P c)"
  by (induction s) auto

lemma index_of_skip: "\<forall>c \<in> set a. \<not> P c \<Longrightarrow> index_of P (a @ b) = map_option ((+) (length a)) (index_of P b)"
  by (induction a; cases "index_of P b") auto

lemma str_find_bound: "str_find s pat i = Some j \<Longrightarrow> i \<le> j \<and> j + length pat \<le> length s"
  by (auto simp: str_find_def split: if_splits dest: find_at_bound)

lemma find_if_bound: "find_if P s i = Some j \<Longrightarrow> i \<le> j \<and> j < length s \<and> P (s ! j)"
  unfolding find_if_def by (auto dest!: index_of_Some)

lemma c_str_id [simp]: "NUL \<notin> set s \<Longrightarrow> c_str s = s"
  by (induction s) (auto simp: c_str_def)

lemma c_str_append_NUL: "NUL \<notin> set s \<Longrightarrow> c_str (s @ NUL # r) = s"
  by (induction s) (auto simp: c_str_def)

lemma strncpy_all: "NUL \<notin> set s \<Longrightarrow> strncpy s (length s) = s"
  by (simp add: strncpy_def)

lemma length_strncpy [simp]: "length (strncpy s n) = n"
  by (simp add: strncpy_def min_def)

section \<open>Decimal numbers\<close>

lemma digit_char: "n < 10 \<Longrightarrow> digit (char_of (48 + n)) \<and> digit_value (char_of (48 + n)) = n"
  by (simp add: digit_def digit_value_def Let_def)

lemma decimal_digits: "c \<in> set (decimal n) \<Longrightarrow> digit c"
proof (induction n rule: decimal.induct)
  case (1 n)
  then show ?case
    using digit_char [of n] digit_char [of "n mod 10"]
    by (subst (asm) (2) decimal.simps) (auto split: if_splits)
qed

lemma decimal_nonempty: "decimal n \<noteq> []"
  by (subst decimal.simps) simp

lemma read_decimal: "read_digits (decimal n @ r) = n" if "r = [] \<or> \<not> digit (hd r)"
proof -
  have "takeWhile digit (decimal n @ r) = decimal n"
    using that decimal_digits by (cases r) (auto simp: takeWhile_append2 takeWhile_eq_all_conv)
  moreover have "fold (\<lambda>c n. n * 10 + digit_value c) (decimal n) 0 = n"
  proof (induction n rule: decimal.induct)
    case (1 n)
    show ?case
    proof (cases "n < 10")
      case True
      then show ?thesis using digit_char [of n] by (subst decimal.simps) simp
    next
      case False
      then show ?thesis using 1 digit_char [of "n mod 10"] by (subst decimal.simps) simp
    qed
  qed
  ultimately show ?thesis by (simp add: read_digits_def)
qed

end
