(* ===== verification/Txt.thy ===== *)
theory Txt
  imports Cpp_String
begin

text \<open>
  The text buffer \<open>TXT\<close> (\<open>util/txt.h\<close>, \<open>util/txt.cpp\<close>): a heap array with spare room and an
  end offset.  An object is the record \<open>text_obj\<close>; the array is a list of cells, \<open>None\<close> for a
  null pointer.  An operation that would read or write outside the array (or through a null
  pointer) has no result.  \<open>mem\<close> is the content of a freshly allocated array.  Sizes are far
  below $2^{32}$ on this machine (264 KB of memory) and are natural numbers.

  The contract of the class is the locale \<open>text_buffer\<close> at the end: every operation acts on
  the text between the start of the array and the end offset as the corresponding operation on
  a list of characters.
\<close>

section \<open>Definitions\<close>

record text_obj =
  tx_buffer :: "char list option"
  tx_bufsiz :: nat
  tx_endptr :: nat

definition txt_null :: text_obj where
  "txt_null = \<lparr>tx_buffer = None, tx_bufsiz = 0, tx_endptr = 0\<rparr>"

definition txt_sized :: "(nat \<Rightarrow> char) \<Rightarrow> nat \<Rightarrow> text_obj" where
  "txt_sized mem siz =
     \<lparr>tx_buffer = Some (if siz > 0 then (map mem [0..<siz])[0 := NUL] else []),
      tx_bufsiz = siz, tx_endptr = 0\<rparr>"

definition txt_of :: "(nat \<Rightarrow> char) \<Rightarrow> char list \<Rightarrow> nat \<Rightarrow> nat \<Rightarrow> text_obj" where
  "txt_of mem data datalen siz =
     (let siz1 = if siz \<le> datalen then (datalen + 256) div 256 * 256 else siz;
          buf = write_at (map mem [0..<siz1]) 0 (strncpy data datalen)
      in \<lparr>tx_buffer = Some (buf[datalen := NUL]), tx_bufsiz = siz1, tx_endptr = datalen\<rparr>)"

text \<open>The two copy loops: downwards with pre-decrement, upwards with post-increment.\<close>

fun copy_down :: "nat \<Rightarrow> nat \<Rightarrow> nat \<Rightarrow> 'a list \<Rightarrow> 'a list" where
  "copy_down src dst 0 buf = buf"
| "copy_down src dst (Suc n) buf = copy_down (src - 1) (dst - 1) n (buf[dst - 1 := buf ! (src - 1)])"

fun copy_up :: "nat \<Rightarrow> nat \<Rightarrow> nat \<Rightarrow> 'a list \<Rightarrow> 'a list" where
  "copy_up src dst 0 buf = buf"
| "copy_up src dst (Suc n) buf = copy_up (src + 1) (dst + 1) n (buf[dst := buf ! src])"

text \<open>The first half of \<open>expand\<close>: a larger array when the new end does not fit.\<close>

definition txt_grow :: "(nat \<Rightarrow> char) \<Rightarrow> nat \<Rightarrow> text_obj \<Rightarrow> text_obj option" where
  "txt_grow mem amount t =
     (if tx_endptr t + amount \<ge> tx_bufsiz t
      then let newsz = (tx_endptr t + amount + 2048) div 2048 * 2048
           in (case tx_buffer t of
                 None \<Rightarrow> None
               | Some buf \<Rightarrow>
                   if tx_endptr t + 1 \<le> length buf
                   then Some (t\<lparr>tx_buffer := Some (write_at (map mem [0..<newsz]) 0 (take (tx_endptr t + 1) buf)),
                                tx_bufsiz := newsz\<rparr>)
                   else None)
      else Some t)"

definition txt_expand :: "(nat \<Rightarrow> char) \<Rightarrow> nat \<Rightarrow> nat \<Rightarrow> text_obj \<Rightarrow> text_obj option" where
  "txt_expand mem offset amount t =
     (case txt_grow mem amount t of
        None \<Rightarrow> None
      | Some t1 \<Rightarrow>
          (case tx_buffer t1 of
             None \<Rightarrow> None
           | Some buf \<Rightarrow>
               if offset \<le> tx_endptr t1 \<and> tx_endptr t1 + amount < length buf
               then let e = tx_endptr t1 + amount;
                        buf1 = copy_down (tx_endptr t1) e (tx_endptr t1 - offset) buf
                    in Some (t1\<lparr>tx_buffer := Some (buf1[e := NUL]), tx_endptr := e\<rparr>)
               else None))"

definition txt_contract :: "nat \<Rightarrow> nat \<Rightarrow> text_obj \<Rightarrow> text_obj option" where
  "txt_contract offset amount t =
     (case tx_buffer t of
        None \<Rightarrow> None
      | Some buf \<Rightarrow>
          if offset + amount \<le> tx_endptr t \<and> tx_endptr t < length buf
          then let buf1 = copy_up (offset + amount) offset (tx_endptr t - offset - amount) buf;
                   e = tx_endptr t - amount
               in Some (t\<lparr>tx_buffer := Some (buf1[e := NUL]), tx_endptr := e\<rparr>)
          else None)"

text \<open>A copy into the array, and the terminator every operation writes at the end.\<close>

definition txt_put :: "nat \<Rightarrow> char list \<Rightarrow> text_obj \<Rightarrow> text_obj option" where
  "txt_put offset cs t =
     (case tx_buffer t of
        None \<Rightarrow> None
      | Some buf \<Rightarrow>
          if offset + length cs \<le> length buf
          then Some (t\<lparr>tx_buffer := Some (write_at buf offset cs)\<rparr>) else None)"

definition txt_end :: "text_obj \<Rightarrow> text_obj option" where
  "txt_end t = txt_put (tx_endptr t) [NUL] t"

text \<open>\<open>operator=\<close> and \<open>operator+=\<close>, for C strings and for \<open>std::string\<close>.\<close>

definition txt_assign :: "(nat \<Rightarrow> char) \<Rightarrow> string \<Rightarrow> text_obj \<Rightarrow> text_obj option" where
  "txt_assign mem str t =
     Option.bind (txt_expand mem 0 (length str) (t\<lparr>tx_endptr := 0\<rparr>)) (\<lambda>t1.
     Option.bind (txt_put 0 (strncpy str (length str)) t1) txt_end)"

definition txt_append :: "(nat \<Rightarrow> char) \<Rightarrow> string \<Rightarrow> text_obj \<Rightarrow> text_obj option" where
  "txt_append mem str t =
     (let e = tx_endptr t
      in Option.bind (txt_expand mem e (length str) t) (\<lambda>t1.
         Option.bind (txt_put e str t1) txt_end))"

text \<open>\<open>find\<close> searches the C string in the array with \<open>strstr\<close>.\<close>

definition txt_find :: "string \<Rightarrow> text_obj \<Rightarrow> nat option" where
  "txt_find str t = (case tx_buffer t of None \<Rightarrow> None | Some buf \<Rightarrow> find_at str (c_str buf))"

text \<open>\<open>insert\<close>; a length of 0 means the length of the C string.\<close>

definition txt_insert :: "(nat \<Rightarrow> char) \<Rightarrow> nat \<Rightarrow> char list \<Rightarrow> nat \<Rightarrow> text_obj \<Rightarrow> text_obj option" where
  "txt_insert mem offset str len t =
     (let n = if len = 0 then length (c_str str) else len
      in Option.bind (txt_expand mem offset n t) (\<lambda>t1.
         Option.bind (txt_put offset (take n str) t1) txt_end))"

definition txt_replace :: "(nat \<Rightarrow> char) \<Rightarrow> nat \<Rightarrow> nat \<Rightarrow> string \<Rightarrow> text_obj \<Rightarrow> text_obj option" where
  "txt_replace mem offset siz replacement t =
     (let lr = length replacement
      in Option.bind
           (if lr > siz then txt_expand mem (offset + siz) (lr - siz) t
            else if lr < siz then txt_contract (offset + lr) (siz - lr) t
            else Some t)
           (txt_put offset replacement))"

definition txt_substitute :: "(nat \<Rightarrow> char) \<Rightarrow> string \<Rightarrow> string \<Rightarrow> text_obj \<Rightarrow> (bool \<times> text_obj) option" where
  "txt_substitute mem placeholder replacement t =
     (case txt_find placeholder t of
        None \<Rightarrow> Some (False, t)
      | Some offset \<Rightarrow>
          map_option (Pair True) (txt_replace mem offset (length placeholder) replacement t))"

definition txt_release :: "text_obj \<Rightarrow> text_obj" where
  "txt_release t = txt_null"

section \<open>The copy loops\<close>

lemma length_copy_down [simp]: "length (copy_down s d n buf) = length buf"
  by (induction n arbitrary: s d buf) auto

lemma length_copy_up [simp]: "length (copy_up s d n buf) = length buf"
  by (induction n arbitrary: s d buf) auto

lemma copy_down_nth:
  assumes "n \<le> s" "s \<le> d" "d \<le> length buf" "i < length buf"
  shows "copy_down s d n buf ! i = (if d - n \<le> i \<and> i < d then buf ! (i - (d - s)) else buf ! i)"
  using assms
proof (induction n arbitrary: s d buf)
  case 0
  then show ?case by simp
next
  case (Suc n)
  have IH: "copy_down (s - 1) (d - 1) n (buf[d - 1 := buf ! (s - 1)]) ! i =
      (if d - 1 - n \<le> i \<and> i < d - 1 then buf[d - 1 := buf ! (s - 1)] ! (i - (d - 1 - (s - 1)))
       else buf[d - 1 := buf ! (s - 1)] ! i)"
    by (rule Suc.IH) (use Suc.prems in auto)
  have e: "d - 1 - (s - 1) = d - s" using Suc.prems by auto
  show ?case
    using Suc.prems unfolding copy_down.simps IH e by (auto simp: nth_list_update)
qed

lemma copy_up_nth:
  assumes "d \<le> s" "s + n \<le> length buf" "i < length buf"
  shows "copy_up s d n buf ! i = (if d \<le> i \<and> i < d + n then buf ! (i + (s - d)) else buf ! i)"
  using assms
proof (induction n arbitrary: s d buf)
  case 0
  then show ?case by simp
next
  case (Suc n)
  have IH: "copy_up (s + 1) (d + 1) n (buf[d := buf ! s]) ! i =
      (if d + 1 \<le> i \<and> i < d + 1 + n then buf[d := buf ! s] ! (i + (s + 1 - (d + 1)))
       else buf[d := buf ! s] ! i)"
    by (rule Suc.IH) (use Suc.prems in auto)
  show ?case
    using Suc.prems unfolding copy_up.simps IH by (auto simp: nth_list_update)
qed

lemma copy_down_write:
  assumes "offset \<le> e" "e + amount \<le> length buf"
  shows "take (e + amount) (copy_down e (e + amount) (e - offset) buf) =
         take (offset + amount) buf @ drop offset (take e buf)"
proof (rule nth_equalityI)
  show "length (take (e + amount) (copy_down e (e + amount) (e - offset) buf)) =
        length (take (offset + amount) buf @ drop offset (take e buf))"
    using assms by simp
  fix i assume "i < length (take (e + amount) (copy_down e (e + amount) (e - offset) buf))"
  then have i: "i < e + amount" by simp
  show "take (e + amount) (copy_down e (e + amount) (e - offset) buf) ! i =
        (take (offset + amount) buf @ drop offset (take e buf)) ! i"
    using i assms by (auto simp: copy_down_nth nth_append add.commute intro!: arg_cong [where f = "nth buf"])
qed

lemma copy_up_write:
  assumes "offset + amount \<le> e" "e \<le> length buf"
  shows "take (e - amount) (copy_up (offset + amount) offset (e - offset - amount) buf) =
         take offset buf @ drop (offset + amount) (take e buf)"
proof (rule nth_equalityI)
  show "length (take (e - amount) (copy_up (offset + amount) offset (e - offset - amount) buf)) =
        length (take offset buf @ drop (offset + amount) (take e buf))"
    using assms by simp
  fix i assume "i < length (take (e - amount) (copy_up (offset + amount) offset (e - offset - amount) buf))"
  then have i: "i < e - amount" by simp
  show "take (e - amount) (copy_up (offset + amount) offset (e - offset - amount) buf) ! i =
        (take offset buf @ drop (offset + amount) (take e buf)) ! i"
    using i assms by (auto simp: copy_up_nth nth_append add.commute)
qed

section \<open>The representation\<close>

definition txt_ok :: "text_obj \<Rightarrow> bool" where
  "txt_ok t \<longleftrightarrow> (case tx_buffer t of
       None \<Rightarrow> False
     | Some buf \<Rightarrow> length buf = tx_bufsiz t \<and> tx_endptr t < length buf \<and> buf ! tx_endptr t = NUL)"

definition txt_text :: "text_obj \<Rightarrow> string" where
  "txt_text t = (case tx_buffer t of None \<Rightarrow> [] | Some buf \<Rightarrow> take (tx_endptr t) buf)"

lemma txt_okE:
  assumes "txt_ok t"
  obtains buf where "tx_buffer t = Some buf" "length buf = tx_bufsiz t" "tx_endptr t < length buf"
    "buf ! tx_endptr t = NUL" "txt_text t = take (tx_endptr t) buf"
  using assms that by (auto simp: txt_ok_def txt_text_def split: option.splits)

lemma length_txt_text [simp]: "txt_ok t \<Longrightarrow> length (txt_text t) = tx_endptr t"
  by (auto elim!: txt_okE)

lemma round_up_2048: "(x :: nat) < (x + 2048) div 2048 * 2048"
proof -
  have "x + 2048 = (x + 2048) div 2048 * 2048 + (x + 2048) mod 2048"
    by (rule div_mult_mod_eq [symmetric])
  moreover have "(x + 2048) mod 2048 < 2048" by (rule mod_less_divisor) simp
  ultimately show ?thesis by linarith
qed

lemma txt_grow_ok:
  assumes "txt_ok t"
  obtains t1 where "txt_grow mem amount t = Some t1" "txt_ok t1" "txt_text t1 = txt_text t"
    "tx_endptr t1 = tx_endptr t" "tx_endptr t + amount < tx_bufsiz t1"
proof (cases "tx_endptr t + amount \<ge> tx_bufsiz t")
  case False
  with assms that [of t] show thesis by (simp add: txt_grow_def)
next
  case True
  define n where "n = (tx_endptr t + amount + 2048) div 2048 * 2048"
  from assms obtain buf where buf: "tx_buffer t = Some buf" "length buf = tx_bufsiz t"
    "tx_endptr t < length buf" "buf ! tx_endptr t = NUL" "txt_text t = take (tx_endptr t) buf"
    by (rule txt_okE)
  define b where "b = write_at (map mem [0..<n]) 0 (take (tx_endptr t + 1) buf)"
  have n: "tx_endptr t + amount < n" unfolding n_def by (rule round_up_2048)
  have len: "length b = n" using n buf by (simp add: b_def)
  have tk: "take (tx_endptr t + 1) b = take (tx_endptr t + 1) buf"
    using buf n by (simp add: b_def write_at_def)
  have "b ! tx_endptr t = take (tx_endptr t + 1) b ! tx_endptr t" by simp
  also have "\<dots> = buf ! tx_endptr t" unfolding tk by simp
  finally have e: "b ! tx_endptr t = NUL" using buf(4) by simp
  have "take (tx_endptr t) b = take (tx_endptr t) (take (tx_endptr t + 1) b)" by simp
  also have "\<dots> = take (tx_endptr t) buf" unfolding tk by simp
  finally have a: "take (tx_endptr t) b = take (tx_endptr t) buf" .
  have "txt_grow mem amount t = Some (t\<lparr>tx_buffer := Some b, tx_bufsiz := n\<rparr>)"
    using True buf(1-3) by (simp add: txt_grow_def Let_def n_def b_def)
  then show thesis
    by (rule that) (use len e a n buf in \<open>simp_all add: txt_ok_def txt_text_def\<close>)
qed

lemma txt_expand_ok:
  assumes "txt_ok t" "offset \<le> tx_endptr t"
  obtains t1 g where "txt_expand mem offset amount t = Some t1" "txt_ok t1" "length g = amount"
    "txt_text t1 = take offset (txt_text t) @ g @ drop offset (txt_text t)"
    "tx_endptr t1 = tx_endptr t + amount"
proof -
  obtain t1 where t1: "txt_grow mem amount t = Some t1" "txt_ok t1" "txt_text t1 = txt_text t"
    "tx_endptr t1 = tx_endptr t" "tx_endptr t + amount < tx_bufsiz t1"
    using txt_grow_ok [OF assms(1)] by metis
  from t1(2) obtain buf where buf: "tx_buffer t1 = Some buf" "length buf = tx_bufsiz t1"
    "txt_text t1 = take (tx_endptr t1) buf"
    by (rule txt_okE)
  let ?e = "tx_endptr t + amount"
  let ?b = "copy_down (tx_endptr t) ?e (tx_endptr t - offset) buf"
  have "take ?e ?b = take (offset + amount) buf @ drop offset (take (tx_endptr t) buf)"
    by (rule copy_down_write) (use assms(2) t1(5) buf in simp_all)
  also have "take (offset + amount) buf = take offset buf @ take amount (drop offset buf)"
    by (rule take_add)
  also have "take offset buf = take offset (txt_text t)"
    using assms(2) buf(3) t1(3,4) by (simp add: min.absorb1)
  finally have "take ?e ?b = take offset (txt_text t) @ take amount (drop offset buf) @ drop offset (txt_text t)"
    using buf(3) t1(3,4) by simp
  moreover have "txt_expand mem offset amount t =
      Some (t1\<lparr>tx_buffer := Some (?b[?e := NUL]), tx_endptr := ?e\<rparr>)"
    using t1 buf(1,2) assms(2) by (simp add: txt_expand_def Let_def)
  moreover have "length (take amount (drop offset buf)) = amount"
    using t1(5) buf(2) assms(2) by simp
  ultimately show thesis
    using buf(1,2) t1(5)
    by (intro that [of "t1\<lparr>tx_buffer := Some (?b[?e := NUL]), tx_endptr := ?e\<rparr>"
          "take amount (drop offset buf)"]) (simp_all add: txt_ok_def txt_text_def)
qed

lemma txt_contract_ok:
  assumes "txt_ok t" "offset + amount \<le> tx_endptr t"
  obtains t1 where "txt_contract offset amount t = Some t1" "txt_ok t1"
    "txt_text t1 = take offset (txt_text t) @ drop (offset + amount) (txt_text t)"
proof -
  from assms(1) obtain buf where buf: "tx_buffer t = Some buf" "length buf = tx_bufsiz t"
    "tx_endptr t < length buf" "txt_text t = take (tx_endptr t) buf"
    by (rule txt_okE)
  let ?b = "copy_up (offset + amount) offset (tx_endptr t - offset - amount) buf"
  let ?e = "tx_endptr t - amount"
  have "take ?e ?b = take offset buf @ drop (offset + amount) (take (tx_endptr t) buf)"
    by (rule copy_up_write) (use assms(2) buf in simp_all)
  moreover have "take offset buf = take offset (txt_text t)"
    using assms(2) buf(4) by (simp add: min.absorb1)
  ultimately have tk: "take ?e ?b = take offset (txt_text t) @ drop (offset + amount) (txt_text t)"
    using buf(4) by simp
  have "txt_contract offset amount t = Some (t\<lparr>tx_buffer := Some (?b[?e := NUL]), tx_endptr := ?e\<rparr>)"
    using buf(1,3) assms(2) by (simp add: txt_contract_def Let_def)
  then show thesis
    by (rule that) (use buf(1-3) tk in \<open>simp_all add: txt_ok_def txt_text_def\<close>)
qed

lemma txt_put_ok:
  assumes "txt_ok t" "offset + length cs \<le> tx_endptr t"
  obtains t1 where "txt_put offset cs t = Some t1" "txt_ok t1" "tx_endptr t1 = tx_endptr t"
    "txt_text t1 = write_at (txt_text t) offset cs"
proof -
  from assms(1) obtain buf where buf: "tx_buffer t = Some buf" "length buf = tx_bufsiz t"
    "tx_endptr t < length buf" "buf ! tx_endptr t = NUL" "txt_text t = take (tx_endptr t) buf"
    by (rule txt_okE)
  have "take (tx_endptr t) (write_at buf offset cs) = write_at (take (tx_endptr t) buf) offset cs"
    using assms(2) buf(3) by (simp add: write_at_def min.absorb1 drop_take)
  moreover have "write_at buf offset cs ! tx_endptr t = NUL"
    using assms(2) buf(3,4) by (simp add: nth_write_at_after)
  ultimately show thesis
    using that [of "t\<lparr>tx_buffer := Some (write_at buf offset cs)\<rparr>"] buf assms(2)
    by (simp add: txt_put_def txt_ok_def txt_text_def)
qed

lemma txt_of_ok:
  assumes "NUL \<notin> set s" "length s < siz"
  shows "txt_ok (txt_of mem s (length s) siz)" "txt_text (txt_of mem s (length s) siz) = s"
proof -
  have "write_at (map mem [0..<siz]) 0 s = s @ drop (length s) (map mem [0..<siz])"
    using assms(2) by (simp add: write_at_def)
  then show "txt_ok (txt_of mem s (length s) siz)" "txt_text (txt_of mem s (length s) siz) = s"
    using assms by (simp_all add: txt_of_def Let_def strncpy_all txt_ok_def txt_text_def)
qed

lemma txt_end_ok: "txt_ok t \<Longrightarrow> txt_end t = Some t"
  by (erule txt_okE) (simp add: txt_end_def txt_put_def write_at_single list_update_same_conv)

section \<open>The contract of a text buffer\<close>

text \<open>
  What the classes that edit messages in place (\<open>HTTPRequest::replaceHeader\<close> and
  \<open>WS::BuildPacket\<close>) rely on, whichever of the two string classes holds the message.
\<close>

locale text_buffer =
  fixes ok :: "'t \<Rightarrow> bool"
    and contents :: "'t \<Rightarrow> string"
    and find :: "string \<Rightarrow> 't \<Rightarrow> nat option"
    and ins :: "nat \<Rightarrow> string \<Rightarrow> 't \<Rightarrow> 't option"
    and repl :: "nat \<Rightarrow> nat \<Rightarrow> string \<Rightarrow> 't \<Rightarrow> 't option"
  assumes find_law: "ok t \<Longrightarrow> NUL \<notin> set (contents t) \<Longrightarrow> find p t = find_at p (contents t)"
    and ins_law: "ok t \<Longrightarrow> i \<le> length (contents t) \<Longrightarrow> s \<noteq> [] \<Longrightarrow>
      \<exists>u. ins i s t = Some u \<and> ok u \<and> contents u = take i (contents t) @ s @ drop i (contents t)"
    and repl_law: "ok t \<Longrightarrow> i + n \<le> length (contents t) \<Longrightarrow>
      \<exists>u. repl i n s t = Some u \<and> ok u \<and> contents u = take i (contents t) @ s @ drop (i + n) (contents t)"
begin

lemma prepend:
  assumes "ok t" "s \<noteq> []"
  obtains u where "ins 0 s t = Some u" "ok u" "contents u = s @ contents t"
  using ins_law [OF assms(1) _ assms(2), of 0] by auto

text \<open>Everything before the first separator is replaced, the separator and the rest stay.\<close>

lemma replace_head:
  assumes "ok t" "NUL \<notin> set (contents t)" "contents t = h @ sep @ b"
    and "\<And>j. j < length h \<Longrightarrow> \<not> prefix sep (drop j h @ sep @ b)"
  obtains u where "find sep t = Some (length h)" "repl 0 (length h) s t = Some u" "ok u"
    "contents u = s @ sep @ b"
proof -
  have "find sep t = Some (length h)"
    using find_law [OF assms(1,2)] find_atI [OF assms(4)] assms(3) by simp
  moreover from repl_law [OF assms(1), of 0 "length h" s] assms(3)
  obtain u where "repl 0 (length h) s t = Some u" "ok u" "contents u = s @ sep @ b"
    by auto
  ultimately show thesis by (rule that)
qed

text \<open>The first occurrence of a placeholder is replaced.\<close>

lemma substitute_first:
  assumes "ok t" "NUL \<notin> set (contents t)" "find_at p (contents t) = Some i"
  obtains u where "find p t = Some i" "repl i (length p) s t = Some u" "ok u"
    "contents u = take i (contents t) @ s @ drop (i + length p) (contents t)"
  using find_law [OF assms(1,2)] assms(3) find_at_bound [OF assms(3)] repl_law [OF assms(1), of i "length p" s]
  by auto

end

lemma txt_insert_ok:
  assumes "txt_ok t" "i \<le> length (txt_text t)" "s \<noteq> []"
  shows "\<exists>u. txt_insert mem i s (length s) t = Some u \<and> txt_ok u \<and>
    txt_text u = take i (txt_text t) @ s @ drop i (txt_text t)"
proof -
  have i: "i \<le> tx_endptr t" using assms(1,2) by simp
  obtain t1 g where t1: "txt_expand mem i (length s) t = Some t1" "txt_ok t1" "length g = length s"
    "txt_text t1 = take i (txt_text t) @ g @ drop i (txt_text t)" "tx_endptr t1 = tx_endptr t + length s"
    using txt_expand_ok [OF assms(1) i] by metis
  have "i + length s \<le> tx_endptr t1" using i t1(5) by simp
  then obtain u where u: "txt_put i s t1 = Some u" "txt_ok u" "txt_text u = write_at (txt_text t1) i s"
    using txt_put_ok [OF t1(2)] by metis
  have "write_at (txt_text t1) i s = take i (txt_text t) @ s @ drop i (txt_text t)"
    using assms(1,2) t1(3) by (simp add: t1(4) write_at_def)
  with t1(1) u assms(3) txt_end_ok [OF u(2)] show ?thesis by (simp add: txt_insert_def)
qed

lemma txt_replace_ok:
  assumes "txt_ok t" "i + n \<le> length (txt_text t)"
  shows "\<exists>u. txt_replace mem i n s t = Some u \<and> txt_ok u \<and>
    txt_text u = take i (txt_text t) @ s @ drop (i + n) (txt_text t)"
proof -
  let ?x = "txt_text t"
  have n: "i + n \<le> tx_endptr t" using assms by simp
  have "\<exists>t1 g. (if length s > n then txt_expand mem (i + n) (length s - n) t
            else if length s < n then txt_contract (i + length s) (n - length s) t
            else Some t) = Some t1 \<and> txt_ok t1 \<and> length g = length s \<and>
          txt_text t1 = take i ?x @ g @ drop (i + n) ?x"
  proof (cases "length s" n rule: linorder_cases)
    case less
    then have "i + length s + (n - length s) \<le> tx_endptr t" using n by simp
    then obtain t1 where "txt_contract (i + length s) (n - length s) t = Some t1" "txt_ok t1"
      "txt_text t1 = take (i + length s) ?x @ drop (i + length s + (n - length s)) ?x"
      using txt_contract_ok [OF assms(1)] by metis
    with less n assms show ?thesis
      by (intro exI [of _ t1] exI [of _ "take (length s) (drop i ?x)"]) (simp add: take_add)
  next
    case equal
    have "?x = take i ?x @ take n (drop i ?x) @ drop (i + n) ?x"
      by (metis append.assoc append_take_drop_id take_add)
    with equal assms show ?thesis
      by (intro exI [of _ t] exI [of _ "take n (drop i ?x)"]) simp
  next
    case greater
    obtain t1 g where "txt_expand mem (i + n) (length s - n) t = Some t1" "txt_ok t1"
      "length g = length s - n" "txt_text t1 = take (i + n) ?x @ g @ drop (i + n) ?x"
      using txt_expand_ok [OF assms(1) n] by metis
    with greater n assms show ?thesis
      by (intro exI [of _ t1] exI [of _ "take n (drop i ?x) @ g"]) (simp add: take_add)
  qed
  then obtain t1 g where t1: "(if length s > n then txt_expand mem (i + n) (length s - n) t
            else if length s < n then txt_contract (i + length s) (n - length s) t
            else Some t) = Some t1" "txt_ok t1" "length g = length s"
    "txt_text t1 = take i ?x @ g @ drop (i + n) ?x" by metis
  have "i + length s \<le> tx_endptr t1"
    using length_txt_text [OF t1(2)] t1(3,4) assms by simp
  then obtain u where u: "txt_put i s t1 = Some u" "txt_ok u" "txt_text u = write_at (txt_text t1) i s"
    using txt_put_ok [OF t1(2)] by metis
  have "write_at (txt_text t1) i s = take i ?x @ s @ drop (i + n) ?x"
    using assms t1(3) by (simp add: t1(4) write_at_def)
  with t1(1) u show ?thesis by (simp add: txt_replace_def Let_def)
qed

lemma txt_find_ok:
  assumes "txt_ok t" "NUL \<notin> set (txt_text t)"
  shows "txt_find p t = find_at p (txt_text t)"
proof -
  from assms(1) obtain buf where buf: "tx_buffer t = Some buf" "tx_endptr t < length buf"
    "buf ! tx_endptr t = NUL" "txt_text t = take (tx_endptr t) buf"
    by (rule txt_okE)
  have "buf = txt_text t @ NUL # drop (Suc (tx_endptr t)) buf"
    using buf by (metis id_take_nth_drop)
  then have "c_str buf = txt_text t" using c_str_append_NUL [OF assms(2)] by metis
  with buf(1) show ?thesis by (simp add: txt_find_def)
qed

interpretation tbuf: text_buffer txt_ok txt_text txt_find
  "\<lambda>i s. txt_insert mem i s (length s)" "txt_replace mem" for mem
  by unfold_locales (simp_all add: txt_find_ok txt_insert_ok txt_replace_ok)

text \<open>The other provider: \<open>std::string\<close>, whose \<open>insert\<close> and \<open>replace\<close> check the position.\<close>

definition string_insert :: "nat \<Rightarrow> string \<Rightarrow> string \<Rightarrow> string option" where
  "string_insert i s t = (if i \<le> length t then Some (take i t @ s @ drop i t) else None)"

definition string_replace :: "nat \<Rightarrow> nat \<Rightarrow> string \<Rightarrow> string \<Rightarrow> string option" where
  "string_replace i n s t = (if i \<le> length t then Some (take i t @ s @ drop (i + n) t) else None)"

interpretation sbuf: text_buffer "\<lambda>_. True" "\<lambda>t. t" find_at string_insert string_replace
  by unfold_locales (simp_all add: string_insert_def string_replace_def)

section \<open>Append, assign, substitute\<close>

lemma txt_append_ok:
  assumes "txt_ok t"
  shows "\<exists>u. txt_append mem s t = Some u \<and> txt_ok u \<and> txt_text u = txt_text t @ s"
proof -
  obtain t1 g where t1: "txt_expand mem (tx_endptr t) (length s) t = Some t1" "txt_ok t1"
    "length g = length s" "txt_text t1 = take (tx_endptr t) (txt_text t) @ g @ drop (tx_endptr t) (txt_text t)"
    "tx_endptr t1 = tx_endptr t + length s"
    using txt_expand_ok [OF assms order_refl] by metis
  have "tx_endptr t + length s \<le> tx_endptr t1" using t1(5) by simp
  then obtain u where u: "txt_put (tx_endptr t) s t1 = Some u" "txt_ok u"
    "txt_text u = write_at (txt_text t1) (tx_endptr t) s"
    using txt_put_ok [OF t1(2)] by metis
  have "write_at (txt_text t1) (tx_endptr t) s = txt_text t @ s"
    using assms t1(3) by (simp add: t1(4) write_at_def)
  with t1(1) u txt_end_ok [OF u(2)] show ?thesis by (simp add: txt_append_def)
qed

lemma txt_cut_ok:
  assumes "txt_ok t"
  shows "\<exists>u. txt_grow mem amount (t\<lparr>tx_endptr := 0\<rparr>) = Some u \<and>
    (\<exists>buf. tx_buffer u = Some buf \<and> length buf = tx_bufsiz u \<and> amount < length buf) \<and> tx_endptr u = 0"
proof (cases "amount \<ge> tx_bufsiz t")
  case False
  with assms show ?thesis by (auto simp: txt_grow_def elim!: txt_okE)
next
  case True
  define n where "n = (amount + 2048) div 2048 * 2048"
  have n: "amount < n" unfolding n_def by (rule round_up_2048)
  from assms obtain buf where buf: "tx_buffer t = Some buf" "length buf = tx_bufsiz t" "tx_endptr t < length buf"
    by (rule txt_okE)
  have "length (take 1 buf) = 1" using buf(3) by (cases buf) auto
  with True buf n show ?thesis
    by (auto simp: txt_grow_def Let_def n_def [symmetric])
qed

lemma txt_assign_ok:
  assumes "txt_ok t" "NUL \<notin> set s"
  shows "\<exists>u. txt_assign mem s t = Some u \<and> txt_ok u \<and> txt_text u = s"
proof -
  obtain t1 buf where t1: "txt_grow mem (length s) (t\<lparr>tx_endptr := 0\<rparr>) = Some t1"
    "tx_buffer t1 = Some buf" "length buf = tx_bufsiz t1" "length s < length buf" "tx_endptr t1 = 0"
    using txt_cut_ok [OF assms(1)] by metis
  let ?t2 = "t1\<lparr>tx_buffer := Some (buf[length s := NUL]), tx_endptr := length s\<rparr>"
  have "txt_expand mem 0 (length s) (t\<lparr>tx_endptr := 0\<rparr>) = Some ?t2"
    using t1 by (simp add: txt_expand_def Let_def)
  moreover have ok: "txt_ok ?t2" using t1 by (simp add: txt_ok_def)
  obtain u where u: "txt_put 0 s ?t2 = Some u" "txt_ok u" "txt_text u = write_at (txt_text ?t2) 0 s"
    using txt_put_ok [OF ok, of 0 s] by auto
  have "write_at (txt_text ?t2) 0 s = s" using length_txt_text [OF ok] by (simp add: write_at_full)
  with calculation u txt_end_ok [OF u(2)] show ?thesis
    by (simp add: txt_assign_def strncpy_all [OF assms(2)])
qed

section \<open>Splitting, joining and trimming\<close>

text \<open>The \<open>do\<close> loop of \<open>split\<close>, entered with the position of a separator.\<close>

function split_from :: "string \<Rightarrow> string \<Rightarrow> nat \<Rightarrow> string list" where
  "split_from src separators i2 =
     (let i1 = i2 + 1
      in if i1 < length src
         then (case find_first_of separators src i1 of
                 None \<Rightarrow> [substr_to src i1 None]
               | Some j \<Rightarrow> substr_to src i1 (Some j) # split_from src separators j)
         else [[]])"
  by pat_completeness auto
termination
  by (relation "measure (\<lambda>(src, separators, i2). length src - i2)")
    (auto simp: find_first_of_def find_if_def)

declare split_from.simps [simp del]

definition txt_split :: "string \<Rightarrow> string \<Rightarrow> string list" where
  "txt_split src separators =
     (case find_first_of separators src 0 of
        None \<Rightarrow> [src]
      | Some i2 \<Rightarrow> substr_to src 0 (Some i2) # split_from src separators i2)"

definition txt_join :: "string list \<Rightarrow> string \<Rightarrow> string" where
  "txt_join tokens separator =
     fold (\<lambda>tok ret. (if ret \<noteq> [] then ret @ separator else ret) @ tok) tokens []"

definition white :: string where "white = [CHR 0x20, CHR 0x09, CR, LF]"

definition trim_back :: "string \<Rightarrow> string" where
  "trim_back str =
     (case find_last (\<lambda>c. c \<notin> set white) str of Some ii \<Rightarrow> take (ii + 1) str | None \<Rightarrow> [])"

definition trim_front :: "string \<Rightarrow> string" where
  "trim_front str =
     (case find_first_not_of white str 0 of Some ii \<Rightarrow> drop ii str | None \<Rightarrow> [])"

text \<open>\<open>substitute\<close> on a \<open>std::string\<close>.\<close>

definition string_substitute :: "string \<Rightarrow> string \<Rightarrow> string \<Rightarrow> (bool \<times> string) option" where
  "string_substitute target placeholder replacement =
     (case str_find target placeholder 0 of
        None \<Rightarrow> Some (False, target)
      | Some ii \<Rightarrow>
          map_option (Pair True) (string_replace ii (length placeholder) replacement target))"

text \<open>The variants that substitute a number print it with \<open>%d\<close> or \<open>std::to_string\<close>; the 16
  characters of the first one hold every \<open>int\<close>.\<close>

definition int_text :: "int \<Rightarrow> string" where
  "int_text v = (if v < 0 then CHR ''-'' # decimal (nat (- v)) else decimal (nat v))"

definition txt_substitute_int :: "(nat \<Rightarrow> char) \<Rightarrow> string \<Rightarrow> int \<Rightarrow> text_obj \<Rightarrow> (bool \<times> text_obj) option" where
  "txt_substitute_int mem placeholder v t =
     (let numbuf = int_text v
      in if length numbuf < 16 then txt_substitute mem placeholder numbuf t else Some (False, t))"

definition string_substitute_int :: "string \<Rightarrow> string \<Rightarrow> int \<Rightarrow> (bool \<times> string) option" where
  "string_substitute_int target placeholder v = string_substitute target placeholder (int_text v)"

text \<open>The reference: a separator ends a piece, every other character joins the piece it is in.\<close>

fun pieces :: "(char \<Rightarrow> bool) \<Rightarrow> string \<Rightarrow> string list" where
  "pieces P [] = [[]]"
| "pieces P (c # cs) =
     (if P c then [] # pieces P cs
      else (case pieces P cs of [] \<Rightarrow> [[c]] | t # ts \<Rightarrow> (c # t) # ts))"

lemma pieces_nonempty [simp]: "pieces P s \<noteq> []"
  by (induction s) (auto split: list.splits)

lemma pieces_none: "\<forall>c \<in> set s. \<not> P c \<Longrightarrow> pieces P s = [s]"
  by (induction s) auto

lemma pieces_sep: "\<forall>c \<in> set a. \<not> P c \<Longrightarrow> P d \<Longrightarrow> pieces P (a @ d # b) = a # pieces P b"
  by (induction a) auto

lemma pieces_index:
  "pieces P s = (case index_of P s of None \<Rightarrow> [s] | Some i \<Rightarrow> take i s # pieces P (drop (Suc i) s))"
proof (cases "index_of P s")
  case None
  then have "pieces P s = [s]" by (simp add: index_of_None pieces_none)
  with None show ?thesis by simp
next
  case (Some i)
  have i: "i < length s" "P (s ! i)" "\<forall>j < i. \<not> P (s ! j)" using index_of_Some [OF Some] by auto
  have "s = take i s @ s ! i # drop (Suc i) s" using i(1) by (rule id_take_nth_drop)
  moreover have "\<forall>c \<in> set (take i s). \<not> P c" using i by (auto simp: in_set_conv_nth)
  ultimately have "pieces P s = take i s # pieces P (drop (Suc i) s)"
    using pieces_sep i(2) by metis
  with Some show ?thesis by simp
qed

lemma split_from_pieces:
  "i2 < length src \<Longrightarrow> split_from src seps i2 = pieces (\<lambda>c. c \<in> set seps) (drop (Suc i2) src)"
proof (induction src seps i2 rule: split_from.induct)
  case (1 src seps i2)
  show ?case
  proof (cases "index_of (\<lambda>c. c \<in> set seps) (drop (Suc i2) src)")
    case None
    then show ?thesis
      using 1 by (subst split_from.simps, subst pieces_index)
        (auto simp: find_first_of_def find_if_def substr_to_def Let_def)
  next
    case (Some k)
    have k: "k < length (drop (Suc i2) src)" using index_of_Some [OF Some] by simp
    have "split_from src seps (Suc i2 + k) = pieces (\<lambda>c. c \<in> set seps) (drop (Suc (Suc i2 + k)) src)"
      using 1 Some k by (auto simp: find_first_of_def find_if_def)
    with Some k show ?thesis
      by (subst split_from.simps, subst pieces_index)
        (auto simp: find_first_of_def find_if_def substr_to_def Let_def add.commute)
  qed
qed

lemma txt_split_pieces: "txt_split src seps = pieces (\<lambda>c. c \<in> set seps) src"
proof (cases "index_of (\<lambda>c. c \<in> set seps) src")
  case None
  then show ?thesis by (subst pieces_index) (simp add: txt_split_def find_first_of_def find_if_def)
next
  case (Some i)
  then have "i < length src" using index_of_Some by blast
  with Some split_from_pieces [of i src seps] show ?thesis
    by (subst pieces_index) (simp add: txt_split_def find_first_of_def find_if_def substr_to_def)
qed

lemma join_loop:
  "r \<noteq> [] \<Longrightarrow> fold (\<lambda>tok ret. (if ret \<noteq> [] then ret @ sep else ret) @ tok) ts r = r @ concat (map (\<lambda>t. sep @ t) ts)"
  by (induction ts arbitrary: r) auto

lemma join_Cons:
  "txt_join (t # ts) sep = (if t = [] then txt_join ts sep else t @ concat (map (\<lambda>t. sep @ t) ts))"
  by (simp add: txt_join_def join_loop)

lemma join_char:
  "txt_join (t # ts) [d] = (if t = [] then txt_join ts [d] else t @ concat (map ((#) d) ts))"
proof -
  have "(@) [d] = (#) d" by auto
  then show ?thesis by (simp add: join_Cons)
qed

lemma pieces_concat: "pieces (\<lambda>c. c = d) s = t # ts \<Longrightarrow> t @ concat (map ((#) d) ts) = s"
proof (induction s arbitrary: t ts)
  case Nil
  then show ?case by simp
next
  case (Cons c cs)
  obtain u us where p: "pieces (\<lambda>c. c = d) cs = u # us"
    using pieces_nonempty by (cases "pieces (\<lambda>c. c = d) cs") auto
  have IH: "u @ concat (map ((#) d) us) = cs" by (rule Cons.IH [OF p])
  show ?case
  proof (cases "c = d")
    case True
    with Cons.prems p have "t = []" "ts = u # us" by simp_all
    with IH True show ?thesis by simp
  next
    case False
    with Cons.prems p have "t = c # u" "ts = us" by simp_all
    with IH show ?thesis by simp
  qed
qed

lemma join_pieces: "txt_join (pieces (\<lambda>c. c = d) s) [d] = dropWhile (\<lambda>c. c = d) s"
proof (induction s)
  case Nil
  then show ?case by (simp add: txt_join_def)
next
  case (Cons c cs)
  show ?case
  proof (cases "c = d")
    case True
    with Cons show ?thesis by (simp add: join_char)
  next
    case False
    obtain t ts where p: "pieces (\<lambda>c. c = d) cs = t # ts"
      using pieces_nonempty by (cases "pieces (\<lambda>c. c = d) cs") auto
    with False pieces_concat [OF p] show ?thesis by (simp add: join_char)
  qed
qed

lemma pieces_of_concat:
  assumes "\<forall>t \<in> set (t # ts). d \<notin> set t"
  shows "pieces (\<lambda>c. c = d) (t @ concat (map ((#) d) ts)) = t # ts"
  using assms
proof (induction ts arbitrary: t)
  case Nil
  then have "\<forall>c \<in> set t. c \<noteq> d" by auto
  then show ?case by (simp add: pieces_none)
next
  case (Cons u us)
  then have "\<forall>c \<in> set t. c \<noteq> d" by auto
  then have "pieces (\<lambda>c. c = d) (t @ d # (u @ concat (map ((#) d) us))) =
      t # pieces (\<lambda>c. c = d) (u @ concat (map ((#) d) us))"
    by (intro pieces_sep) auto
  with Cons show ?case by simp
qed

section \<open>Properties\<close>

text \<open>Splitting a string at any set of separators returns its pieces in order, as many as
  there are separators plus one, empty ones included; joining the pieces of a split at one
  character gives the string back except for leading separators, which \<open>join\<close> drops because it
  adds a separator only to a result that is not empty.\<close>

theorem split_then_join:
  "txt_split s seps = pieces (\<lambda>c. c \<in> set seps) s \<and>
   length (txt_split s seps) = Suc (length (filter (\<lambda>c. c \<in> set seps) s)) \<and>
   txt_join (txt_split s [d]) [d] = dropWhile (\<lambda>c. c = d) s"
proof -
  have "length (pieces P s) = Suc (length (filter P s))" for P
    by (induction s) (auto split: list.splits)
  then show ?thesis using join_pieces [of d s] by (simp add: txt_split_pieces)
qed

text \<open>Joining tokens and splitting the result gives the tokens back, for tokens without the
  separator of which the first is not empty.\<close>

theorem join_then_split:
  assumes "ts \<noteq> []" and "hd ts \<noteq> []" and "\<forall>t \<in> set ts. d \<notin> set t"
  shows "txt_split (txt_join ts [d]) [d] = ts"
  using assms by (cases ts) (simp_all add: txt_split_pieces join_char pieces_of_concat)

lemma join_then_split_witness:
  "txt_split (txt_join [''ab'', [], ''c''] ''&'') ''&'' = [''ab'', [], ''c'']"
  by (rule join_then_split) simp_all

text \<open>C33: The text buffer is a string.  Whatever spare room it has, and whether or not the
  operation has to allocate a larger array, \<open>insert\<close>, \<open>replace\<close>, \<open>+=\<close> and \<open>=\<close> stay inside the
  array, keep it terminated at the end offset, and change the text exactly as the operation on
  a list of characters does.\<close>

theorem txt_edits_text:
  assumes "txt_ok t" and "i + n \<le> length (txt_text t)" and "s \<noteq> []" and "NUL \<notin> set s"
  shows "(\<exists>u. txt_insert mem i s (length s) t = Some u \<and> txt_ok u \<and>
            txt_text u = take i (txt_text t) @ s @ drop i (txt_text t)) \<and>
         (\<exists>u. txt_replace mem i n s t = Some u \<and> txt_ok u \<and>
            txt_text u = take i (txt_text t) @ s @ drop (i + n) (txt_text t)) \<and>
         (\<exists>u. txt_append mem s t = Some u \<and> txt_ok u \<and> txt_text u = txt_text t @ s) \<and>
         (\<exists>u. txt_assign mem s t = Some u \<and> txt_ok u \<and> txt_text u = s)"
  using txt_insert_ok [OF assms(1) _ assms(3)] txt_replace_ok [OF assms(1,2)]
    txt_append_ok [OF assms(1)] txt_assign_ok [OF assms(1,4)] assms(2)
  by simp

definition txt_demo :: text_obj where
  "txt_demo = txt_of (\<lambda>_. CHR ''x'') ''hello'' 5 0"

lemma txt_demo_ok: "txt_ok txt_demo" "txt_text txt_demo = ''hello''"
  by code_simp+

lemma txt_edits_text_witness:
  "\<exists>u. txt_replace (\<lambda>_. CHR ''y'') 1 2 ''EEEEE'' txt_demo = Some u \<and> txt_ok u \<and> txt_text u = ''hEEEEElo''"
proof -
  have h: "1 + 2 \<le> length (txt_text txt_demo)" "''EEEEE'' \<noteq> []" "NUL \<notin> set ''EEEEE''"
    "take 1 (txt_text txt_demo) @ ''EEEEE'' @ drop (1 + 2) (txt_text txt_demo) = ''hEEEEElo''"
    by code_simp+
  show ?thesis
    by (rule txt_edits_text [OF txt_demo_ok(1) h(1-3), THEN conjunct2, THEN conjunct1, unfolded h(4)])
qed

text \<open>\<open>substitute\<close> replaces the first occurrence of the placeholder and reports it, or leaves
  the buffer alone and reports that there is none.\<close>

theorem txt_substitute_first:
  assumes "txt_ok t" and "NUL \<notin> set (txt_text t)"
  shows "(case find_at p (txt_text t) of
            None \<Rightarrow> txt_substitute mem p s t = Some (False, t)
          | Some i \<Rightarrow> (\<exists>u. txt_substitute mem p s t = Some (True, u) \<and> txt_ok u \<and>
              txt_text u = take i (txt_text t) @ s @ drop (i + length p) (txt_text t)))"
proof (cases "find_at p (txt_text t)")
  case None
  with txt_find_ok [OF assms] show ?thesis by (simp add: txt_substitute_def)
next
  case (Some i)
  obtain u where "txt_find p t = Some i" "txt_replace mem i (length p) s t = Some u" "txt_ok u"
    "txt_text u = take i (txt_text t) @ s @ drop (i + length p) (txt_text t)"
    by (rule tbuf.substitute_first [OF assms Some, where s = s and mem = mem])
  with Some show ?thesis by (simp add: txt_substitute_def)
qed

lemma txt_substitute_first_witness:
  "\<exists>u. txt_substitute (\<lambda>_. CHR ''y'') ''ll'' ''LLLL'' txt_demo = Some (True, u) \<and>
     txt_ok u \<and> txt_text u = ''heLLLLo''"
proof -
  have f: "find_at ''ll'' (txt_text txt_demo) = Some 2" "NUL \<notin> set (txt_text txt_demo)"
    "take 2 (txt_text txt_demo) @ ''LLLL'' @ drop (2 + length ''ll'') (txt_text txt_demo) = ''heLLLLo''"
    by code_simp+
  show ?thesis
    by (rule txt_substitute_first [OF txt_demo_ok(1) f(2), where p = "''ll''", unfolded f(1) option.case,
          where s = "''LLLL''", unfolded f(3)])
qed

text \<open>A default-constructed or released buffer cannot be used: its array is a null pointer and
  \<open>expand\<close> copies from it, so every assignment and append has undefined behaviour, although the
  class documents \<open>release\<close> and the default constructor as leaving an empty buffer.\<close>

theorem txt_null_unusable:
  "txt_assign mem s txt_null = None \<and> txt_append mem s (txt_release t) = None"
  by (simp add: txt_assign_def txt_append_def txt_expand_def txt_grow_def txt_null_def
      txt_release_def Let_def)

end
