(* ===== verification/Ws.thy ===== *)
theory Ws
  imports Txt
begin

text \<open>
  Websocket framing (\<open>network/ws.h\<close>, \<open>network/ws.cpp\<close>): building a frame in a \<open>std::string\<close>
  and in a \<open>TXT\<close> buffer, and parsing one in place at the front of the receive string.
  \<open>size_t\<close> and \<open>uint32_t\<close> are 32 bits wide on the target; \<open>rand()\<close> is the argument \<open>key\<close>, the
  four bytes of the masking key.  The bit fields of the header union are read off its two
  bytes: \<open>byte0\<close> holds FIN, RSV and OPCODE, \<open>byte1\<close> holds MASK and PAYLOADLEN.
\<close>

section \<open>Definitions\<close>

record ws_header =
  ws_byte0 :: u8
  ws_byte1 :: u8
  ws_start :: u8
  ws_length :: u32
  ws_mask :: "u8 list"

definition ws_fin :: "ws_header \<Rightarrow> bool" where "ws_fin h = bit (ws_byte0 h) 7"
definition ws_opcode :: "ws_header \<Rightarrow> u8" where "ws_opcode h = ws_byte0 h AND 15"
definition ws_masked :: "ws_header \<Rightarrow> bool" where "ws_masked h = bit (ws_byte1 h) 7"
definition ws_payloadlen :: "ws_header \<Rightarrow> u8" where "ws_payloadlen h = ws_byte1 h AND 127"

definition WS_CONTINUE :: u8 where "WS_CONTINUE = 0"
definition WS_TEXT :: u8 where "WS_TEXT = 1"
definition WS_BIN :: u8 where "WS_BIN = 2"
definition WS_CLOSE :: u8 where "WS_CLOSE = 8"
definition WS_PING :: u8 where "WS_PING = 9"
definition WS_PONG :: u8 where "WS_PONG = 10"

text \<open>The two bytes from the bit fields that both builders fill in (RSV is 0, FIN is 1).\<close>

definition ws_meta :: "u8 \<Rightarrow> bool \<Rightarrow> nat \<Rightarrow> u8 list" where
  "ws_meta opcode masked len =
     (let payloadlen = if len < 126 then of_nat len else if len < 0x10000 then 126 else 127
      in [128 OR opcode, (if masked then 128 else 0) OR payloadlen])"

text \<open>Byte \<open>k\<close> of a length, counted from the least significant.\<close>

definition len_byte :: "nat \<Rightarrow> nat \<Rightarrow> u8" where
  "len_byte len k = of_nat (len div 256 ^ k mod 256)"

definition ws_extended :: "nat \<Rightarrow> u8 list" where
  "ws_extended len =
     (if len < 126 then []
      else if len < 0x10000 then [len_byte len 1, len_byte len 0]
      else [0, 0, 0, 0, len_byte len 3, len_byte len 2, len_byte len 1, len_byte len 0])"

text \<open>The loop that XORs the key into the string from an index on.\<close>

fun xor_run :: "u8 list \<Rightarrow> nat \<Rightarrow> nat \<Rightarrow> nat \<Rightarrow> string \<Rightarrow> string" where
  "xor_run key index i 0 s = s"
| "xor_run key index i (Suc n) s =
     xor_run key index (i + 1) n
       (s[index + i := char_of_byte (byte_of (s ! (index + i)) XOR key ! (i mod 4))])"

definition ws_build :: "u8 \<Rightarrow> string \<Rightarrow> bool \<Rightarrow> u8 list \<Rightarrow> string" where
  "ws_build opcode payload msk key =
     (let masked = msk \<and> length payload > 0;
          hdr = ws_meta opcode masked (length payload) @ ws_extended (length payload);
          payloadIndex = length hdr;
          msg = map char_of_byte (if masked then hdr @ key else hdr) @ payload
      in if masked then xor_run key (payloadIndex + 4) 0 (length payload) msg else msg)"

text \<open>
  The builder for \<open>TXT\<close> inserts the header in front of the text.  Its masking loop runs to
  \<open>datasize()\<close>, which by then includes the header.  Writing outside the array has no result.
\<close>

definition ws_build_txt ::
  "(nat \<Rightarrow> char) \<Rightarrow> u8 \<Rightarrow> text_obj \<Rightarrow> bool \<Rightarrow> u8 list \<Rightarrow> text_obj option" where
  "ws_build_txt mem opcode msg msk key =
     (let len = tx_endptr msg;
          masked = msk \<and> len > 0;
          hdr = ws_meta opcode masked len @ ws_extended len @ (if masked then key else []);
          payloadIndex = length hdr
      in Option.bind (txt_insert mem 0 (map char_of_byte hdr) payloadIndex msg) (\<lambda>m.
         if masked
         then (case tx_buffer m of
                 None \<Rightarrow> None
               | Some buf \<Rightarrow>
                   if payloadIndex + tx_endptr m \<le> length buf
                   then Some (m\<lparr>tx_buffer := Some (xor_run key payloadIndex 0 (tx_endptr m) buf)\<rparr>)
                   else None)
         else Some m))"

text \<open>
  Parsing.  Both checks of the payload against the packet add an \<open>int\<close> to a \<open>uint32_t\<close> and so
  wrap at $2^{32}$; the unmasking loop does not, and where it leaves the string the behaviour
  is undefined.
\<close>

datatype ws_result =
    Ws_Success ws_header string
  | Ws_Fail ws_header string
  | Ws_Fault

definition ws_word :: "string \<Rightarrow> nat \<Rightarrow> u32" where
  "ws_word packet i = ucast (byte_of (packet ! i))"

definition ws_short :: "string \<Rightarrow> u32 \<Rightarrow> u32 \<Rightarrow> bool" where
  "ws_short packet payloadIndex len \<longleftrightarrow> (of_nat (length packet) :: u32) < payloadIndex + len"

definition ws_payload :: "ws_header \<Rightarrow> string \<Rightarrow> nat \<Rightarrow> ws_result" where
  "ws_payload h packet payloadIndex =
     (if ws_masked h
      then if length packet < payloadIndex + 4 then Ws_Fail h packet
           else let key = map byte_of (take 4 (drop payloadIndex packet));
                    h1 = h\<lparr>ws_mask := key\<rparr>;
                    index = payloadIndex + 4
                in if ws_short packet (of_nat index) (ws_length h1) then Ws_Fail h1 packet
                   else if index + unat (ws_length h1) > length packet then Ws_Fault
                   else Ws_Success (h1\<lparr>ws_start := of_nat index\<rparr>)
                          (xor_run key index 0 (unat (ws_length h1)) packet)
      else if ws_short packet (of_nat payloadIndex) (ws_length h) then Ws_Fail h packet
      else Ws_Success (h\<lparr>ws_start := of_nat payloadIndex\<rparr>) packet)"

definition ws_parse :: "ws_header \<Rightarrow> string \<Rightarrow> ws_result" where
  "ws_parse header packet =
     (if length packet < 2 then Ws_Fail header packet
      else
        let h0 = header\<lparr>ws_byte0 := byte_of (packet ! 0), ws_byte1 := byte_of (packet ! 1)\<rparr>;
            h = h0\<lparr>ws_length := ucast (ws_payloadlen h0)\<rparr>
        in if ws_payloadlen h = 126
           then if length packet < 4 then Ws_Fail h packet
                else ws_payload
                       (h\<lparr>ws_length := push_bit 8 (ws_word packet 2) OR ws_word packet 3\<rparr>) packet 4
           else if ws_payloadlen h = 127
           then if length packet < 10 then Ws_Fail h packet
                else ws_payload
                       (h\<lparr>ws_length := push_bit 24 (ws_word packet 6) OR push_bit 16 (ws_word packet 7)
                                      OR push_bit 8 (ws_word packet 8) OR ws_word packet 9\<rparr>) packet 10
           else ws_payload h packet 2)"

section \<open>Masking\<close>

definition xor_mask :: "u8 list \<Rightarrow> string \<Rightarrow> string" where
  "xor_mask key s =
     map (\<lambda>i. char_of_byte (byte_of (s ! i) XOR key ! (i mod 4))) [0..<length s]"

lemma length_xor_mask [simp]: "length (xor_mask key s) = length s"
  by (simp add: xor_mask_def)

lemma xor_mask_mask: "xor_mask key (xor_mask key s) = s"
  by (rule nth_equalityI) (simp_all add: xor_mask_def xor.assoc)

lemma xor_run_nth:
  "index + i + n \<le> length s \<Longrightarrow> k < length s \<Longrightarrow>
   xor_run key index i n s ! k =
     (if index + i \<le> k \<and> k < index + i + n
      then char_of_byte (byte_of (s ! k) XOR key ! ((k - index) mod 4)) else s ! k)"
proof (induction n arbitrary: i s)
  case 0
  then show ?case by auto
next
  case (Suc n)
  let ?s = "s[index + i := char_of_byte (byte_of (s ! (index + i)) XOR key ! (i mod 4))]"
  have "xor_run key index (i + 1) n ?s ! k =
     (if index + (i + 1) \<le> k \<and> k < index + (i + 1) + n
      then char_of_byte (byte_of (?s ! k) XOR key ! ((k - index) mod 4)) else ?s ! k)"
    by (rule Suc.IH) (use Suc.prems in simp_all)
  then show ?case using Suc.prems by (auto simp: nth_list_update)
qed

lemma length_xor_run [simp]: "length (xor_run key index i n s) = length s"
  by (induction n arbitrary: i s) auto

lemma xor_run_mask:
  "xor_run key (length a) 0 (length s) (a @ s @ b) = a @ xor_mask key s @ b"
proof (rule nth_equalityI)
  show "length (xor_run key (length a) 0 (length s) (a @ s @ b)) = length (a @ xor_mask key s @ b)" by simp
  fix k assume "k < length (xor_run key (length a) 0 (length s) (a @ s @ b))"
  then have "k < length (a @ s @ b)" by simp
  then show "xor_run key (length a) 0 (length s) (a @ s @ b) ! k = (a @ xor_mask key s @ b) ! k"
    by (auto simp: xor_run_nth nth_append xor_mask_def)
qed

section \<open>The header of a frame\<close>

lemma byte_small:
  assumes "n < 128"
  shows "(of_nat n :: u8) AND 127 = of_nat n" "\<not> bit (of_nat n :: u8) 7"
proof -
  have "(of_nat n :: u8) AND mask 7 = of_nat n"
    using assms by (simp add: take_bit_of_nat take_bit_nat_eq_self flip: take_bit_eq_mask)
  then show a: "(of_nat n :: u8) AND 127 = of_nat n" by (simp add: mask_eq_exp_minus_1)
  have "\<not> bit ((of_nat n :: u8) AND mask 7) 7" by (simp add: bit_and_iff bit_mask_iff)
  then show "\<not> bit (of_nat n :: u8) 7" using a by (simp add: mask_eq_exp_minus_1)
qed

lemma meta_byte1:
  assumes "n < 128"
  shows "((if m then 128 else 0) OR of_nat n :: u8) AND 127 = of_nat n"
    and "bit ((if m then 128 else 0) OR of_nat n :: u8) 7 = m"
proof -
  have "(128 :: u8) AND 127 = 0" "bit (128 :: u8) 7" by code_simp+
  then show "((if m then 128 else 0) OR of_nat n :: u8) AND 127 = of_nat n"
    and "bit ((if m then 128 else 0) OR of_nat n :: u8) 7 = m"
    using byte_small [OF assms] by (simp_all add: bit.conj_disj_distrib2 bit_or_iff)
qed

lemma len_byte_word:
  assumes "n < 2 ^ 32"
  shows "len_byte n k = ucast (drop_bit (8 * k) (of_nat n :: u32))"
proof (rule word_unat_eq_iff [THEN iffD2])
  have "unat (of_nat n :: u32) = n" using assms by (simp add: unsigned_of_nat take_bit_nat_eq_self)
  then have "unat (drop_bit (8 * k) (of_nat n :: u32)) = n div 2 ^ (8 * k)"
    by (simp only: unat_drop_bit_eq) (simp add: drop_bit_eq_div)
  moreover have "(2 :: nat) ^ (8 * k) = 256 ^ k" by (simp add: power_mult)
  ultimately show "unat (len_byte n k) = unat (ucast (drop_bit (8 * k) (of_nat n :: u32)) :: u8)"
    by (simp add: len_byte_def unsigned_of_nat unsigned_ucast_eq take_bit_eq_mod)
qed

lemma byte_bit:
  assumes "k + 8 \<le> 32"
  shows "bit (push_bit k (ucast (ucast (drop_bit k w) :: u8)) :: u32) i \<longleftrightarrow>
    k \<le> i \<and> i < k + 8 \<and> bit (w :: u32) i"
  using assms by (auto simp: bit_simps)

lemma low_byte_bit: "bit (ucast (ucast w :: u8) :: u32) i \<longleftrightarrow> i < 8 \<and> bit (w :: u32) i"
  using byte_bit [of 0 w i] by simp

lemma join_bytes:
  "push_bit 24 (ucast (ucast (drop_bit 24 w) :: u8)) OR push_bit 16 (ucast (ucast (drop_bit 16 w) :: u8)) OR
   push_bit 8 (ucast (ucast (drop_bit 8 w) :: u8)) OR ucast (ucast w :: u8) = (w :: u32)"
proof (rule bit_word_eqI)
  fix i assume "i < LENGTH(32)"
  then have "i < 8 \<or> 8 \<le> i \<and> i < 16 \<or> 16 \<le> i \<and> i < 24 \<or> 24 \<le> i \<and> i < 32" by auto
  then show "bit (push_bit 24 (ucast (ucast (drop_bit 24 w) :: u8)) OR push_bit 16 (ucast (ucast (drop_bit 16 w) :: u8)) OR
      push_bit 8 (ucast (ucast (drop_bit 8 w) :: u8)) OR ucast (ucast w :: u8) :: u32) i = bit w i"
    unfolding bit_or_iff low_byte_bit by (simp add: byte_bit del: bit_push_bit_iff) auto
qed

lemma join_low_bytes:
  assumes "n < 0x10000"
  shows "push_bit 8 (ucast (len_byte n 1)) OR ucast (len_byte n 0) = (of_nat n :: u32)"
proof (rule bit_word_eqI)
  fix i assume i: "i < LENGTH(32)"
  have n: "n < 2 ^ 32" using assms by simp
  have "take_bit 16 (of_nat n :: u32) = of_nat n"
    using assms by (simp add: take_bit_of_nat take_bit_nat_eq_self)
  then have high: "\<not> bit (of_nat n :: u32) i" if "16 \<le> i"
    using that by (metis bit_take_bit_iff not_less)
  from i have "i < 8 \<or> 8 \<le> i \<and> i < 16 \<or> 16 \<le> i" by auto
  with high i show "bit (push_bit 8 (ucast (len_byte n 1)) OR ucast (len_byte n 0) :: u32) i = bit (of_nat n :: u32) i"
    unfolding bit_or_iff using byte_bit [of 8 "of_nat n :: u32" i] low_byte_bit [of "of_nat n :: u32" i]
    by (auto simp: len_byte_word [OF n])
qed

definition ws_index :: "nat \<Rightarrow> nat" where
  "ws_index len = 2 + length (ws_extended len)"

text \<open>What the parser has in its header once it has read the length.\<close>

definition ws_read :: "ws_header \<Rightarrow> u8 \<Rightarrow> bool \<Rightarrow> nat \<Rightarrow> ws_header" where
  "ws_read h opcode masked len =
     h\<lparr>ws_byte0 := 128 OR opcode, ws_byte1 := ws_meta opcode masked len ! 1, ws_length := of_nat len\<rparr>"

lemma ws_parse_length:
  assumes "n < 2 ^ 32" "packet = map char_of_byte (ws_meta opcode masked n @ ws_extended n) @ r"
  shows "ws_parse h packet = ws_payload (ws_read h opcode masked n) packet (ws_index n)"
    and "ws_masked (ws_read h opcode masked n) = masked"
proof -
  consider "n < 126" | "126 \<le> n" "n < 0x10000" | "0x10000 \<le> n" by linarith
  then have "ws_parse h packet = ws_payload (ws_read h opcode masked n) packet (ws_index n) \<and>
      ws_masked (ws_read h opcode masked n) = masked"
  proof cases
    case 1
    have b: "byte_of (packet ! 0) = 128 OR opcode" "byte_of (packet ! 1) = ws_meta opcode masked n ! 1"
      "2 \<le> length packet"
      by (simp_all add: assms(2) ws_meta_def Let_def)
    have n8: "unat (of_nat n :: u8) = n" using 1 by (simp add: unsigned_of_nat take_bit_nat_eq_self)
    have m1: "ws_meta opcode masked n ! 1 = (if masked then 128 else 0) OR of_nat n"
      using 1 by (simp add: ws_meta_def)
    have ne: "(of_nat n :: u8) \<noteq> 126" "(of_nat n :: u8) \<noteq> 127"
      using n8 1 by (auto dest: arg_cong [where f = unat])
    have uc: "ucast (of_nat n :: u8) = (of_nat n :: u32)"
      using n8 1 by (simp add: word_unat_eq_iff unsigned_ucast_eq unsigned_of_nat take_bit_nat_eq_self)
    from 1 b m1 ne uc meta_byte1 [of n masked] show ?thesis
      by (simp add: ws_parse_def ws_read_def ws_index_def ws_extended_def ws_payloadlen_def ws_masked_def Let_def)
  next
    case 2
    have b: "byte_of (packet ! 0) = 128 OR opcode" "byte_of (packet ! 1) = ws_meta opcode masked n ! 1"
      "4 \<le> length packet" "ws_word packet 2 = ucast (len_byte n 1)" "ws_word packet 3 = ucast (len_byte n 0)"
      using 2 by (simp_all add: assms(2) ws_meta_def ws_extended_def ws_word_def Let_def)
    have m1: "ws_meta opcode masked n ! 1 = (if masked then 128 else 0) OR of_nat 126"
      using 2 by (simp add: ws_meta_def)
    from 2 b m1 meta_byte1 [of 126 masked] join_low_bytes [of n] show ?thesis
      by (simp add: ws_parse_def ws_read_def ws_index_def ws_extended_def ws_payloadlen_def ws_masked_def Let_def)
  next
    case 3
    have b: "byte_of (packet ! 0) = 128 OR opcode" "byte_of (packet ! 1) = ws_meta opcode masked n ! 1"
      "10 \<le> length packet" "ws_word packet 6 = ucast (len_byte n 3)" "ws_word packet 7 = ucast (len_byte n 2)"
      "ws_word packet 8 = ucast (len_byte n 1)" "ws_word packet 9 = ucast (len_byte n 0)"
      using 3 by (simp_all add: assms(2) ws_meta_def ws_extended_def ws_word_def Let_def)
    have m1: "ws_meta opcode masked n ! 1 = (if masked then 128 else 0) OR of_nat 127"
      using 3 by (simp add: ws_meta_def)
    from 3 b m1 meta_byte1 [of 127 masked] join_bytes [of "of_nat n"] show ?thesis
      by (simp add: ws_parse_def ws_read_def ws_index_def ws_extended_def ws_payloadlen_def ws_masked_def
          len_byte_word [OF assms(1)] Let_def)
  qed
  then show "ws_parse h packet = ws_payload (ws_read h opcode masked n) packet (ws_index n)"
    and "ws_masked (ws_read h opcode masked n) = masked" by simp_all
qed

section \<open>Frames\<close>

lemma length_ws_meta [simp]: "length (ws_meta opcode m n) = 2"
  by (simp add: ws_meta_def Let_def)

lemma ws_build_form:
  assumes "length key = 4"
  shows "ws_build opcode payload msk key =
     map char_of_byte (ws_meta opcode (msk \<and> payload \<noteq> []) (length payload) @ ws_extended (length payload)) @
       (if msk \<and> payload \<noteq> [] then map char_of_byte key @ xor_mask key payload else payload)"
proof (cases "msk \<and> payload \<noteq> []")
  case True
  let ?h = "ws_meta opcode True (length payload) @ ws_extended (length payload)"
  have "length (map char_of_byte (?h @ key)) = length ?h + 4" using assms by simp
  then have "xor_run key (length ?h + 4) 0 (length payload) (map char_of_byte (?h @ key) @ payload) =
      map char_of_byte (?h @ key) @ xor_mask key payload"
    using xor_run_mask [of key "map char_of_byte (?h @ key)" payload "[]"] by simp
  with True show ?thesis by (simp add: ws_build_def Let_def)
qed (auto simp: ws_build_def Let_def)

lemma ws_index_bound: "ws_index n \<le> 10"
  by (simp add: ws_index_def ws_extended_def)

lemma ws_shortI:
  assumes "i + n < 2 ^ 32" "length packet < 2 ^ 32"
  shows "ws_short packet (of_nat i) (of_nat n) \<longleftrightarrow> length packet < i + n"
proof -
  have "(of_nat i + of_nat n :: u32) = of_nat (i + n)" by simp
  moreover have "unat (of_nat (i + n) :: u32) = i + n" "unat (of_nat (length packet) :: u32) = length packet"
    using assms by (simp_all add: unsigned_of_nat take_bit_nat_eq_self del: of_nat_add)
  ultimately show ?thesis by (simp add: ws_short_def word_less_nat_alt del: of_nat_add)
qed

lemma ws_read_bits:
  assumes "opcode < 16"
  shows "ws_opcode (ws_read h opcode m n) = opcode" "ws_fin (ws_read h opcode m n)"
proof -
  have "(128 :: u8) AND 15 = 0" "bit (128 :: u8) 7" by code_simp+
  moreover have "opcode AND mask 4 = opcode"
    using assms
    by (simp add: word_unat_eq_iff unsigned_take_bit_eq take_bit_nat_eq_self word_less_nat_alt
        flip: take_bit_eq_mask)
  then have "opcode AND 15 = opcode" by (simp add: mask_eq_exp_minus_1)
  ultimately show "ws_opcode (ws_read h opcode m n) = opcode" "ws_fin (ws_read h opcode m n)"
    by (simp_all add: ws_read_def ws_opcode_def ws_fin_def bit.conj_disj_distrib2 bit_or_iff)
qed

lemma ws_parse_built:
  fixes payload rest :: string
  defines "n \<equiv> length payload"
  assumes "length key = 4" and "n + 14 + length rest < 2 ^ 32"
    and "m = (msk \<and> payload \<noteq> [])" and "i = ws_index n + (if m then 4 else 0)"
    and "h1 = (ws_read h opcode m n)\<lparr>ws_mask := (if m then key else ws_mask h), ws_start := of_nat i\<rparr>"
  shows "ws_parse h (ws_build opcode payload msk key @ rest) =
           Ws_Success h1 (take i (ws_build opcode payload msk key) @ payload @ rest)"
    and "length (ws_build opcode payload msk key) = i + n"
proof -
  let ?hd = "map char_of_byte (ws_meta opcode m n @ ws_extended n)"
  let ?pk = "ws_build opcode payload msk key @ rest"
  have n32: "n < 2 ^ 32" using assms(3) by simp
  have build: "ws_build opcode payload msk key =
      ?hd @ (if m then map char_of_byte key @ xor_mask key payload else payload)"
    using ws_build_form [OF assms(2), of opcode payload msk] by (simp add: n_def assms(4))
  have hd: "length ?hd = ws_index n" by (simp add: ws_index_def)
  show len: "length (ws_build opcode payload msk key) = i + n"
    using hd assms(2) by (simp add: build assms(5)) (simp add: n_def)
  have i: "i \<le> 14" using ws_index_bound [of n] by (simp add: assms(5))
  have un: "unat (of_nat n :: u32) = n" using n32 by (simp add: unsigned_of_nat take_bit_nat_eq_self)
  have lp: "length ?pk = i + n + length rest" using len by simp
  have short: "\<not> ws_short ?pk (of_nat i) (of_nat n)"
    using ws_shortI [of i n ?pk] i assms(3) lp by simp
  have parse: "ws_parse h ?pk = ws_payload (ws_read h opcode m n) ?pk (ws_index n)"
    and masked: "ws_masked (ws_read h opcode m n) = m"
    using ws_parse_length [OF n32, of ?pk opcode m _ h] by (simp_all add: build)
  have rd: "ws_length (ws_read h opcode m n) = of_nat n" "ws_mask (ws_read h opcode m n) = ws_mask h"
    by (simp_all add: ws_read_def)
  show "ws_parse h ?pk = Ws_Success h1 (take i (ws_build opcode payload msk key) @ payload @ rest)"
  proof (cases m)
    case True
    have ix: "i = ws_index n + 4" by (simp add: assms(5) True)
    have pk: "?pk = (?hd @ map char_of_byte key) @ xor_mask key payload @ rest"
      by (simp add: build True)
    have key: "map byte_of (take 4 (drop (ws_index n) ?pk)) = key"
      using hd assms(2) by (simp add: pk comp_def)
    have il: "i = length (?hd @ map char_of_byte key)"
      using hd assms(2) by (simp only: length_append length_map ix)
    have run: "xor_run key i 0 n ?pk = (?hd @ map char_of_byte key) @ payload @ rest"
      using xor_run_mask [of key "?hd @ map char_of_byte key" "xor_mask key payload" rest]
      unfolding pk n_def by (simp only: il length_xor_mask xor_mask_mask n_def)
    have tk: "take i (ws_build opcode payload msk key) = ?hd @ map char_of_byte key"
      using hd assms(2) by (simp add: build True ix)
    have "\<not> length ?pk < ws_index n + 4" "\<not> length ?pk < ws_index n + 4 + n" using lp ix by simp_all
    then show ?thesis
      using True masked short rd un key run tk
      by (simp add: parse ws_payload_def Let_def ix assms(6) del: append_assoc of_nat_add)
  next
    case False
    have "take i (ws_build opcode payload msk key) @ payload = ws_build opcode payload msk key"
      using hd by (simp add: build False assms(5))
    then have "take i (ws_build opcode payload msk key) @ payload @ rest = ?pk" by simp
    with False masked short rd show ?thesis
      by (simp add: parse ws_payload_def assms(5,6))
  qed
qed

lemma word_small: "k < 2 ^ 32 \<Longrightarrow> unat (of_nat k :: u32) = k"
  by (simp add: unsigned_of_nat take_bit_nat_eq_self)

lemma start_small: "k \<le> 14 \<Longrightarrow> unat (of_nat k :: u8) = k"
  by (simp add: unsigned_of_nat take_bit_nat_eq_self)

section \<open>Properties\<close>

text \<open>C31: Websocket frames survive the round trip, masked or not, in all three length forms, with
  whatever follows them in the receive string.  Parsing what \<open>BuildPacket\<close> built succeeds and
  gives the opcode, FIN, and the length and position of the payload, which stands unmasked in
  the string; the position and length together are the size of the frame, and what follows the
  frame is untouched.\<close>

theorem ws_roundtrip:
  assumes "length key = 4" and "opcode < 16" and "length payload + 14 + length rest < 2 ^ 32"
  shows "\<exists>h1 packet. ws_parse h (ws_build opcode payload msk key @ rest) = Ws_Success h1 packet \<and>
     ws_opcode h1 = opcode \<and> ws_fin h1 \<and> ws_masked h1 = (msk \<and> payload \<noteq> []) \<and>
     unat (ws_length h1) = length payload \<and>
     substr packet (unat (ws_start h1)) (unat (ws_length h1)) = payload \<and>
     drop (unat (ws_start h1) + unat (ws_length h1)) packet = rest \<and>
     unat (ws_start h1) + unat (ws_length h1) = length (ws_build opcode payload msk key)"
proof -
  define n where "n = length payload"
  define m where "m \<longleftrightarrow> msk \<and> payload \<noteq> []"
  define i where "i = ws_index n + (if m then 4 else 0)"
  define H where "H = (ws_read h opcode m n)\<lparr>ws_mask := (if m then key else ws_mask h), ws_start := of_nat i\<rparr>"
  define P where "P = take i (ws_build opcode payload msk key) @ payload @ rest"
  have p1: "ws_parse h (ws_build opcode payload msk key @ rest) = Ws_Success H P"
    and p2: "length (ws_build opcode payload msk key) = i + n"
    unfolding P_def n_def
    by (rule ws_parse_built [OF assms(1,3) m_def]; simp add: i_def H_def n_def)+
  have "i \<le> 14" using ws_index_bound [of n] by (simp add: i_def)
  then have st: "unat (ws_start H) = i" by (simp add: H_def start_small)
  have n32: "n < 2 ^ 32" using assms(3) by (simp add: n_def)
  then have un: "unat (ws_length H) = n" by (simp add: H_def ws_read_def word_small)
  have tk: "length (take i (ws_build opcode payload msk key)) = i" using p2 by simp
  have bits: "ws_opcode H = opcode" "ws_fin H" "ws_masked H = m"
    using ws_read_bits [OF assms(2), of h m n]
      ws_parse_length(2) [OF n32 refl, where h = h and opcode = opcode and masked = m]
    by (simp_all add: H_def ws_opcode_def ws_fin_def ws_masked_def)
  have sub: "substr P i n = payload" "drop (i + n) P = rest"
    using tk by (simp_all add: P_def substr_def n_def)
  show ?thesis
    using p1 p2 bits st un sub m_def by (intro exI [of _ H] exI [of _ P]) (simp add: n_def)
qed

definition ws_demo_header :: ws_header where
  "ws_demo_header = \<lparr>ws_byte0 = 0, ws_byte1 = 0, ws_start = 0, ws_length = 0, ws_mask = []\<rparr>"

lemma ws_roundtrip_witness:
  "\<exists>h1 packet. ws_parse ws_demo_header (ws_build 1 ''hello'' True [1, 2, 3, 4] @ ''next'') = Ws_Success h1 packet \<and>
     substr packet (unat (ws_start h1)) (unat (ws_length h1)) = ''hello'' \<and>
     drop (unat (ws_start h1) + unat (ws_length h1)) packet = ''next''"
proof -
  have "length [1, 2, 3, 4 :: u8] = 4" "(1 :: u8) < 16" "length ''hello'' + 14 + length ''next'' < 2 ^ 32"
    by simp_all
  from ws_roundtrip [OF this, of ws_demo_header True] show ?thesis by blast
qed

text \<open>A frame that has not arrived completely is not consumed: parsing any proper prefix of a
  built frame fails and leaves the receive string as it was, so the next segment can complete
  the frame.\<close>

theorem ws_incomplete:
  assumes "length key = 4" and "length payload + 14 < 2 ^ 32"
    and "k < length (ws_build opcode payload msk key)"
  shows "\<exists>h1. ws_parse h (take k (ws_build opcode payload msk key)) =
           Ws_Fail h1 (take k (ws_build opcode payload msk key))"
proof -
  define n where "n = length payload"
  define m where "m \<longleftrightarrow> msk \<and> payload \<noteq> []"
  define fr where "fr = ws_build opcode payload msk key"
  define i where "i = ws_index n + (if m then 4 else 0)"
  let ?hd = "map char_of_byte (ws_meta opcode m n @ ws_extended n)"
  let ?pk = "take k fr"
  have build: "fr = ?hd @ (if m then map char_of_byte key @ xor_mask key payload else payload)"
    using ws_build_form [OF assms(1), of opcode payload msk] by (simp add: fr_def n_def m_def)
  have hd: "length ?hd = ws_index n" by (simp add: ws_index_def)
  have len: "length fr = i + n" using hd assms(1) by (simp add: build i_def) (simp add: n_def)
  have k: "k < i + n" "length ?pk = k" using assms(3) len by (simp_all add: fr_def)
  have i14: "i \<le> 14" using ws_index_bound [of n] by (simp add: i_def)
  have n32: "n < 2 ^ 32" using assms(2) by (simp add: n_def)
  have "\<exists>h1. ws_parse h ?pk = Ws_Fail h1 ?pk"
  proof (cases "k < ws_index n")
    case True
    show ?thesis
    proof (cases "k < 2")
      case True
      then show ?thesis using k(2) by (simp add: ws_parse_def)
    next
      case False
      have b1: "byte_of (?pk ! 1) = ws_meta opcode m n ! 1"
        using False by (simp add: build nth_append ws_meta_def Let_def)
      have "\<not> n < 126" using False True by (auto simp: ws_index_def ws_extended_def split: if_splits)
      with False True k(2) b1 meta_byte1 [of 126 m] meta_byte1 [of 127 m] show ?thesis
        by (auto simp: ws_parse_def ws_payloadlen_def ws_index_def ws_extended_def ws_meta_def Let_def
            split: if_splits)
    qed
  next
    case False
    have pk: "?pk = ?hd @ take (k - ws_index n) (if m then map char_of_byte key @ xor_mask key payload else payload)"
      using False hd by (simp add: build)
    have parse: "ws_parse h ?pk = ws_payload (ws_read h opcode m n) ?pk (ws_index n)"
      and masked: "ws_masked (ws_read h opcode m n) = m"
      using ws_parse_length [OF n32 pk] by simp_all
    have "ws_short ?pk (of_nat i) (of_nat n)"
      using ws_shortI [of i n ?pk] i14 assms(2) k by (simp add: n_def)
    then show ?thesis
      using masked k by (auto simp: parse ws_payload_def i_def ws_read_def Let_def)
  qed
  then show ?thesis by (simp add: fr_def)
qed

lemma ws_incomplete_witness:
  "\<exists>h1. ws_parse ws_demo_header (take 7 (ws_build 1 ''hello'' True [1, 2, 3, 4])) =
         Ws_Fail h1 (take 7 (ws_build 1 ''hello'' True [1, 2, 3, 4]))"
proof -
  have "length [1, 2, 3, 4 :: u8] = 4" "length ''hello'' + 14 < 2 ^ 32"
    "7 < length (ws_build 1 ''hello'' True [1, 2, 3, 4])"
    by (simp_all add: ws_build_def ws_meta_def ws_extended_def)
  from ws_incomplete [OF this] show ?thesis .
qed

lemma ws_payload_fault:
  "ws_masked h \<Longrightarrow> i + 4 \<le> length packet \<Longrightarrow> \<not> ws_short packet (of_nat (i + 4)) (ws_length h) \<Longrightarrow>
   length packet < i + 4 + unat (ws_length h) \<Longrightarrow> ws_payload h packet i = Ws_Fault"
  by (simp add: ws_payload_def Let_def)

text \<open>The bounds check of the parser wraps.  A masked frame in the 64-bit length form whose
  low length word is at least $2^{32} - 14$ passes it, whatever its masking key, and the
  unmasking loop writes outside the receive string.\<close>

theorem ws_length_wraps:
  assumes "length key = 4" and "length rest + 14 < 2 ^ 32" and "2 ^ 32 - 14 \<le> len" and "len < 2 ^ 32"
  shows "ws_parse h (map char_of_byte ([129, 255] @ [0, 0, 0, 0, len_byte len 3, len_byte len 2,
           len_byte len 1, len_byte len 0]) @ map char_of_byte key @ rest) = Ws_Fault"
proof -
  let ?pk = "map char_of_byte ([129, 255] @ [0, 0, 0, 0, len_byte len 3, len_byte len 2,
           len_byte len 1, len_byte len 0]) @ map char_of_byte key @ rest"
  have h: "[129, 255] @ [0, 0, 0, 0, len_byte len 3, len_byte len 2, len_byte len 1, len_byte len 0] =
      ws_meta 1 True len @ ws_extended len"
    using assms(3) by (simp add: ws_meta_def ws_extended_def)
  have pk: "?pk = map char_of_byte (ws_meta 1 True len @ ws_extended len) @ map char_of_byte key @ rest"
    unfolding h [symmetric] ..
  have parse: "ws_parse h ?pk = ws_payload (ws_read h 1 True len) ?pk (ws_index len)"
    and masked: "ws_masked (ws_read h 1 True len)"
    using ws_parse_length [OF assms(4) pk] by simp_all
  have ix: "ws_index len = 10" using assms(3) by (simp add: ws_index_def ws_extended_def)
  have lp: "length ?pk = 14 + length rest" using assms(1) by simp
  have un: "unat (of_nat len :: u32) = len" using assms(4) by (simp add: unsigned_of_nat take_bit_nat_eq_self)
  obtain d where d: "len = 2 ^ 32 - 14 + d" using assms(3) le_Suc_ex by blast
  have "unat (14 + of_nat len :: u32) = (14 + len) mod 2 ^ 32"
    by (simp add: unat_word_ariths un)
  also have "(14 + len) mod 2 ^ 32 = (d + 2 ^ 32) mod 2 ^ 32" by (simp add: d)
  also have "\<dots> < 14" unfolding mod_add_self2 using assms(4) d by simp
  finally have "unat (14 + of_nat len :: u32) < 14" .
  moreover have "unat (of_nat (length ?pk) :: u32) = 14 + length rest"
    using assms(2) unfolding lp by (intro word_small) simp
  ultimately have "\<not> ws_short ?pk 14 (of_nat len)"
    unfolding ws_short_def word_less_nat_alt by linarith
  then have "ws_payload (ws_read h 1 True len) ?pk 10 = Ws_Fault"
    by (intro ws_payload_fault)
      (use masked lp un assms(2,3) in \<open>simp_all add: ws_read_def del: length_append length_map list.map\<close>)
  then show ?thesis unfolding parse ix .
qed

lemma ws_length_wraps_witness:
  "ws_parse ws_demo_header (map char_of_byte ([129, 255] @ [0, 0, 0, 0, len_byte 4294967295 3,
     len_byte 4294967295 2, len_byte 4294967295 1, len_byte 4294967295 0]) @
     map char_of_byte [1, 2, 3, 4] @ ''x'') = Ws_Fault"
  by (rule ws_length_wraps) simp_all


section \<open>Building in a text buffer\<close>

definition txt_header :: "u8 \<Rightarrow> bool \<Rightarrow> u8 list \<Rightarrow> nat \<Rightarrow> u8 list" where
  "txt_header opcode masked key len = ws_meta opcode masked len @ ws_extended len @ (if masked then key else [])"

lemma txt_header_nonempty: "txt_header opcode masked key len \<noteq> []"
  by (simp add: txt_header_def ws_meta_def)

lemma length_txt_header: "length key = 4 \<Longrightarrow> length (txt_header opcode masked key len) \<le> 14"
  by (simp add: txt_header_def ws_meta_def ws_extended_def)

text \<open>The insertion of the header, by the contract of the text buffer.\<close>

lemma ws_txt_insert:
  assumes "txt_ok t"
  obtains u where
    "txt_insert mem 0 (map char_of_byte (txt_header opcode masked key len))
       (length (txt_header opcode masked key len)) t = Some u"
    "txt_ok u" "txt_text u = map char_of_byte (txt_header opcode masked key len) @ txt_text t"
  using tbuf.prepend [OF assms, of "map char_of_byte (txt_header opcode masked key len)" mem]
    txt_header_nonempty by auto

text \<open>C32: Without masking, which is how the server sends, the builder that works in place on a
  text buffer puts exactly the frame that the string builder makes into it, and leaves a
  well-formed buffer.\<close>

theorem ws_build_txt_frame:
  assumes "txt_ok t" and "\<not> msk \<or> txt_text t = []"
  shows "\<exists>u. ws_build_txt mem opcode t msk key = Some u \<and> txt_ok u \<and>
           txt_text u = ws_build opcode (txt_text t) msk key"
proof -
  let ?n = "length (txt_text t)"
  obtain u where u: "txt_insert mem 0 (map char_of_byte (txt_header opcode False key ?n))
       (length (txt_header opcode False key ?n)) t = Some u"
    "txt_ok u" "txt_text u = map char_of_byte (txt_header opcode False key ?n) @ txt_text t"
    by (rule ws_txt_insert [OF assms(1)])
  have n: "tx_endptr t = ?n" using assms(1) by simp
  have m: "(msk \<and> ?n > 0) = False" using assms(2) by auto
  show ?thesis
    using u unfolding ws_build_txt_def ws_build_def n Let_def m by (simp add: txt_header_def)
qed

lemma ws_build_txt_frame_witness:
  "\<exists>u. ws_build_txt (\<lambda>_. NUL) 1 (txt_of (\<lambda>_. NUL) ''hi'' 2 0) False [1, 2, 3, 4] = Some u \<and> txt_ok u \<and>
     txt_text u = ws_build 1 (txt_text (txt_of (\<lambda>_. NUL) ''hi'' 2 0)) False [1, 2, 3, 4]"
proof -
  have "txt_ok (txt_of (\<lambda>_. NUL) ''hi'' 2 0)" by code_simp
  from ws_build_txt_frame [OF this, of False] show ?thesis by simp
qed

lemma ws_build_masked:
  assumes "length key = 4" "payload \<noteq> []"
  shows "ws_build opcode payload True key =
    map char_of_byte (txt_header opcode True key (length payload)) @ xor_mask key payload"
  using ws_build_form [OF assms(1), of opcode payload True] assms(2) by (simp add: txt_header_def)

lemma txt_put_bufsiz: "txt_put i cs t = Some u \<Longrightarrow> tx_bufsiz u = tx_bufsiz t"
  by (auto simp: txt_put_def split: option.splits if_splits)

lemma txt_insert_fits:
  assumes "txt_insert mem 0 cs n t = Some u" "n \<noteq> 0" "tx_endptr t + n < tx_bufsiz t"
  shows "tx_bufsiz u = tx_bufsiz t"
proof -
  obtain t1 t2 where t: "txt_expand mem 0 n t = Some t1" "txt_put 0 (take n cs) t1 = Some t2" "txt_end t2 = Some u"
    using assms(1,2) by (auto simp: txt_insert_def bind_eq_Some_conv)
  have "txt_grow mem n t = Some t" using assms(3) by (simp add: txt_grow_def)
  with t(1) have "tx_bufsiz t1 = tx_bufsiz t"
    by (auto simp: txt_expand_def Let_def split: option.splits if_splits)
  then show ?thesis using t(2,3) by (simp add: txt_put_bufsiz txt_end_def)
qed

text \<open>With masking, the in-place builder does not stop at the end of the payload: its loop
  also runs over the terminator and the bytes behind it, as many as the header has.  The frame
  is right, but the buffer is no longer a terminated string unless a key byte happens to be
  zero.\<close>

theorem ws_build_txt_overrun:
  assumes "txt_ok t" and "txt_text t \<noteq> []" and "length key = 4"
    and "tx_endptr t + 28 \<le> tx_bufsiz t"
  shows "\<exists>u. ws_build_txt mem opcode t True key = Some u \<and>
           txt_text u = ws_build opcode (txt_text t) True key \<and>
           txt_ok u = (key ! (tx_endptr t mod 4) = 0)"
proof -
  define n where "n = length (txt_text t)"
  define hd where "hd = txt_header opcode True key n"
  have n: "tx_endptr t = n" "0 < n"
    using assms(2) length_txt_text [OF assms(1)] by (simp_all add: n_def del: length_txt_text flip: length_greater_0_conv)
  obtain u where ins: "txt_insert mem 0 (map char_of_byte hd) (length hd) t = Some u"
    and u: "txt_ok u" "txt_text u = map char_of_byte hd @ txt_text t"
    unfolding hd_def by (rule ws_txt_insert [OF assms(1)])
  from u(1) obtain buf where buf: "tx_buffer u = Some buf" "length buf = tx_bufsiz u"
    "tx_endptr u < length buf" "buf ! tx_endptr u = NUL" "txt_text u = take (tx_endptr u) buf"
    by (rule txt_okE)
  have e: "tx_endptr u = length hd + n" using length_txt_text [OF u(1)] u(2) by (simp add: n_def)
  have "hd \<noteq> []" unfolding hd_def by (rule txt_header_nonempty)
  have l14: "length hd \<le> 14" unfolding hd_def by (rule length_txt_header [OF assms(3)])
  have "tx_bufsiz u = tx_bufsiz t"
    by (rule txt_insert_fits [OF ins]) (use l14 assms(4) txt_header_nonempty in \<open>simp_all add: hd_def\<close>)
  then have room: "length hd + tx_endptr u \<le> length buf" using buf(2) e l14 assms(4) n by linarith
  let ?b = "xor_run key (length hd) 0 (tx_endptr u) buf"
  let ?u = "u\<lparr>tx_buffer := Some ?b\<rparr>"
  have "(True \<and> 0 < n) = True" using n by simp
  with ins buf(1) room n have "ws_build_txt mem opcode t True key = Some ?u"
    unfolding ws_build_txt_def Let_def n(1) by (simp add: hd_def txt_header_def)
  moreover have "txt_text ?u = ws_build opcode (txt_text t) True key"
  proof -
    have "take (tx_endptr u) ?b = map char_of_byte hd @ xor_mask key (txt_text t)"
    proof (rule nth_equalityI)
      show "length (take (tx_endptr u) ?b) = length (map char_of_byte hd @ xor_mask key (txt_text t))"
        using buf(3) e by (simp add: n_def)
      fix k assume "k < length (take (tx_endptr u) ?b)"
      then have k: "k < tx_endptr u" by simp
      have bk: "buf ! k = (map char_of_byte hd @ txt_text t) ! k"
        using k buf(5) u(2) by (metis nth_take)
      have "?b ! k = (if length hd \<le> k then char_of_byte (byte_of (buf ! k) XOR key ! ((k - length hd) mod 4))
          else buf ! k)"
        using k room by (subst xor_run_nth) auto
      with k e show "take (tx_endptr u) ?b ! k = (map char_of_byte hd @ xor_mask key (txt_text t)) ! k"
        by (auto simp: bk nth_append xor_mask_def n_def)
    qed
    then show ?thesis
      using ws_build_masked [OF assms(3,2), of opcode] by (simp add: txt_text_def hd_def n_def)
  qed
  moreover have "txt_ok ?u = (key ! (tx_endptr t mod 4) = 0)"
  proof -
    have "?b ! tx_endptr u = char_of_byte (byte_of NUL XOR key ! (n mod 4))"
      using room buf(3,4) e \<open>hd \<noteq> []\<close> n by (subst xor_run_nth) auto
    also have "byte_of NUL = 0" by code_simp
    finally have b: "?b ! tx_endptr u = char_of_byte (key ! (n mod 4))" by simp
    have "NUL = char_of_byte 0" by code_simp
    then have "char_of_byte w = NUL \<longleftrightarrow> w = 0" for w by (metis char_of_byte_eq_iff)
    with b buf show ?thesis by (simp add: txt_ok_def n)
  qed
  ultimately show ?thesis by blast
qed

lemma ws_build_txt_overrun_witness:
  "\<exists>u. ws_build_txt (\<lambda>_. NUL) 1 (txt_of (\<lambda>_. NUL) ''hi'' 2 0) True [1, 2, 3, 4] = Some u \<and>
     txt_text u = ws_build 1 (txt_text (txt_of (\<lambda>_. NUL) ''hi'' 2 0)) True [1, 2, 3, 4] \<and>
     \<not> txt_ok u"
proof -
  let ?t = "txt_of (\<lambda>_. NUL) ''hi'' 2 0"
  have "txt_ok ?t" "txt_text ?t \<noteq> []" "length [1, 2, 3, 4 :: u8] = 4" "tx_endptr ?t + 28 \<le> tx_bufsiz ?t"
    by code_simp+
  note * = ws_build_txt_overrun [OF this, of "\<lambda>_. NUL" 1]
  have "([1, 2, 3, 4] ! (tx_endptr ?t mod 4) = (0 :: u8)) = False" by code_simp
  with * show ?thesis by auto
qed

end
