(* ===== verification/Http_Request.thy ===== *)
theory Http_Request
  imports Txt "HOL-Library.While_Combinator" "HOL-Library.List_Lexorder" "HOL-Library.Char_ord"
begin

text \<open>
  The HTTP request of a client (\<open>network/httprequest.h\<close>, \<open>network/httprequest.cpp\<close>): splitting
  the receive string into header lines and a body, header, cookie and query lookup, decoding of
  posted data in place, and the static functions that put a header on a reply.

  The object points into the receive string; a pointer is an offset into it (\<open>None\<close> for the
  null pointer), and the operations that write through such a pointer return the string.  A
  \<open>std::out_of_range\<close> that nothing catches is the error value of a sum.  Two loops of the code
  need not end; they are \<open>while_option\<close> loops, and not returning is the result \<open>None\<close>.
\<close>

section \<open>Definitions\<close>

datatype http_error = Out_Of_Range

record http_request =
  hr_headers :: "string list"
  hr_body_offset :: nat
  hr_body_size :: nat
  hr_body :: "nat option"
  hr_post :: "(string \<times> nat) list"
  hr_user :: string

definition http_new :: http_request where
  "http_new = \<lparr>hr_headers = [], hr_body_offset = 0, hr_body_size = 0, hr_body = None, hr_post = [],
     hr_user = []\<rparr>"

definition http_clear :: "http_request \<Rightarrow> http_request" where
  "http_clear r = r\<lparr>hr_headers := [], hr_body_offset := 0, hr_body_size := 0, hr_body := None, hr_post := []\<rparr>"

definition http_complete :: "http_request \<Rightarrow> bool" where
  "http_complete r \<longleftrightarrow> hr_body r \<noteq> None"

definition CRLF :: string where "CRLF = [CR, LF]"
definition BLANK :: char where "BLANK = CHR 0x20"
definition QUOTE :: char where "QUOTE = CHR 0x22"

subsection \<open>Header lines\<close>

text \<open>The loop that cuts the header lines off, from \<open>i1\<close> on; it ends at an empty line.\<close>

function header_lines :: "string \<Rightarrow> nat \<Rightarrow> string list \<times> nat option" where
  "header_lines rqst i1 =
     (case str_find rqst CRLF i1 of
        None \<Rightarrow> ([], None)
      | Some i2 \<Rightarrow>
          if i2 = i1 then ([], Some i2)
          else (let (ls, stop) = header_lines rqst (i2 + 2)
                in (substr rqst i1 (i2 - i1) # ls, stop)))"
  by pat_completeness auto

termination
  by (relation "measure (\<lambda>(rqst, i1). length rqst - i1)")
    (auto simp: CRLF_def dest!: str_find_bound)

declare header_lines.simps [simp del]

text \<open>\<open>headerIndex\<close> with -1 as \<open>None\<close>, and \<open>header\<close>, whose \<open>substr\<close> throws on an empty value.\<close>

definition header_named :: "string \<Rightarrow> string \<Rightarrow> bool" where
  "header_named name h =
     (case find_char (CHR '':'') h 0 of
        None \<Rightarrow> False
      | Some i1 \<Rightarrow> strcasecmp_eq (substr h 0 i1) name)"

definition header_index :: "string list \<Rightarrow> string \<Rightarrow> nat \<Rightarrow> nat option" where
  "header_index headers name from = find_if (header_named name) headers from"

definition header_at :: "string list \<Rightarrow> nat option \<Rightarrow> http_error + (string \<times> string)" where
  "header_at headers index =
     (case index of
        None \<Rightarrow> Inr ([], [])
      | Some i \<Rightarrow>
          if 0 < i \<and> i < length headers
          then (let h = headers ! i in
                case find_char (CHR '':'') h 0 of
                  None \<Rightarrow> Inr ([], [])
                | Some i1 \<Rightarrow>
                    (case find_first_not_of [BLANK] h (i1 + 1) of
                       None \<Rightarrow> Inl Out_Of_Range
                     | Some i2 \<Rightarrow>
                         Inr (substr h 0 i1, substr_to h i2 (find_first_of CRLF h i2))))
          else Inr ([], []))"

definition header_value :: "string list \<Rightarrow> string \<Rightarrow> http_error + string" where
  "header_value headers name =
     (case header_at headers (header_index headers name 0) of
        Inl e \<Rightarrow> Inl e
      | Inr p \<Rightarrow> Inr (snd p))"

text \<open>\<open>std::stoul\<close> with its two exceptions as \<open>None\<close>; \<open>unsigned long\<close> has 32 bits.\<close>

definition isspace :: "char \<Rightarrow> bool" where
  "isspace c \<longleftrightarrow> (let n = of_char c :: nat in n = 32 \<or> 9 \<le> n \<and> n \<le> 13)"

definition stoul :: "string \<Rightarrow> nat option" where
  "stoul s =
     (let s1 = dropWhile isspace s;
          neg = (s1 \<noteq> [] \<and> hd s1 = CHR ''-'');
          s2 = (if s1 \<noteq> [] \<and> (hd s1 = CHR ''-'' \<or> hd s1 = CHR ''+'') then tl s1 else s1);
          v = read_digits s2
      in if s2 = [] \<or> \<not> digit (hd s2) \<or> v \<ge> 2 ^ 32 then None
         else Some (if neg then (2 ^ 32 - v) mod 2 ^ 32 else v))"

definition content_length :: "string list \<Rightarrow> http_error + nat" where
  "content_length headers =
     (case header_index headers ''Content-Length'' 0 of
        None \<Rightarrow> Inr 0
      | Some i \<Rightarrow>
          if i > 0
          then (case header_at headers (Some i) of
                  Inl e \<Rightarrow> Inl e
                | Inr p \<Rightarrow> Inr (case stoul (snd p) of Some cl \<Rightarrow> cl | None \<Rightarrow> 0))
          else Inr 0)"

subsection \<open>The request line\<close>

definition http_token :: "nat \<Rightarrow> http_request \<Rightarrow> string" where
  "http_token n r =
     (case hr_headers r of
        [] \<Rightarrow> []
      | h # hs \<Rightarrow>
          (let tokens = txt_split h [BLANK] in if length tokens = 3 then tokens ! n else []))"

definition http_type :: "http_request \<Rightarrow> string" where "http_type r = http_token 0 r"
definition http_url :: "http_request \<Rightarrow> string" where "http_url r = http_token 1 r"

definition http_path :: "http_request \<Rightarrow> string" where
  "http_path r = (let u = http_url r in substr_to u 0 (find_char (CHR ''?'') u 0))"

definition http_root :: "http_request \<Rightarrow> string" where
  "http_root r = (let p = http_path r in substr_to p 0 (find_char (CHR ''.'') p 0))"

definition http_filetype :: "http_request \<Rightarrow> string" where
  "http_filetype r =
     (let pat = http_path r in
      case find_last (\<lambda>c. c = CHR ''.'') pat of
        Some i1 \<Rightarrow> if i1 + 1 < length pat then drop (i1 + 1) pat else ''html''
      | None \<Rightarrow> ''html'')"

definition http_set_url :: "string \<Rightarrow> http_request \<Rightarrow> http_request" where
  "http_set_url newurl r =
     (case hr_headers r of
        [] \<Rightarrow> r
      | h # hs \<Rightarrow>
          (case find_char BLANK h 0 of
             None \<Rightarrow> r
           | Some i0 \<Rightarrow>
               (case find_first_not_of [BLANK] h i0 of
                  None \<Rightarrow> r
                | Some i1 \<Rightarrow>
                    (case find_char BLANK h i1 of
                       None \<Rightarrow> r
                     | Some i2 \<Rightarrow>
                         r\<lparr>hr_headers := (take i1 h @ newurl @ drop i2 h) # hs\<rparr>))))"

subsection \<open>URI decoding\<close>

definition hex_value :: "char \<Rightarrow> nat option" where
  "hex_value c =
     (let n = of_char c :: nat
      in if 48 \<le> n \<and> n \<le> 57 then Some (n - 48)
         else if 65 \<le> n \<and> n \<le> 70 then Some (n - 55)
         else if 97 \<le> n \<and> n \<le> 102 then Some (n - 87)
         else None)"

fun read_hex :: "nat \<Rightarrow> string \<Rightarrow> nat" where
  "read_hex a [] = a"
| "read_hex a (c # cs) = (case hex_value c of None \<Rightarrow> a | Some v \<Rightarrow> read_hex (16 * a + v) cs)"

text \<open>
  What \<open>sscanf(s, "%x", &ii)\<close> stores, for at most two characters: white space, a sign and hex
  digits.  The prefix \<open>0x\<close> alone is a matching failure, which stores nothing.
\<close>

definition scan_hex :: "string \<Rightarrow> int option" where
  "scan_hex s =
     (let s1 = dropWhile isspace s;
          neg = (s1 \<noteq> [] \<and> hd s1 = CHR ''-'');
          s2 = (if s1 \<noteq> [] \<and> (hd s1 = CHR ''-'' \<or> hd s1 = CHR ''+'') then tl s1 else s1)
      in if s2 = [] \<or> hex_value (hd s2) = None \<or> map to_lower s2 = ''0x'' then None
         else Some (if neg then - int (read_hex 0 s2) else int (read_hex 0 s2)))"

text \<open>\<open>ii\<close> is not initialised and keeps its value over malformed escapes.\<close>

fun uri_decode_from :: "int \<Rightarrow> string \<Rightarrow> string" where
  "uri_decode_from ii [] = []"
| "uri_decode_from ii (c # cs) =
     (if c = CHR ''%''
      then (let ii1 = (case scan_hex (c_str (take 2 cs)) of Some v \<Rightarrow> v | None \<Rightarrow> ii)
            in char_of (nat (ii1 mod 256)) # uri_decode_from ii1 (drop 2 cs))
      else if c = CHR ''+'' then BLANK # uri_decode_from ii cs
      else c # uri_decode_from ii cs)"

definition uri_decode :: "int \<Rightarrow> string \<Rightarrow> string" where
  "uri_decode junk uri = uri_decode_from junk uri"

text \<open>\<open>query\<close>; without a question mark the position is \<open>npos\<close>, and \<open>npos + 1\<close> is 0.\<close>

definition http_query :: "int \<Rightarrow> string \<Rightarrow> http_request \<Rightarrow> string" where
  "http_query junk key r =
     (let uri = uri_decode junk (http_url r);
          qry = (case find_char (CHR ''?'') uri 0 of None \<Rightarrow> uri | Some i1 \<Rightarrow> drop (i1 + 1) uri);
          is_item = (\<lambda>it. case find_char (CHR ''='') it 0 of None \<Rightarrow> False | Some i1 \<Rightarrow> take i1 it = key)
      in case find is_item (txt_split qry ''&'') of
           None \<Rightarrow> []
         | Some it \<Rightarrow> (case find_char (CHR ''='') it 0 of None \<Rightarrow> [] | Some i1 \<Rightarrow> drop (i1 + 1) it))"

subsection \<open>Cookies\<close>

text \<open>\<open>strncasecmp(a, b, n) == 0\<close>\<close>

definition strncasecmp_eq :: "string \<Rightarrow> string \<Rightarrow> nat \<Rightarrow> bool" where
  "strncasecmp_eq a b n \<longleftrightarrow> map to_lower (take n (c_str a)) = map to_lower (take n (c_str b))"

text \<open>The inner loop of \<open>cookie\<close>, over the value of one header.\<close>

function cookie_in :: "string \<Rightarrow> string \<Rightarrow> nat \<Rightarrow> string option" where
  "cookie_in val name i1 =
     (case find_char (CHR ''='') val i1 of
        None \<Rightarrow> None
      | Some e \<Rightarrow>
          if i1 < length val
          then (let i2 = e + 1;
                    i3 = str_find val [CHR '';'', BLANK] i2;
                    ll = (case i3 of Some i \<Rightarrow> i - i2 | None \<Rightarrow> length val - i2)
                in if i2 - i1 - 1 = length name \<and> strncasecmp_eq (drop i1 val) name (i2 - i1 - 1)
                   then Some (substr val i2 ll)
                   else cookie_in val name (i2 + ll + 2))
          else None)"
  by pat_completeness auto

termination
  by (relation "measure (\<lambda>(val, name, i1). length val - i1)")
    (auto simp: find_char_def dest!: find_if_bound)

declare cookie_in.simps [simp del]

text \<open>The outer loop, over the \<open>Cookie\<close> headers.\<close>

function cookie_from :: "string list \<Rightarrow> string \<Rightarrow> string \<Rightarrow> nat option \<Rightarrow> http_error + string" where
  "cookie_from headers name ret index =
     (case index of
        None \<Rightarrow> Inr ret
      | Some i \<Rightarrow>
          if 0 < i \<and> i < length headers
          then (case header_at headers (Some i) of
                  Inl e \<Rightarrow> Inl e
                | Inr hdr \<Rightarrow>
                    (case cookie_in (snd hdr) name 0 of
                       Some v \<Rightarrow> Inr v
                     | None \<Rightarrow> cookie_from headers name ret (header_index headers ''Cookie'' (i + 1))))
          else Inr ret)"
  by pat_completeness auto
termination
  by (relation "measure (\<lambda>(headers, name, ret, index).
        (case index of None \<Rightarrow> 0 | Some i \<Rightarrow> Suc (length headers - i)))")
    (auto simp: header_index_def split: option.splits dest!: find_if_bound)

declare cookie_from.simps [simp del]

definition http_cookie :: "string \<Rightarrow> string \<Rightarrow> http_request \<Rightarrow> http_error + string" where
  "http_cookie name defval r =
     cookie_from (hr_headers r) name defval (header_index (hr_headers r) ''Cookie'' 0)"

subsection \<open>Posted data\<close>

text \<open>Insertion into a \<open>std::multimap\<close>: after the entries whose key is not greater.\<close>

fun post_insert :: "string \<Rightarrow> nat \<Rightarrow> (string \<times> nat) list \<Rightarrow> (string \<times> nat) list" where
  "post_insert k p [] = [(k, p)]"
| "post_insert k p ((k1, p1) # r) =
     (if k < k1 then (k, p) # (k1, p1) # r else (k1, p1) # post_insert k p r)"

definition post_array :: "string \<Rightarrow> (string \<times> nat) list \<Rightarrow> nat list" where
  "post_array k post = map snd (filter (\<lambda>e. fst e = k) post)"

definition post_value :: "string \<Rightarrow> (string \<times> nat) list \<Rightarrow> nat option" where
  "post_value k post = (case post_array k post of [] \<Rightarrow> None | p # ps \<Rightarrow> Some p)"

text \<open>
  Bytes of the receive string.  Reading the cell behind the last character gives NUL, and
  writing NUL there changes nothing.
\<close>

definition char_at :: "string \<Rightarrow> nat \<Rightarrow> char" where
  "char_at s i = (if i < length s then s ! i else NUL)"

fun poke :: "string \<Rightarrow> nat \<Rightarrow> string \<Rightarrow> string" where
  "poke s i [] = s"
| "poke s i (c # cs) = poke (s[i := c]) (i + 1) cs"

text \<open>\<open>while (cp < end && *cp != c) cp++\<close>, from \<open>p\<close>.\<close>

definition scan_to :: "char \<Rightarrow> string \<Rightarrow> nat \<Rightarrow> nat \<Rightarrow> nat" where
  "scan_to c s stop p = p + length (takeWhile (\<lambda>d. d \<noteq> c) (take (stop - p) (drop p s)))"

record post_scan =
  ps_ptr :: nat
  ps_str :: string
  ps_post :: "(string \<times> nat) list"
  ps_ret :: bool

definition urlencoded_step :: "int \<Rightarrow> nat \<Rightarrow> post_scan \<Rightarrow> post_scan" where
  "urlencoded_step junk stop st =
     (let s = ps_str st; ptr = ps_ptr st; cp = scan_to (CHR ''='') s stop ptr
      in if cp < stop
         then (let key = uri_decode junk (substr s ptr (cp - ptr)); ptr1 = cp + 1
               in if ptr1 < stop
                  then (let cp1 = scan_to (CHR ''&'') s stop ptr1;
                            value = uri_decode junk (substr s ptr1 (cp1 - ptr1))
                        in st\<lparr>ps_ptr := cp1 + 1, ps_str := poke s ptr1 (value @ [NUL]),
                              ps_post := post_insert key ptr1 (ps_post st)\<rparr>)
                  else st\<lparr>ps_ptr := ptr1, ps_str := poke s cp [NUL],
                          ps_post := post_insert key cp (ps_post st)\<rparr>)
         else st\<lparr>ps_ret := False\<rparr>)"

definition urlencoded :: "int \<Rightarrow> nat \<Rightarrow> post_scan \<Rightarrow> post_scan option" where
  "urlencoded junk stop st = while_option (\<lambda>t. ps_ptr t < stop) (urlencoded_step junk stop) st"

text \<open>
  Multipart data.  \<open>next_line\<close> steps over the two characters behind a line; \<open>strncmp_eq\<close>
  compares with the boundary at any place of the string.
\<close>

definition next_line :: "nat \<Rightarrow> nat \<Rightarrow> nat" where
  "next_line stop cp = (if cp + 1 < stop then cp + 2 else stop)"

definition strncmp_eq :: "string \<Rightarrow> string \<Rightarrow> nat \<Rightarrow> bool" where
  "strncmp_eq a b n \<longleftrightarrow> take n (c_str a) = take n (c_str b)"

definition part_key :: "string \<Rightarrow> string \<Rightarrow> string" where
  "part_key line key =
     (case str_find line (''name='' @ [QUOTE]) 0 of
        None \<Rightarrow> key
      | Some i0 \<Rightarrow>
          (let i1 = i0 + 6
           in case find_char QUOTE line i1 of None \<Rightarrow> key | Some i2 \<Rightarrow> substr line i1 (i2 - i1)))"

definition part_filename :: "nat \<Rightarrow> string \<Rightarrow> string \<Rightarrow> post_scan \<Rightarrow> post_scan" where
  "part_filename lp line key st =
     (case str_find line (''filename='' @ [QUOTE]) 0 of
        None \<Rightarrow> st
      | Some i0 \<Rightarrow>
          (let i1 = i0 + 10
           in case find_char QUOTE line i1 of
                None \<Rightarrow> st
              | Some i2 \<Rightarrow> st\<lparr>ps_str := poke (ps_str st) (lp + i2) [NUL],
                              ps_post := post_insert (key @ ''.filename'') (lp + i1) (ps_post st)\<rparr>))"

text \<open>The loop over the header lines of a part; \<open>line\<close> starts at \<open>lp\<close>.\<close>

lemma scan_to_ge: "p \<le> scan_to c s stop p"
  by (simp add: scan_to_def)

lemma next_line_less: "p \<le> cp \<Longrightarrow> p < stop \<Longrightarrow> stop - next_line stop cp < stop - p"
  by (auto simp: next_line_def)

function part_headers :: "nat \<Rightarrow> nat \<Rightarrow> string \<Rightarrow> string \<Rightarrow> post_scan \<Rightarrow> string \<times> string \<times> post_scan" where
  "part_headers stop lp line key st =
     (if ps_ptr st < stop \<and> line \<noteq> []
      then (let disposition = strncasecmp_eq line ''Content-Disposition:'' 20;
                key1 = (if disposition then part_key line key else key);
                st1 = (if disposition then part_filename lp line key1 st else st);
                ptr = ps_ptr st;
                cp = scan_to CR (ps_str st1) stop ptr;
                line1 = substr (ps_str st1) ptr (cp - ptr)
            in part_headers stop ptr line1 key1 (st1\<lparr>ps_ptr := next_line stop cp\<rparr>))
      else (key, line, st))"
  by pat_completeness auto
termination
  by (relation "measure (\<lambda>(stop, lp, line, key, st). stop - ps_ptr st)")
    (simp_all add: next_line_less scan_to_ge)

declare part_headers.simps [simp del]

text \<open>
  The loop over the value of a part.  Its inner loop passes over a character only when a
  newline follows; the step behind it moves by one character.
\<close>

function skip_value :: "string \<Rightarrow> nat \<Rightarrow> nat \<Rightarrow> nat" where
  "skip_value s stop cp =
     (if cp < stop \<and> char_at s cp \<noteq> CR \<and> char_at s (cp + 1) = LF then skip_value s stop (cp + 1) else cp)"
  by pat_completeness auto
termination by (relation "measure (\<lambda>(s, stop, cp). stop - cp)") auto

declare skip_value.simps [simp del]

lemma skip_value_ge: "cp \<le> skip_value s stop cp"
  by (induction s stop cp rule: skip_value.induct) (subst skip_value.simps, auto)

function part_value :: "nat \<Rightarrow> string \<Rightarrow> nat \<Rightarrow> string \<Rightarrow> string \<Rightarrow> post_scan \<Rightarrow> string \<times> post_scan" where
  "part_value stop boundary val key line st =
     (if ps_ptr st < stop
      then (let s = ps_str st;
                cp = skip_value s stop (ps_ptr st);
                ptr = (if cp < stop then cp + 1 else stop)
            in if strncmp_eq (drop ptr s) boundary (length boundary)
               then (let s1 = poke s (ptr - 2) [NUL];
                         cp1 = scan_to CR s1 stop ptr
                     in (substr s1 ptr (cp1 - ptr),
                         st\<lparr>ps_ptr := next_line stop cp1, ps_str := s1,
                            ps_post := post_insert key val (ps_post st)\<rparr>))
               else part_value stop boundary val key line (st\<lparr>ps_ptr := ptr\<rparr>))
      else (line, st))"
  by pat_completeness auto
termination
proof (relation "measure (\<lambda>(stop, boundary, val, key, line, st). stop - ps_ptr st)", simp, goal_cases)
  case (1 stop boundary val key line st s cp ptr)
  moreover have "ps_ptr st \<le> skip_value (ps_str st) stop (ps_ptr st)" by (rule skip_value_ge)
  ultimately show ?case by (auto simp: Let_def)
qed

declare part_value.simps [simp del]

lemma part_headers_ptr: "ps_ptr st \<le> ps_ptr (snd (snd (part_headers stop lp line key st)))"
proof (induction stop lp line key st rule: part_headers.induct)
  case (1 stop lp line key st)
  show ?case
  proof (cases "ps_ptr st < stop \<and> line \<noteq> []")
    case True
    have le: "p \<le> next_line stop (scan_to CR s stop p)" if "p < stop" for p s
      using scan_to_ge [of p CR s stop] that by (auto simp: next_line_def)
    show ?thesis
      using True 1 [OF True refl refl refl refl refl refl]
      by (subst part_headers.simps) (auto simp: Let_def intro: order_trans [OF le])
  qed (subst part_headers.simps, auto)
qed

lemma part_value_ptr: "ps_ptr st \<le> ps_ptr (snd (part_value stop boundary val key line st))"
proof (induction stop boundary val key line st rule: part_value.induct)
  case (1 stop boundary val key line st)
  show ?case
  proof (cases "ps_ptr st < stop")
    case True
    define cp where "cp = skip_value (ps_str st) stop (ps_ptr st)"
    define ptr where "ptr = (if cp < stop then cp + 1 else stop)"
    have p: "ps_ptr st \<le> ptr"
      using True skip_value_ge [of "ps_ptr st" "ps_str st" stop] by (auto simp: ptr_def cp_def)
    have n: "ptr \<le> next_line stop (scan_to CR s stop ptr)" for s
      using scan_to_ge [of ptr CR s stop] by (auto simp: next_line_def ptr_def)
    show ?thesis
      unfolding part_value.simps [of stop boundary val key line st] Let_def cp_def [symmetric]
        ptr_def [symmetric] if_P [OF True]
      using order_trans [OF p n] order_trans [OF p] 1 [OF True refl cp_def ptr_def] by simp
  qed (subst part_value.simps, simp)
qed

text \<open>The loop over the parts.\<close>

function multipart_parts :: "nat \<Rightarrow> string \<Rightarrow> string \<Rightarrow> post_scan \<Rightarrow> post_scan" where
  "multipart_parts stop boundary line st =
     (if ps_ptr st < stop \<and> line = boundary
      then (let lp = ps_ptr st;
                cp = scan_to CR (ps_str st) stop lp;
                line1 = substr (ps_str st) lp (cp - lp);
                (key, line2, st1) =
                  part_headers stop lp line1 [] (st\<lparr>ps_ptr := next_line stop cp\<rparr>);
                (line3, st2) = part_value stop boundary (ps_ptr st1) key line2 st1
            in multipart_parts stop boundary line3 st2)
      else st)"
  by pat_completeness auto
termination
proof (relation "measure (\<lambda>(stop, boundary, line, st). stop - ps_ptr st)", simp, goal_cases)
  case (1 stop boundary line st lp cp line1 h key r line2 st1 v line3 st2)
  have "ps_ptr st < next_line stop cp"
    using 1 scan_to_ge [of lp CR "ps_str st" stop] by (auto simp: next_line_def)
  moreover have h: "part_headers stop lp line1 [] (st\<lparr>ps_ptr := next_line stop cp\<rparr>) = (key, line2, st1)"
    using 1(5-7) by simp
  have "next_line stop cp \<le> ps_ptr st1"
    using part_headers_ptr [of "st\<lparr>ps_ptr := next_line stop cp\<rparr>" stop lp line1 "[]"] unfolding h by simp
  moreover have v: "part_value stop boundary (ps_ptr st1) key line2 st1 = (line3, st2)"
    using 1(8,9) by simp
  have "ps_ptr st1 \<le> ps_ptr st2"
    using part_value_ptr [of st1 stop boundary "ps_ptr st1" key line2] unfolding v by simp
  ultimately have "ps_ptr st < ps_ptr st2" by linarith
  then show ?case using 1(1) 1(9) [symmetric] by (simp add: diff_less_mono2)
qed

declare multipart_parts.simps [simp del]

text \<open>
  \<open>get_post_multipart\<close>.  The loop in front of the first boundary line tests a line that is
  still empty and never runs.
\<close>

definition multipart :: "string \<Rightarrow> nat \<Rightarrow> post_scan \<Rightarrow> post_scan" where
  "multipart content_type stop st =
     (let boundary =
            (case str_find content_type ''boundary='' 0 of
               None \<Rightarrow> []
             | Some i0 \<Rightarrow>
                 (let i1 = i0 + 9
                  in substr_to content_type i1 (find_first_of [CHR '';'', BLANK, CR, LF] content_type i1)))
      in if boundary = [] then st\<lparr>ps_ret := False\<rparr>
         else (let b = ''--'' @ boundary;
                   ptr = ps_ptr st;
                   cp = scan_to CR (ps_str st) stop ptr;
                   line = substr (ps_str st) ptr (cp - ptr)
               in (multipart_parts stop b line (st\<lparr>ps_ptr := next_line stop cp\<rparr>))\<lparr>ps_ret := True\<rparr>))"

text \<open>
  \<open>get_post\<close> and \<open>parsePost\<close>: the result of the call, the receive string and the object, or the
  exception, or \<open>None\<close> when the call does not return.
\<close>

type_synonym post_result = "(http_error + (bool \<times> string \<times> http_request)) option"

definition post_finish :: "http_request \<Rightarrow> post_scan \<Rightarrow> bool \<times> string \<times> http_request" where
  "post_finish r st = (ps_ret st, ps_str st, r\<lparr>hr_post := ps_post st\<rparr>)"

definition get_post :: "int \<Rightarrow> string \<Rightarrow> http_request \<Rightarrow> post_result" where
  "get_post junk rqst r0 =
     (let r = r0\<lparr>hr_post := []\<rparr>
      in case header_value (hr_headers r) ''Content-Type'' of
           Inl e \<Rightarrow> Some (Inl e)
         | Inr content_type \<Rightarrow>
             (let start = (case hr_body r of Some p \<Rightarrow> p | None \<Rightarrow> 0);
                  stop = start + hr_body_size r;
                  st = \<lparr>ps_ptr = start, ps_str = rqst, ps_post = [], ps_ret = True\<rparr>
              in if content_type = ''application/x-www-form-urlencoded''
                 then map_option (\<lambda>t. Inr (post_finish r t)) (urlencoded junk stop st)
                 else if str_find content_type ''multipart/form-data'' 0 \<noteq> None
                 then Some (Inr (post_finish r (multipart content_type stop st)))
                 else Some (Inr (False, rqst, r))))"

definition parse_post :: "int \<Rightarrow> string \<Rightarrow> http_request \<Rightarrow> post_result" where
  "parse_post junk rqst r =
     (if hr_post r \<noteq> [] then Some (Inr (True, rqst, r)) else get_post junk rqst r)"

subsection \<open>Parsing\<close>

text \<open>One pass of the loop that looks for the start of a request in incomplete data.\<close>

definition starts_request :: "string \<Rightarrow> nat \<Rightarrow> bool" where
  "starts_request s i \<longleftrightarrow>
     (length s > i + 4 \<and> substr s i 4 = ''GET'' @ [BLANK]) \<or>
     (length s > i + 5 \<and> substr s i 5 = ''POST'' @ [BLANK])"

definition partial_step :: "string \<times> nat \<Rightarrow> string \<times> nat" where
  "partial_step st =
     (let (s, i1) = st in
      case find_first_of ''GP'' s i1 of
        None \<Rightarrow> ([], i1)
      | Some i2 \<Rightarrow>
          if starts_request s i2
          then (if i2 > 0 then (drop i2 s, length (drop i2 s)) else (s, i1))
          else if (s ! i2 = CHR ''G'' \<and> length s > i2 + 4) \<or> (s ! i2 = CHR ''P'' \<and> length s > i2 + 5)
          then (drop (i2 + 1) s, i1)
          else (s, i1))"

definition discard_partial :: "string \<Rightarrow> string option" where
  "discard_partial rqst =
     map_option fst (while_option (\<lambda>(s, i1). length s > 0 \<and> i1 < length s) partial_step (rqst, 0))"

text \<open>
  \<open>parseRequest\<close>.  The \<open>reserve\<close> of its last branch asks for a size the string already has and
  changes nothing.
\<close>

definition http_parse :: "int \<Rightarrow> string \<Rightarrow> bool \<Rightarrow> http_request \<Rightarrow> post_result" where
  "http_parse junk rqst parsePostData r0 =
     (let r = http_clear r0
      in if str_find rqst (CRLF @ CRLF) 0 \<noteq> None
         then (let (headers, i2) = header_lines rqst 0;
                   r1 = r\<lparr>hr_headers := headers\<rparr>
               in case content_length headers of
                    Inl e \<Rightarrow> Some (Inl e)
                  | Inr cl \<Rightarrow>
                      (let offset = (case i2 of Some i \<Rightarrow> i + 2 | None \<Rightarrow> 1);
                           siz = length rqst - offset
                       in if siz \<ge> cl
                          then (let r2 = r1\<lparr>hr_body_offset := offset, hr_body_size := cl, hr_body := Some offset\<rparr>
                                in if http_type r2 = ''POST'' \<and> parsePostData
                                   then map_option (map_sum (\<lambda>e. e) (\<lambda>(_, s, r3). (http_complete r3, s, r3)))
                                          (get_post junk rqst r2)
                                   else Some (Inr (http_complete r2, rqst, r2)))
                          else (let r2 = r1\<lparr>hr_body_offset := offset, hr_body_size := siz\<rparr>
                                in Some (Inr (http_complete r2, rqst, r2)))))
         else map_option (\<lambda>s. Inr (http_complete r, s, r)) (discard_partial rqst))"

subsection \<open>Replies\<close>

text \<open>
  \<open>replaceHeader\<close> and \<open>setHTMLLengthHeader\<close> for \<open>std::string\<close> and for \<open>TXT\<close>.  The 128
  characters of the second one's buffer are enough for every length (107 characters and
  the digits).
\<close>

definition replace_header_string :: "string \<Rightarrow> string \<Rightarrow> string option" where
  "replace_header_string rqst newHeader =
     (case str_find rqst (CRLF @ CRLF) 0 of
        None \<Rightarrow> Some rqst
      | Some i1 \<Rightarrow>
          string_replace 0 i1 (substr_to newHeader 0 (str_find newHeader (CRLF @ CRLF) 0)) rqst)"

definition replace_header_txt :: "(nat \<Rightarrow> char) \<Rightarrow> string \<Rightarrow> text_obj \<Rightarrow> text_obj option" where
  "replace_header_txt mem newHeader rqst =
     (case txt_find (CRLF @ CRLF) rqst of
        None \<Rightarrow> Some rqst
      | Some i1 \<Rightarrow> txt_replace mem 0 i1 newHeader rqst)"

definition length_header :: "nat \<Rightarrow> string" where
  "length_header cl =
     ''HTTP/1.1 200 OK'' @ CRLF @ ''Content-Type: text/html'' @ CRLF @ ''Content-Length: '' @ decimal cl @
     CRLF @ ''Connection: keep-alive'' @ CRLF @ ''Cache-Control: no-store''"

definition set_length_string :: "string \<Rightarrow> string option" where
  "set_length_string rqst =
     (case str_find rqst (CRLF @ CRLF) 0 of
        None \<Rightarrow> Some rqst
      | Some i1 \<Rightarrow> replace_header_string rqst (length_header (length rqst - i1 - 4)))"

definition set_length_txt :: "(nat \<Rightarrow> char) \<Rightarrow> text_obj \<Rightarrow> text_obj option" where
  "set_length_txt mem rqst =
     (case txt_find (CRLF @ CRLF) rqst of
        None \<Rightarrow> Some rqst
      | Some i1 \<Rightarrow>
          replace_header_txt mem (take 127 (length_header (tx_endptr rqst - i1 - 4))) rqst)"

section \<open>Header lines\<close>

lemma CRLF_simps [simp]: "length CRLF = 2" "CRLF \<noteq> []"
  by (simp_all add: CRLF_def)

lemma CR_LF_distinct [simp]: "CR \<noteq> LF" "LF \<noteq> CR" "CR \<noteq> BLANK" "LF \<noteq> BLANK" "BLANK \<noteq> CR" "BLANK \<noteq> LF"
  by (simp_all add: CR_def LF_def BLANK_def)

lemma find_CRLF:
  assumes "\<not> sublist CRLF l"
  shows "find_at CRLF (l @ CRLF @ b) = Some (length l)"
proof (rule find_atI)
  fix j assume j: "j < length l"
  show "\<not> prefix CRLF (drop j l @ CRLF @ b)"
  proof
    assume p: "prefix CRLF (drop j l @ CRLF @ b)"
    obtain x xs where d: "drop j l = x # xs" using j by (cases "drop j l") auto
    show False
    proof (cases xs)
      case Nil
      with p d show False by (simp add: CRLF_def)
    next
      case (Cons y ys)
      with p d have "drop j l = CRLF @ ys" by (auto simp: CRLF_def)
      then have "sublist CRLF (drop j l)" by simp
      then have "sublist CRLF l" using sublist_drop sublist_order.order_trans by blast
      with assms show False by simp
    qed
  qed
qed

definition header_block :: "string list \<Rightarrow> string" where
  "header_block ls = concat (map (\<lambda>l. l @ CRLF) ls)"

definition header_line :: "string \<Rightarrow> bool" where
  "header_line l \<longleftrightarrow> l \<noteq> [] \<and> \<not> sublist CRLF l"

lemma header_lines_at:
  assumes "\<forall>l \<in> set ls. header_line l"
  shows "header_lines (pre @ header_block ls @ CRLF @ body) (length pre) =
           (ls, Some (length pre + length (header_block ls)))"
  using assms
proof (induction ls arbitrary: pre)
  case Nil
  have "find_at CRLF (CRLF @ body) = Some 0" by (simp add: CRLF_def)
  then show ?case by (subst header_lines.simps) (simp add: str_find_def header_block_def)
next
  case (Cons l ls)
  let ?rest = "header_block ls @ CRLF @ body"
  have l: "find_at CRLF (l @ CRLF @ ?rest) = Some (length l)" "l \<noteq> []"
    using find_CRLF Cons.prems by (auto simp: header_line_def)
  have IH: "header_lines ((pre @ l @ CRLF) @ ?rest) (length (pre @ l @ CRLF)) =
      (ls, Some (length (pre @ l @ CRLF) + length (header_block ls)))"
    by (rule Cons.IH) (use Cons.prems in simp)
  have b: "header_block (l # ls) @ CRLF @ body = l @ CRLF @ ?rest" by (simp add: header_block_def)
  have "str_find (pre @ l @ CRLF @ ?rest) CRLF (length pre) = Some (length pre + length l)"
    using l(1) by (simp add: str_find_def)
  moreover have "substr (pre @ l @ CRLF @ ?rest) (length pre) (length l) = l"
    by (simp add: substr_def)
  ultimately show ?case
    using IH l(2) by (subst header_lines.simps) (simp add: header_block_def add.assoc)
qed

lemma header_end:
  assumes "ls \<noteq> []"
  shows "str_find (header_block ls @ CRLF @ body) (CRLF @ CRLF) 0 \<noteq> None"
proof -
  obtain us l where ls: "ls = us @ [l]" using assms by (cases ls rule: rev_cases) auto
  have "header_block ls @ CRLF @ body = (header_block us @ l) @ (CRLF @ CRLF) @ body"
    by (simp add: ls header_block_def)
  then have "sublist (CRLF @ CRLF) (header_block ls @ CRLF @ body)" unfolding sublist_def by blast
  then show ?thesis by (simp add: str_find_def find_at_None)
qed

subsection \<open>Lookup\<close>

lemma find_char_first: "c \<notin> set a \<Longrightarrow> find_char c (a @ c # b) 0 = Some (length a)"
  unfolding find_char_def find_if_def by (simp, subst index_of_skip) auto

lemma header_named_line:
  assumes "CHR '':'' \<notin> set n"
  shows "header_named name (n @ CHR '':'' # v) = strcasecmp_eq n name"
  using find_char_first [OF assms] by (simp add: header_named_def substr_def)

lemma header_index_at:
  assumes "\<forall>l \<in> set pre. \<not> header_named name l" "header_named name h"
  shows "header_index (pre @ h # post) name 0 = Some (length pre)"
  using assms by (simp add: header_index_def find_if_def index_of_skip)

lemma header_index_none: "\<forall>l \<in> set ls. \<not> header_named name l \<Longrightarrow> header_index ls name 0 = None"
  by (simp add: header_index_def find_if_def index_of_None)

lemma find_after:
  "\<forall>c \<in> set a. \<not> P c \<Longrightarrow> v \<noteq> [] \<Longrightarrow> P (hd v) \<Longrightarrow> find_if P (p @ a @ v) (length p) = Some (length p + length a)"
  by (cases v) (simp_all add: find_if_def index_of_skip)

lemma header_at_line:
  assumes "CHR '':'' \<notin> set n" "pre \<noteq> []" "v = [] \<or> hd v \<noteq> BLANK" "CR \<notin> set v" "LF \<notin> set v"
  shows "header_at (pre @ (n @ CHR '':'' # replicate k BLANK @ v) # post) (Some (length pre)) =
    (if v = [] then Inl Out_Of_Range else Inr (n, v))"
proof -
  let ?h = "n @ CHR '':'' # replicate k BLANK @ v"
  have c: "find_char (CHR '':'') ?h 0 = Some (length n)" by (rule find_char_first [OF assms(1)])
  show ?thesis
  proof (cases "v = []")
    case True
    then have "find_first_not_of [BLANK] ?h (length n + 1) = None"
      by (simp add: find_first_not_of_def find_if_def index_of_None)
    with True c assms(2) show ?thesis by (simp add: header_at_def)
  next
    case False
    have s: "find_first_not_of [BLANK] ?h (length n + 1) = Some (length n + 1 + k)"
      using find_after [of "replicate k BLANK" "\<lambda>c. c \<notin> set [BLANK]" v "n @ [CHR '':'']"] False assms(3)
      by (simp add: find_first_not_of_def)
    have d: "drop (length n + 1 + k) ?h = v" by simp
    have "find_first_of CRLF ?h (length n + 1 + k) = None"
      unfolding find_first_of_def find_if_def d using assms(4,5)
      by (auto simp: index_of_None CRLF_def)
    with False c s d assms(2) show ?thesis by (simp add: header_at_def substr_def substr_to_def)
  qed
qed

lemma digit_not_space: "digit c \<Longrightarrow> \<not> isspace c \<and> c \<noteq> CHR ''-'' \<and> c \<noteq> CHR ''+''"
  by (auto simp: digit_def isspace_def Let_def)

lemma stoul_decimal: "n < 2 ^ 32 \<Longrightarrow> stoul (decimal n) = Some n"
proof -
  assume n: "n < 2 ^ 32"
  obtain c cs where d: "decimal n = c # cs" using decimal_nonempty by (cases "decimal n") auto
  then have "digit c" using decimal_digits [of c n] by simp
  with d n read_decimal [of "[]" n] digit_not_space [of c] show ?thesis
    by (simp add: stoul_def Let_def)
qed

lemma header_index_line:
  assumes "CHR '':'' \<notin> set n" "strcasecmp_eq n name" "\<forall>l \<in> set pre. \<not> header_named name l"
  shows "header_index (pre @ (n @ CHR '':'' # v) # post) name 0 = Some (length pre)"
  using header_index_at [OF assms(3)] header_named_line [OF assms(1)] assms(2) by simp

lemma header_found:
  assumes "CHR '':'' \<notin> set n" "strcasecmp_eq n name" "\<forall>l \<in> set (rl # pre). \<not> header_named name l"
    and "v = [] \<or> hd v \<noteq> BLANK" "CR \<notin> set v" "LF \<notin> set v"
    and "headers = (rl # pre) @ (n @ CHR '':'' # replicate k BLANK @ v) # post"
  shows "header_index headers name 0 = Some (length (rl # pre))"
    and "header_at headers (Some (length (rl # pre))) = (if v = [] then Inl Out_Of_Range else Inr (n, v))"
proof -
  show "header_index headers name 0 = Some (length (rl # pre))"
    unfolding assms(7) by (rule header_index_line [OF assms(1-3)])
  show "header_at headers (Some (length (rl # pre))) = (if v = [] then Inl Out_Of_Range else Inr (n, v))"
    unfolding assms(7) by (rule header_at_line) (use assms in simp_all)
qed

lemma content_length_found:
  assumes "CHR '':'' \<notin> set n" "strcasecmp_eq n ''Content-Length''"
    "\<forall>l \<in> set (rl # pre). \<not> header_named ''Content-Length'' l"
    and "headers = (rl # pre) @ (n @ CHR '':'' # replicate k BLANK @ decimal len) # post" "len < 2 ^ 32"
  shows "content_length headers = Inr len"
proof -
  have "\<not> digit CR" "\<not> digit LF" "\<not> digit BLANK"
    by (simp_all add: digit_def CR_def LF_def BLANK_def)
  then have "CR \<notin> set (decimal len)" "LF \<notin> set (decimal len)" "decimal len = [] \<or> hd (decimal len) \<noteq> BLANK"
    using decimal_nonempty [of len] decimal_digits by (metis list.set_sel(1))+
  note h = header_found [OF assms(1,2,3) this(3,1,2) assms(4)]
  show ?thesis
    using decimal_nonempty [of len] stoul_decimal [OF assms(5)]
    unfolding content_length_def h(1) option.case h(2) by simp
qed

text \<open>Looking up a header finds the first line with that name, without regard to case, and
  returns its value without the blanks in front of it.  A \<open>Content-Length\<close> line found this way
  gives the length.  A line without a value makes the lookup throw.\<close>

theorem header_lookup:
  assumes "CHR '':'' \<notin> set n" and "strcasecmp_eq n name" and "\<forall>l \<in> set (rl # pre). \<not> header_named name l"
    and "v = [] \<or> hd v \<noteq> BLANK" and "CR \<notin> set v" and "LF \<notin> set v"
    and "headers = (rl # pre) @ (n @ CHR '':'' # replicate k BLANK @ v) # post"
  shows "header_value headers name = (if v = [] then Inl Out_Of_Range else Inr v) \<and>
    (name = ''Content-Length'' \<and> v = decimal len \<and> len < 2 ^ 32 \<longrightarrow> content_length headers = Inr len)"
proof (intro conjI impI)
  note h = header_found [OF assms]
  show "header_value headers name = (if v = [] then Inl Out_Of_Range else Inr v)"
    unfolding header_value_def h by simp
  assume "name = ''Content-Length'' \<and> v = decimal len \<and> len < 2 ^ 32"
  with content_length_found assms(1-3,7) show "content_length headers = Inr len" by blast
qed

definition demo_headers :: "string list" where
  "demo_headers = [''POST /set HTTP/1.1'', ''Host: pico'', ''content-length:  11'', ''X: 1'']"

lemma header_lookup_witness:
  "header_value demo_headers ''Content-Length'' = Inr ''11'' \<and> content_length demo_headers = Inr 11"
proof -
  have h: "CHR '':'' \<notin> set ''content-length''" "strcasecmp_eq ''content-length'' ''Content-Length''"
    "\<forall>l \<in> set [''POST /set HTTP/1.1'', ''Host: pico'']. \<not> header_named ''Content-Length'' l"
    "''11'' = [] \<or> hd ''11'' \<noteq> BLANK" "CR \<notin> set ''11''" "LF \<notin> set ''11''"
    "demo_headers = [''POST /set HTTP/1.1'', ''Host: pico''] @
       (''content-length'' @ CHR '':'' # replicate 2 BLANK @ ''11'') # [''X: 1'']"
    "decimal 11 = ''11''"
    by code_simp+
  from header_lookup [OF h(1-7), of 11] show ?thesis by (simp add: h(8))
qed

lemma content_length_none:
  "\<forall>l \<in> set headers. \<not> header_named ''Content-Length'' l \<Longrightarrow> content_length headers = Inr 0"
  by (simp add: content_length_def header_index_none)

section \<open>Parsing\<close>

lemma parse_block:
  assumes "ls \<noteq> []" "\<forall>l \<in> set ls. header_line l" "content_length ls = Inr n"
    and "\<not> (ppd \<and> http_type (r\<lparr>hr_headers := ls\<rparr>) = ''POST'')"
    and "rqst = header_block ls @ CRLF @ body"
  shows "http_parse junk rqst ppd r =
    Some (Inr (n \<le> length body, rqst, (http_clear r)
      \<lparr>hr_headers := ls, hr_body_offset := length rqst - length body, hr_body_size := min n (length body),
       hr_body := (if n \<le> length body then Some (length rqst - length body) else None)\<rparr>))"
proof -
  have hl: "header_lines rqst 0 = (ls, Some (length (header_block ls)))"
    using header_lines_at [OF assms(2), of "[]" body] by (simp add: assms(5))
  have "str_find rqst (CRLF @ CRLF) 0 \<noteq> None" unfolding assms(5) by (rule header_end [OF assms(1)])
  moreover have "length rqst = length (header_block ls) + 2 + length body" by (simp add: assms(5))
  moreover have "http_type (http_clear r\<lparr>hr_headers := ls, hr_body_offset := a, hr_body_size := b, hr_body := c\<rparr>) =
      http_type (r\<lparr>hr_headers := ls\<rparr>)" for a b c
    by (simp add: http_type_def http_token_def)
  ultimately show ?thesis
    using assms(4) unfolding http_parse_def hl
    by (auto simp: assms(3) http_complete_def http_clear_def Let_def min_def)
qed

text \<open>C34: A request in one piece or cut anywhere in its body is parsed into its header lines, the
  offset of the body and its size, and is complete exactly when as many bytes of the body have
  arrived as its \<open>Content-Length\<close> line, in any case and position, announces.\<close>

theorem request_parsed:
  assumes "ls = (rl # pre) @ (n @ CHR '':'' # replicate k BLANK @ decimal len) # post"
    and "\<forall>l \<in> set ls. header_line l" and "CHR '':'' \<notin> set n" and "strcasecmp_eq n ''Content-Length''"
    and "\<forall>l \<in> set (rl # pre). \<not> header_named ''Content-Length'' l" and "len < 2 ^ 32"
    and "\<not> (ppd \<and> http_type (r\<lparr>hr_headers := ls\<rparr>) = ''POST'')"
    and "rqst = header_block ls @ CRLF @ body"
  shows "http_parse junk rqst ppd r =
    Some (Inr (len \<le> length body, rqst, (http_clear r)
      \<lparr>hr_headers := ls, hr_body_offset := length rqst - length body, hr_body_size := min len (length body),
       hr_body := (if len \<le> length body then Some (length rqst - length body) else None)\<rparr>))"
  by (rule parse_block [OF _ assms(2) content_length_found [OF assms(3,4,5,1,6)] assms(7,8)])
    (simp add: assms(1))

lemma request_parsed_witness:
  "http_parse 0 (header_block demo_headers @ CRLF @ ''name=Living'') False http_new =
     Some (Inr (True, header_block demo_headers @ CRLF @ ''name=Living'', (http_clear http_new)
       \<lparr>hr_headers := demo_headers, hr_body_offset := 61, hr_body_size := 11, hr_body := Some 61\<rparr>))"
proof -
  have h: "demo_headers = [''POST /set HTTP/1.1'', ''Host: pico''] @
      (''content-length'' @ CHR '':'' # replicate 2 BLANK @ decimal 11) # [''X: 1'']"
    "\<forall>l \<in> set demo_headers. header_line l" "CHR '':'' \<notin> set ''content-length''"
    "strcasecmp_eq ''content-length'' ''Content-Length''"
    "\<forall>l \<in> set [''POST /set HTTP/1.1'', ''Host: pico'']. \<not> header_named ''Content-Length'' l"
    "length (header_block demo_headers @ CRLF) = 61"
    by code_simp+
  from request_parsed [OF h(1-5) _ _ refl, where ppd = False and r = http_new and
      body = "''name=Living''" and junk = 0] h(6) show ?thesis by simp
qed

lemma while_option_stuck: "b s \<Longrightarrow> c s = s \<Longrightarrow> while_option b c s = None"
proof -
  assume "b s" "c s = s"
  then have "(c ^^ k) s = s" for k by (induction k) auto
  with \<open>b s\<close> show ?thesis by (simp add: while_option_def)
qed





section \<open>URI decoding\<close>

text \<open>
  The encodings of a string: a character stands for itself or is escaped with two hex digits of
  either case, and a blank may be a plus sign.
\<close>

inductive uri_encodes :: "string \<Rightarrow> string \<Rightarrow> bool" where
  enc_end: "uri_encodes [] []"
| enc_self: "uri_encodes s e \<Longrightarrow> c \<noteq> CHR ''%'' \<Longrightarrow> c \<noteq> CHR ''+'' \<Longrightarrow> uri_encodes (c # s) (c # e)"
| enc_plus: "uri_encodes s e \<Longrightarrow> uri_encodes (BLANK # s) (CHR ''+'' # e)"
| enc_escape: "uri_encodes s e \<Longrightarrow> hex_value h = Some a \<Longrightarrow> hex_value l = Some b \<Longrightarrow>
    uri_encodes (char_of (16 * a + b) # s) (CHR ''%'' # h # l # e)"

lemma hex_value_bound: "hex_value c = Some v \<Longrightarrow> v < 16"
  by (auto simp: hex_value_def Let_def split: if_splits)

lemma hex_value_plain:
  assumes "hex_value c = Some v"
  shows "\<not> isspace c" "c \<noteq> CHR ''-''" "c \<noteq> CHR ''+''" "c \<noteq> NUL" "to_lower c \<noteq> CHR ''x''"
  using assms
  by (auto simp: hex_value_def isspace_def NUL_def to_lower_def Let_def split: if_splits
      dest!: arg_cong [where f = "of_char :: char \<Rightarrow> nat"])

lemma scan_hex_digits:
  assumes "hex_value h = Some a" "hex_value l = Some b"
  shows "scan_hex (c_str [h, l]) = Some (int (16 * a + b))"
proof -
  have "c_str [h, l] = [h, l]"
    using hex_value_plain(4) [OF assms(1)] hex_value_plain(4) [OF assms(2)] by (simp add: c_str_def)
  then show ?thesis
    using assms hex_value_plain [OF assms(1)] hex_value_plain(5) [OF assms(2)]
    by (simp add: scan_hex_def Let_def)
qed

lemma uri_decode_encoded: "uri_encodes s e \<Longrightarrow> uri_decode_from junk e = s"
proof (induction arbitrary: junk rule: uri_encodes.induct)
  case (enc_escape s e h a l b)
  have "16 * a + b < 256" using hex_value_bound [OF enc_escape.hyps(2)] hex_value_bound [OF enc_escape.hyps(3)] by linarith
  then have "nat (int (16 * a + b) mod 256) = 16 * a + b" by simp
  with enc_escape scan_hex_digits show ?case by (simp del: of_nat_add of_nat_mult)
qed simp_all

text \<open>URI decoding inverts every encoding, whichever characters it escapes, with hex digits of
  either case and with a plus sign or an escape for a blank.\<close>

theorem uri_decode_inverts:
  assumes "uri_encodes s e"
  shows "uri_decode junk e = s"
  unfolding uri_decode_def by (rule uri_decode_encoded [OF assms])

lemma uri_decode_inverts_witness: "uri_decode 0 ''a%2B%2f+b'' = ''a+/ b''"
proof -
  have "uri_encodes (CHR ''a'' # char_of (16 * 2 + 11 :: nat) # char_of (16 * 2 + 15 :: nat) # BLANK # CHR ''b'' # [])
      ''a%2B%2f+b''"
    by (intro enc_self enc_escape enc_plus enc_end) (simp_all add: hex_value_def)
  moreover have "char_of (43 :: nat) = CHR ''+''" "char_of (47 :: nat) = CHR ''/''" by code_simp+
  ultimately show ?thesis using uri_decode_inverts by (simp add: BLANK_def)
qed

section \<open>Posted forms\<close>

lemma set_post_insert: "set (post_insert k p post) = insert (k, p) (set post)"
  by (induction k p post rule: post_insert.induct) auto

lemma sorted_post_insert: "sorted (map fst post) \<Longrightarrow> sorted (map fst (post_insert k p post))"
  by (induction k p post rule: post_insert.induct) (auto simp: set_post_insert)

lemma post_array_insert:
  assumes "sorted (map fst post)"
  shows "post_array key (post_insert k p post) = post_array key post @ (if k = key then [p] else [])"
  using assms
proof (induction post)
  case (Cons e post)
  have "k < fst e \<Longrightarrow> \<forall>f \<in> set (e # post). fst f \<noteq> k" using Cons.prems by fastforce
  with Cons show ?case by (cases e) (auto simp: post_array_def filter_empty_conv)
qed (simp add: post_array_def)

lemma uri_encodes_length: "uri_encodes s e \<Longrightarrow> length s \<le> length e"
  by (induction rule: uri_encodes.induct) auto

lemma poke_append: "poke s i (a @ b) = poke (poke s i a) (i + length a) b"
  by (induction a arbitrary: s i) auto

lemma poke_past: "length s \<le> i \<Longrightarrow> poke s i cs = s"
  by (induction cs arbitrary: i) (auto simp: list_update_beyond)

lemma poke_prefix: "poke (pre @ s) (length pre) cs = pre @ poke s 0 cs"
proof (induction cs arbitrary: pre s)
  case (Cons c cs)
  show ?case
  proof (cases s)
    case Nil
    then show ?thesis by (simp add: poke_past list_update_beyond)
  next
    case (Cons d r)
    have "poke ((pre @ [c]) @ r) (length (pre @ [c])) cs = (pre @ [c]) @ poke r 0 cs" by (rule Cons.IH)
    moreover have "poke ([c] @ r) (length [c]) cs = [c] @ poke r 0 cs" by (rule Cons.IH)
    ultimately show ?thesis using \<open>s = d # r\<close> by simp
  qed
qed simp

lemma poke_over: "length cs = length a \<Longrightarrow> poke (a @ b) 0 cs = cs @ b"
proof (induction cs arbitrary: a)
  case (Cons c cs)
  then obtain d r where "a = d # r" "length cs = length r" by (cases a) auto
  with Cons.IH [of r] poke_prefix [of "[c]" "r @ b" cs] show ?case by simp
qed simp

text \<open>Writing a decoded value and its terminator over the encoded one.\<close>

lemma poke_value:
  assumes "length v \<le> length ev"
  shows "poke (pre @ ev @ rest) (length pre) (v @ [NUL]) = pre @ v @ (drop (length v) ev @ rest)[0 := NUL]"
proof -
  have e: "ev @ rest = take (length v) ev @ drop (length v) ev @ rest"
    by (metis append.assoc append_take_drop_id)
  have "poke (ev @ rest) 0 v = v @ drop (length v) ev @ rest"
    by (subst e, rule poke_over) (use assms in simp)
  then show ?thesis
    unfolding poke_prefix poke_append by (simp add: list_update_append)
qed

lemma c_str_value: "NUL \<notin> set v \<Longrightarrow> c_str (v @ x[0 := NUL]) = v"
  by (cases x) (simp_all add: c_str_append_NUL)

lemma scan_to_found:
  "c \<notin> set a \<Longrightarrow> length pre + length a < stop \<Longrightarrow>
   scan_to c (pre @ a @ c # b) stop (length pre) = length pre + length a"
proof -
  assume c: "c \<notin> set a" and s: "length pre + length a < stop"
  have "take (stop - length pre) (a @ c # b) = a @ c # take (stop - length pre - length a - 1) b"
    using s by (cases "stop - length pre - length a") simp_all
  moreover have "takeWhile (\<lambda>d. d \<noteq> c) (a @ c # r) = a" for r
    using c by (subst takeWhile_append2) auto
  ultimately show ?thesis by (simp add: scan_to_def)
qed

lemma scan_to_stop:
  "c \<notin> set a \<Longrightarrow> scan_to c (pre @ a @ b) (length pre + length a) (length pre) = length pre + length a"
proof -
  assume "c \<notin> set a"
  then have *: "takeWhile (\<lambda>d. d \<noteq> c) a = a" by (auto simp: takeWhile_eq_all_conv)
  show ?thesis by (simp add: scan_to_def *)
qed

text \<open>
  A form is a list of keys and values with an encoding of each; in the body the items are
  separated by ampersands.
\<close>

type_synonym form = "(string \<times> string \<times> string \<times> string) list"

fun form_body :: "form \<Rightarrow> string" where
  "form_body [] = []"
| "form_body [(k, v, ek, ev)] = ek @ CHR ''='' # ev"
| "form_body ((k, v, ek, ev) # ps) = ek @ CHR ''='' # ev @ CHR ''&'' # form_body ps"

fun form_item :: "string \<times> string \<times> string \<times> string \<Rightarrow> bool" where
  "form_item (k, v, ek, ev) \<longleftrightarrow>
     uri_encodes k ek \<and> uri_encodes v ev \<and> CHR ''='' \<notin> set ek \<and> CHR ''&'' \<notin> set ev \<and> NUL \<notin> set v"

definition form_values :: "string \<Rightarrow> form \<Rightarrow> string list" where
  "form_values key ps = map (fst \<circ> snd) (filter (\<lambda>p. fst p = key) ps)"

text \<open>One pass over an item with a value; \<open>m\<close> is the length of the body behind the value.\<close>

lemma urlencoded_item:
  assumes "form_item (k, v, ek, ev)" "0 < length ev + m" "m = 0 \<or> (\<exists>r. rest = CHR ''&'' # r)"
    and "stop = length pre + length ek + 1 + length ev + m"
  shows "urlencoded_step junk stop
           \<lparr>ps_ptr = length pre, ps_str = pre @ ek @ CHR ''='' # ev @ rest, ps_post = post, ps_ret = b\<rparr> =
         \<lparr>ps_ptr = length pre + length ek + length ev + 2,
          ps_str = pre @ ek @ CHR ''='' # v @ (drop (length v) ev @ rest)[0 := NUL],
          ps_post = post_insert k (length pre + length ek + 1) post, ps_ret = b\<rparr>"
proof -
  let ?s = "pre @ ek @ CHR ''='' # ev @ rest"
  let ?q = "pre @ ek @ [CHR ''='']"
  have sq: "?s = ?q @ ev @ rest" by simp
  have lq: "length ?q = length pre + length ek + 1" by simp
  have c1: "scan_to (CHR ''='') ?s stop (length pre) = length pre + length ek"
    using assms(1,4) by (intro scan_to_found) simp_all
  have c2: "scan_to (CHR ''&'') ?s stop (length ?q) = length ?q + length ev"
  proof (cases "m = 0")
    case True
    then have stop: "stop = length ?q + length ev" using assms(4) by simp
    show ?thesis unfolding sq stop by (rule scan_to_stop) (use assms(1) in simp)
  next
    case False
    then obtain r where "rest = CHR ''&'' # r" using assms(3) by blast
    then show ?thesis
      using assms(1,4) False unfolding sq by (simp only:) (rule scan_to_found, simp_all)
  qed
  have key: "uri_decode junk (substr ?s (length pre) (length ek)) = k"
    using assms(1) by (simp add: substr_def uri_decode_def uri_decode_encoded)
  have val: "uri_decode junk (substr ?s (length ?q) (length ev)) = v"
    using assms(1) unfolding sq by (simp add: substr_def uri_decode_def uri_decode_encoded)
  have wr: "poke ?s (length ?q) (v @ [NUL]) = ?q @ v @ (drop (length v) ev @ rest)[0 := NUL]"
    unfolding sq by (rule poke_value) (use assms(1) uri_encodes_length in auto)
  show ?thesis
    using c1 c2 key val wr assms(2,4) unfolding urlencoded_step_def lq by (simp add: Let_def)
qed

text \<open>The last item without a value.\<close>

lemma urlencoded_item_empty:
  assumes "form_item (k, [], ek, [])"
  shows "urlencoded_step junk (length pre + length ek + 1)
           \<lparr>ps_ptr = length pre, ps_str = pre @ ek @ CHR ''='' # rest, ps_post = post, ps_ret = b\<rparr> =
         \<lparr>ps_ptr = length pre + length ek + 1, ps_str = pre @ ek @ NUL # rest,
          ps_post = post_insert k (length pre + length ek) post, ps_ret = b\<rparr>"
proof -
  let ?s = "pre @ ek @ CHR ''='' # rest"
  have c1: "scan_to (CHR ''='') ?s (length pre + length ek + 1) (length pre) = length pre + length ek"
    using assms by (intro scan_to_found) simp_all
  have key: "uri_decode junk (substr ?s (length pre) (length ek)) = k"
    using assms by (simp add: substr_def uri_decode_def uri_decode_encoded)
  have wr: "poke ?s (length pre + length ek) [NUL] = pre @ ek @ NUL # rest"
    by (simp add: list_update_append)
  show ?thesis
    using c1 key wr unfolding urlencoded_step_def by (simp add: Let_def)
qed

lemma form_body_Cons:
  "form_body ((k, v, ek, ev) # ps) =
     ek @ CHR ''='' # ev @ (if ps = [] then [] else CHR ''&'' # form_body ps)"
  by (cases ps) auto

text \<open>What the loop leaves behind: the values, where the object points to them.\<close>

definition form_read :: "form \<Rightarrow> string \<Rightarrow> (string \<times> nat) list \<Rightarrow> (string \<times> nat) list \<Rightarrow> bool" where
  "form_read ps s post0 post \<longleftrightarrow>
     (\<forall>key. \<exists>es. post_array key post = post_array key post0 @ es \<and>
        map (\<lambda>p. c_str (drop p s)) es = form_values key ps)"

lemma form_read_Nil: "form_read [] s post post"
  by (simp add: form_read_def form_values_def)

lemma form_read_Cons:
  assumes "form_read ps s (post_insert k p post0) post" "sorted (map fst post0)" "c_str (drop p s) = v"
  shows "form_read ((k, v, ek, ev) # ps) s post0 post"
  unfolding form_read_def
proof
  fix key
  from assms(1) obtain es where es: "post_array key post = post_array key (post_insert k p post0) @ es"
    "map (\<lambda>p. c_str (drop p s)) es = form_values key ps"
    unfolding form_read_def by blast
  show "\<exists>es. post_array key post = post_array key post0 @ es \<and>
      map (\<lambda>p. c_str (drop p s)) es = form_values key ((k, v, ek, ev) # ps)"
    using es assms(3) post_array_insert [OF assms(2), of key k p]
    by (intro exI [of _ "(if k = key then [p] else []) @ es"]) (auto simp: form_values_def)
qed

lemma urlencoded_form:
  assumes "ps \<noteq> []" "\<forall>p \<in> set ps. form_item p" "sorted (map fst post)"
  shows "\<exists>t mid tail1. urlencoded junk (length pre + length (form_body ps))
      \<lparr>ps_ptr = length pre, ps_str = pre @ form_body ps @ tail, ps_post = post, ps_ret = b\<rparr> = Some t \<and>
    ps_ret t = b \<and> ps_str t = pre @ mid @ tail1 \<and> length mid = length (form_body ps) \<and>
    length tail1 = length tail \<and> drop 1 tail1 = drop 1 tail \<and> form_read ps (ps_str t) post (ps_post t)"
  using assms
proof (induction ps arbitrary: pre post)
  case Nil
  then show ?case by simp
next
  case (Cons p ps)
  obtain k v ek ev where p: "p = (k, v, ek, ev)" by (cases p)
  have item: "form_item (k, v, ek, ev)" using Cons.prems p by simp
  have le: "length v \<le> length ev" using item uri_encodes_length by simp
  let ?stop = "length pre + length (form_body (p # ps))"
  let ?st = "\<lparr>ps_ptr = length pre, ps_str = pre @ form_body (p # ps) @ tail, ps_post = post, ps_ret = b\<rparr>"
  have first: "urlencoded junk ?stop ?st = urlencoded junk ?stop (urlencoded_step junk ?stop ?st)"
    unfolding urlencoded_def by (subst while_option_unfold) (simp add: p form_body_Cons)
  show ?case
  proof (cases "ps = []")
    case last: True
    show ?thesis
    proof (cases "ev = []")
      case True
      let ?t = "\<lparr>ps_ptr = ?stop, ps_str = pre @ ek @ NUL # tail,
        ps_post = post_insert k (length pre + length ek) post, ps_ret = b\<rparr>"
      have v: "v = []" using le True by simp
      have "urlencoded_step junk ?stop ?st = ?t"
        using urlencoded_item_empty [of k ek junk pre tail post b] item last True by (simp add: p v)
      moreover have "urlencoded junk ?stop ?t = Some ?t"
        unfolding urlencoded_def by (subst while_option_unfold) simp
      ultimately have "urlencoded junk ?stop ?st = Some ?t" using first by simp
      moreover have "form_read (p # ps) (ps_str ?t) post (ps_post ?t)"
        unfolding p last
        by (rule form_read_Cons [where p = "length pre + length ek"])
          (use Cons.prems in \<open>simp_all add: form_read_Nil v c_str_def\<close>)
      ultimately show ?thesis
        using last True p by (intro exI [of _ ?t] exI [of _ "ek @ [NUL]"] exI [of _ tail]) simp
    next
      case False
      let ?x = "(drop (length v) ev @ tail)[0 := NUL]"
      let ?t = "\<lparr>ps_ptr = length pre + length ek + length ev + 2, ps_str = pre @ ek @ CHR ''='' # v @ ?x,
        ps_post = post_insert k (length pre + length ek + 1) post, ps_ret = b\<rparr>"
      have "urlencoded_step junk ?stop ?st = ?t"
        using urlencoded_item [OF item, of 0 tail ?stop pre junk post b] last False by (simp add: p)
      moreover have "urlencoded junk ?stop ?t = Some ?t"
        unfolding urlencoded_def by (subst while_option_unfold) (simp add: p last)
      ultimately have "urlencoded junk ?stop ?st = Some ?t" using first by simp
      moreover have "form_read (p # ps) (ps_str ?t) post (ps_post ?t)"
        unfolding p last
        by (rule form_read_Cons [where p = "length pre + length ek + 1"])
          (use Cons.prems item in \<open>simp_all add: form_read_Nil c_str_value\<close>)
      moreover have "?x = take (length ev - length v) ?x @ drop (length ev - length v) ?x" by simp
      moreover have "drop 1 (drop (length ev - length v) ?x) = drop 1 tail"
      proof -
        have "drop 1 (drop (length d) ((d @ tail)[0 := NUL])) = drop 1 tail" for d
          by (cases d) simp_all
        from this [of "drop (length v) ev"] show ?thesis by (simp only: length_drop)
      qed
      ultimately show ?thesis
        using last le p
        by (intro exI [of _ ?t] exI [of _ "ek @ CHR ''='' # v @ take (length ev - length v) ?x"]
            exI [of _ "drop (length ev - length v) ?x"]) simp
    qed
  next
    case False
    define r where "r = form_body ps"
    define y where "y = (drop (length v) ev @ [CHR ''&''])[0 := NUL]"
    define pre1 where "pre1 = pre @ ek @ CHR ''='' # v @ y"
    let ?post1 = "post_insert k (length pre + length ek + 1) post"
    have b: "form_body (p # ps) = ek @ CHR ''='' # ev @ CHR ''&'' # r"
      using False by (simp add: p form_body_Cons r_def)
    have ly: "length v + length y = Suc (length ev)" using le by (simp add: y_def)
    have l1: "length pre1 = length pre + length ek + length ev + 2" using le by (simp add: pre1_def y_def)
    have x: "(drop (length v) ev @ CHR ''&'' # r @ tail)[0 := NUL] = y @ r @ tail"
      by (cases "drop (length v) ev") (simp_all add: y_def)
    have step: "urlencoded_step junk ?stop ?st =
        \<lparr>ps_ptr = length pre1, ps_str = pre1 @ r @ tail, ps_post = ?post1, ps_ret = b\<rparr>"
      using urlencoded_item [OF item, of "Suc (length r)" "CHR ''&'' # r @ tail" ?stop pre junk post b]
      using ly by (simp add: b x pre1_def)
    obtain t mid tail1 where t: "urlencoded junk (length pre1 + length r)
        \<lparr>ps_ptr = length pre1, ps_str = pre1 @ r @ tail, ps_post = ?post1, ps_ret = b\<rparr> = Some t"
      "ps_ret t = b" "ps_str t = pre1 @ mid @ tail1" "length mid = length r" "length tail1 = length tail"
      "drop 1 tail1 = drop 1 tail" "form_read ps (ps_str t) ?post1 (ps_post t)"
      using Cons.IH [OF False, of ?post1 pre1] Cons.prems(2,3) sorted_post_insert
      unfolding r_def by (metis list.set_intros(2))
    have "?stop = length pre1 + length r" unfolding b l1 by simp
    with t(1) have "urlencoded junk ?stop ?st = Some t" unfolding first step by simp
    moreover have "c_str (drop (length pre + length ek + 1) (ps_str t)) = v"
    proof -
      have "drop (length pre + length ek + 1) (ps_str t) = v @ y @ mid @ tail1"
        unfolding t(3) pre1_def by simp
      also have "y @ mid @ tail1 = (drop (length v) ev @ CHR ''&'' # mid @ tail1)[0 := NUL]"
        by (cases "drop (length v) ev") (simp_all add: y_def)
      finally show ?thesis using item by (simp add: c_str_value)
    qed
    then have "form_read (p # ps) (ps_str t) post (ps_post t)"
      unfolding p using t(7) Cons.prems(3) by (intro form_read_Cons)
    ultimately show ?thesis
      using t le unfolding b
      by (intro exI [of _ t] exI [of _ "ek @ CHR ''='' # v @ y @ mid"] exI [of _ tail1])
        (simp add: pre1_def y_def)
  qed
qed

text \<open>C35: Every posted form is read back.  The decoding in place, which overwrites each encoded
  value with the decoded one and its terminator, leaves for every key exactly the values the
  form has for it, in their order, and keeps everything in front of the body.  Behind the body
  it may overwrite one character with the terminator of the last value.\<close>

theorem form_read_back:
  assumes "header_value (hr_headers r) ''Content-Type'' = Inr ''application/x-www-form-urlencoded''"
    and "hr_body r = Some (length pre)" and "hr_body_size r = length (form_body ps)"
    and "ps \<noteq> []" and "\<forall>p \<in> set ps. form_item p"
  shows "\<exists>s r1 mid tail1. get_post junk (pre @ form_body ps @ tail) r = Some (Inr (True, s, r1)) \<and>
    s = pre @ mid @ tail1 \<and> length mid = length (form_body ps) \<and> length tail1 = length tail \<and>
    drop 1 tail1 = drop 1 tail \<and>
    (\<forall>key. map (\<lambda>p. c_str (drop p s)) (post_array key (hr_post r1)) = form_values key ps)"
proof -
  obtain t mid tail1 where t: "urlencoded junk (length pre + length (form_body ps))
      \<lparr>ps_ptr = length pre, ps_str = pre @ form_body ps @ tail, ps_post = [], ps_ret = True\<rparr> = Some t"
    "ps_ret t = True" "ps_str t = pre @ mid @ tail1" "length mid = length (form_body ps)"
    "length tail1 = length tail" "drop 1 tail1 = drop 1 tail" "form_read ps (ps_str t) [] (ps_post t)"
    using urlencoded_form [OF assms(4,5), of "[]" junk pre tail True] by auto
  have "map (\<lambda>p. c_str (drop p (ps_str t))) (post_array key (ps_post t)) = form_values key ps" for key
    using t(7) unfolding form_read_def by (auto simp: post_array_def)
  then show ?thesis
    using t assms(1-3) unfolding get_post_def Let_def
    by (intro exI [of _ "ps_str t"] exI [of _ "r\<lparr>hr_post := ps_post t\<rparr>"] exI [of _ mid] exI [of _ tail1])
      (simp add: post_finish_def)
qed

definition demo_post :: http_request where
  "demo_post = http_new\<lparr>hr_headers := [''POST / HTTP/1.1'', ''Content-Type: application/x-www-form-urlencoded''],
     hr_body := Some 2, hr_body_size := 10\<rparr>"

lemma form_read_back_witness:
  "\<exists>s r1 mid tail1. get_post 0 (''xx'' @ form_body [(''a'', ''b '', ''a'', ''b+''), (''c'', ''d'', ''c'', ''%64'')] @ ''next'') demo_post =
     Some (Inr (True, s, r1)) \<and> s = ''xx'' @ mid @ tail1 \<and> length mid = 10 \<and> length tail1 = 4 \<and>
     drop 1 tail1 = ''ext'' \<and> map (\<lambda>p. c_str (drop p s)) (post_array ''a'' (hr_post r1)) = [''b ''] \<and>
     map (\<lambda>p. c_str (drop p s)) (post_array ''c'' (hr_post r1)) = [''d'']"
proof -
  let ?ps = "[(''a'', ''b '', ''a'', ''b+''), (''c'', ''d'', ''c'', ''%64'')]"
  have h: "header_value (hr_headers demo_post) ''Content-Type'' = Inr ''application/x-www-form-urlencoded''"
    "hr_body demo_post = Some (length ''xx'')" "hr_body_size demo_post = length (form_body ?ps)"
    "?ps \<noteq> []" "form_values ''a'' ?ps = [''b '']" "form_values ''c'' ?ps = [''d'']"
    "length (form_body ?ps) = 10" "length ''next'' = 4" "drop 1 ''next'' = ''ext''" "NUL \<notin> set ''b ''"
    "NUL \<notin> set ''d''" "BLANK = CHR '' ''" "char_of (16 * 6 + 4 :: nat) = CHR ''d''"
    "hex_value (CHR ''6'') = Some 6" "hex_value (CHR ''4'') = Some 4"
    by code_simp+
  have "uri_encodes ''b '' ''b+''"
    using enc_self [OF enc_plus [OF enc_end], of "CHR ''b''"] by (simp add: h(12))
  moreover have "uri_encodes ''d'' ''%64''"
    using enc_escape [OF enc_end h(14,15)] by (simp only: h(13))
  moreover have "uri_encodes [c] [c]" if "c \<noteq> CHR ''%''" "c \<noteq> CHR ''+''" for c
    using enc_self [OF enc_end that] .
  ultimately have i: "\<forall>p \<in> set ?ps. form_item p" using h(10,11) by simp
  from form_read_back [OF h(1-4) i, of 0 "''next''"]
  obtain s r1 mid tail1 where g: "get_post 0 (''xx'' @ form_body ?ps @ ''next'') demo_post = Some (Inr (True, s, r1))"
    "s = ''xx'' @ mid @ tail1" "length mid = length (form_body ?ps)" "length tail1 = length ''next''"
    "drop 1 tail1 = drop 1 ''next''"
    "\<And>key. map (\<lambda>p. c_str (drop p s)) (post_array key (hr_post r1)) = form_values key ?ps"
    by blast
  show ?thesis
    by (intro exI conjI)
      (rule g(1), rule g(2), rule g(3) [unfolded h(7)], rule g(4) [unfolded h(8)], rule g(5) [unfolded h(9)],
        rule g(6) [of "''a''", unfolded h(5)], rule g(6) [of "''c''", unfolded h(6)])
qed

text \<open>A body of the form content type without an equals sign is never finished: the call
  reports nothing and does not return.\<close>

theorem form_without_equals:
  assumes "header_value (hr_headers r) ''Content-Type'' = Inr ''application/x-www-form-urlencoded''"
    and "hr_body r = Some (length pre)" and "hr_body_size r = length body"
    and "body \<noteq> []" and "CHR ''='' \<notin> set body"
  shows "get_post junk (pre @ body @ tail) r = None"
proof -
  let ?stop = "length pre + length body"
  let ?st = "\<lambda>b. \<lparr>ps_ptr = length pre, ps_str = pre @ body @ tail, ps_post = [], ps_ret = b\<rparr>"
  have step: "urlencoded_step junk ?stop (?st b) = ?st False" for b
    using scan_to_stop [OF assms(5), of pre tail] by (simp add: urlencoded_step_def)
  have "urlencoded junk ?stop (?st False) = None"
    unfolding urlencoded_def by (rule while_option_stuck) (use assms(4) step in simp_all)
  then have "urlencoded junk ?stop (?st True) = None"
    using assms(4) unfolding urlencoded_def by (subst while_option_unfold) (simp add: step)
  with assms(1-3) show ?thesis by (simp add: get_post_def Let_def)
qed

lemma form_without_equals_witness:
  "get_post 0 (''xx'' @ ''abcdefghij'' @ []) demo_post = None"
proof -
  have h: "header_value (hr_headers demo_post) ''Content-Type'' = Inr ''application/x-www-form-urlencoded''"
    "hr_body demo_post = Some (length ''xx'')" "hr_body_size demo_post = length ''abcdefghij''"
    "''abcdefghij'' \<noteq> []" "CHR ''='' \<notin> set ''abcdefghij''"
    by code_simp+
  show ?thesis by (rule form_without_equals [OF h])
qed

section \<open>Replies\<close>

fun lf_cr :: "string \<Rightarrow> bool" where
  "lf_cr (a # b # s) \<longleftrightarrow> a = LF \<and> b = CR \<or> lf_cr (b # s)"
| "lf_cr _ \<longleftrightarrow> False"

lemma lf_cr_append:
  "lf_cr (a @ b) \<longleftrightarrow> lf_cr a \<or> lf_cr b \<or> a \<noteq> [] \<and> b \<noteq> [] \<and> last a = LF \<and> hd b = CR"
  by (induction a rule: lf_cr.induct) (auto simp: neq_Nil_conv, (cases b; simp)+)

lemma lf_cr_none: "LF \<notin> set s \<Longrightarrow> \<not> lf_cr s"
  by (induction s rule: lf_cr.induct) auto

lemma find_blank_line_none: "\<not> lf_cr s \<Longrightarrow> find_at (CRLF @ CRLF) s = None"
proof -
  have "lf_cr (CRLF @ CRLF)" by (simp add: CRLF_def)
  then have "sublist (CRLF @ CRLF) s \<Longrightarrow> lf_cr s" unfolding sublist_def by (auto simp: lf_cr_append)
  then show "\<not> lf_cr s \<Longrightarrow> find_at (CRLF @ CRLF) s = None" by (auto simp: find_at_None)
qed

lemma decimal_no_LF: "LF \<notin> set (decimal n)"
  using decimal_digits [of LF n] by (auto simp: digit_def LF_def)

lemma decimal_no_NUL: "NUL \<notin> set (decimal n)"
  using decimal_digits [of NUL n] by (auto simp: digit_def NUL_def)

lemma decimal_length: "0 < k \<Longrightarrow> n < 10 ^ k \<Longrightarrow> length (decimal n) \<le> k"
proof (induction k arbitrary: n)
  case (Suc k)
  show ?case
  proof (cases "n < 10")
    case True
    then show ?thesis by (subst decimal.simps) simp
  next
    case False
    with Suc.prems have "n div 10 < 10 ^ k" "0 < k" by (auto simp: less_mult_imp_div_less mult.commute intro: gr0I)
    with Suc.IH [of "n div 10"] False show ?thesis by (subst decimal.simps) simp
  qed
qed simp

lemma length_header_line:
  "find_at (CRLF @ CRLF) (length_header cl) = None"
proof -
  define a where "a = ''HTTP/1.1 200 OK'' @ CRLF @ ''Content-Type: text/html'' @ CRLF @ ''Content-Length: ''"
  define b where "b = CRLF @ ''Connection: keep-alive'' @ CRLF @ ''Cache-Control: no-store''"
  have "\<not> lf_cr a" "last a \<noteq> LF" "\<not> lf_cr b" "a \<noteq> []" unfolding a_def b_def by code_simp+
  moreover have "\<not> lf_cr (decimal cl)" "last (decimal cl) \<noteq> LF"
    using lf_cr_none [OF decimal_no_LF] decimal_no_LF decimal_nonempty [of cl] by (metis last_in_set)+
  ultimately have "\<not> lf_cr (a @ decimal cl @ b)"
    using decimal_nonempty [of cl] by (simp add: lf_cr_append)
  then show ?thesis
    by (intro find_blank_line_none) (simp add: length_header_def a_def b_def)
qed

lemma length_header_fits: "cl < 10 ^ 10 \<Longrightarrow> take 127 (length_header cl) = length_header cl"
proof -
  assume "cl < 10 ^ 10"
  then have "length (decimal cl) \<le> 10" by (intro decimal_length) simp_all
  then have "length (length_header cl) \<le> 127" by (simp add: length_header_def)
  then show ?thesis by simp
qed

text \<open>Putting the length header on a reply replaces everything in front of the first blank
  line and keeps the body; the header announces exactly the size of the body.  The buffer and
  the string variant agree.\<close>

theorem length_header_set:
  assumes "txt_ok t" and "txt_text t = h @ CRLF @ CRLF @ body" and "NUL \<notin> set (txt_text t)"
    and "find_at (CRLF @ CRLF) (txt_text t) = Some (length h)" and "length body < 10 ^ 10"
  shows "\<exists>u. set_length_txt mem t = Some u \<and> txt_ok u \<and>
           txt_text u = length_header (length body) @ CRLF @ CRLF @ body \<and>
           set_length_string (txt_text t) = Some (txt_text u)"
proof -
  let ?H = "length_header (length body)"
  have first: "\<not> prefix (CRLF @ CRLF) (drop j h @ (CRLF @ CRLF) @ body)" if "j < length h" for j
    using find_at_first [OF assms(4) that] that by (simp add: assms(2))
  have whole: "txt_text t = h @ (CRLF @ CRLF) @ body" using assms(2) by simp
  obtain u where u: "txt_find (CRLF @ CRLF) t = Some (length h)" "txt_replace mem 0 (length h) ?H t = Some u"
    "txt_ok u" "txt_text u = ?H @ (CRLF @ CRLF) @ body"
    by (rule tbuf.replace_head [OF assms(1,3) whole first, where s = ?H and mem = mem])
  have "tx_endptr t - length h - 4 = length body"
    using length_txt_text [OF assms(1)] whole by simp
  then have "set_length_txt mem t = Some u"
    using u(1,2) length_header_fits [OF assms(5)] by (simp add: set_length_txt_def replace_header_txt_def)
  moreover have "set_length_string (txt_text t) = Some (txt_text u)"
    using assms(2,4) u(4) length_header_line [of "length body"]
    by (simp add: set_length_string_def replace_header_string_def str_find_def substr_to_def string_replace_def
        del: append_assoc)
  ultimately show ?thesis using u(3,4) by auto
qed

lemma length_header_set_witness:
  "\<exists>u. set_length_txt (\<lambda>_. NUL) (txt_of (\<lambda>_. NUL) (''X'' @ CRLF @ CRLF @ ''<p>'') 8 0) = Some u \<and> txt_ok u \<and>
     txt_text u = length_header 3 @ CRLF @ CRLF @ ''<p>''"
proof -
  let ?t = "txt_of (\<lambda>_. NUL) (''X'' @ CRLF @ CRLF @ ''<p>'') 8 0"
  have h: "txt_ok ?t" "txt_text ?t = ''X'' @ CRLF @ CRLF @ ''<p>''" "NUL \<notin> set (txt_text ?t)"
    "find_at (CRLF @ CRLF) (txt_text ?t) = Some (length ''X'')" "length ''<p>'' = 3"
    by code_simp+
  have "length ''<p>'' < 10 ^ 10" by simp
  from length_header_set [OF h(1-4) this, of "\<lambda>_. NUL", unfolded h(5)] show ?thesis by blast
qed

end
