(* ===== verification/Send_Queue.thy ===== *)
theory Send_Queue
  imports Prelude
begin

text \<open>
  The send queue of a client (\<open>WEB::SENDBUF\<close> and the queue operations of \<open>WEB::CLIENT\<close> in
  \<open>network/web.h\<close> and \<open>network/web.cpp\<close>).  Data is handed to lwIP without copying, so a buffer
  stays in the queue until all of it is acknowledged, and the next one is not touched before.
  The bytes of a buffer are a list; a pointer into the front buffer is represented by the bytes
  it points to.  The counters are \<open>int32_t\<close>; a buffer has at most 65535 bytes (its length is
  passed as \<open>u16_t\<close>), so the counters do not overflow and are integers.

  The contract of the queue is the locale \<open>byte_pipe\<close>: what has been written followed by what
  is still to be written is what was queued.
\<close>

section \<open>Definitions\<close>

datatype allocation = ALLOC | STAT | PREALL

record sendbuf =
  sb_data :: "u8 list"
  sb_size :: int
  sb_sent :: int
  sb_ack :: int
  sb_alloc :: allocation

text \<open>The constructor; \<open>ALLOC\<close> copies the data, the other kinds keep the pointer.\<close>

definition sendbuf_new :: "u8 list \<Rightarrow> allocation \<Rightarrow> sendbuf" where
  "sendbuf_new data alloc =
     \<lparr>sb_data = data, sb_size = int (length data), sb_sent = 0, sb_ack = 0, sb_alloc = alloc\<rparr>"

definition to_send :: "sendbuf \<Rightarrow> int" where
  "to_send b = sb_size b - sb_sent b"

definition sb_get_next :: "nat \<Rightarrow> sendbuf \<Rightarrow> u8 list option \<times> sendbuf" where
  "sb_get_next count b =
     (let n = min (int count) (to_send b)
      in (if n > 0 then Some (take (nat n) (drop (nat (sb_sent b)) (sb_data b))) else None,
          b\<lparr>sb_sent := sb_sent b + n\<rparr>))"

definition sb_requeue :: "u8 list \<Rightarrow> sendbuf \<Rightarrow> sendbuf" where
  "sb_requeue bytes b =
     (let nn = sb_sent b - int (length bytes)
      in if nn \<ge> 0 \<and> take (length bytes) (drop (nat nn) (sb_data b)) = bytes
         then b\<lparr>sb_sent := nn\<rparr> else b)"

text \<open>The count that is left for the following buffers is returned.\<close>

definition sb_acknowledge :: "int \<Rightarrow> sendbuf \<Rightarrow> int \<times> sendbuf" where
  "sb_acknowledge count b =
     (let na = sb_ack b + count
      in if na > sb_size b then (na - sb_size b, b\<lparr>sb_ack := sb_size b\<rparr>)
         else (0, b\<lparr>sb_ack := na\<rparr>))"

definition is_acknowledged :: "sendbuf \<Rightarrow> bool" where
  "is_acknowledged b \<longleftrightarrow> sb_ack b = sb_size b"

subsection \<open>The queue of a client\<close>

type_synonym send_queue = "sendbuf list"

definition queue_send :: "u8 list \<Rightarrow> allocation \<Rightarrow> send_queue \<Rightarrow> send_queue" where
  "queue_send data alloc q = q @ [sendbuf_new data alloc]"

text \<open>The loop ends when no count is left; one is left only behind an acknowledged buffer.\<close>

fun queue_acknowledge :: "int \<Rightarrow> send_queue \<Rightarrow> send_queue" where
  "queue_acknowledge count [] = []"
| "queue_acknowledge count (b # q) =
     (let (left, b1) = sb_acknowledge count b
      in if is_acknowledged b1
         then (if left = 0 then q else queue_acknowledge left q)
         else b1 # q)"

definition queue_get_next :: "nat \<Rightarrow> send_queue \<Rightarrow> u8 list option \<times> send_queue" where
  "queue_get_next count q =
     (if count > 0
      then (case queue_acknowledge 0 q of
              [] \<Rightarrow> (None, [])
            | b # q1 \<Rightarrow>
                if to_send b > 0
                then (let (bytes, b1) = sb_get_next count b in (bytes, b1 # q1))
                else (None, b # q1))
      else (None, q))"

definition queue_requeue :: "u8 list \<Rightarrow> send_queue \<Rightarrow> send_queue" where
  "queue_requeue bytes q = (case q of [] \<Rightarrow> [] | b # q1 \<Rightarrow> sb_requeue bytes b # q1)"

definition more_to_send :: "send_queue \<Rightarrow> bool" where
  "more_to_send q \<longleftrightarrow> q \<noteq> []"

text \<open>
  One call of \<open>write_next\<close> on the queue: the next bytes are taken and offered to lwIP, which
  accepts them or not; bytes that are not accepted are put back.  The bytes accepted are
  returned.
\<close>

definition queue_write :: "nat \<Rightarrow> bool \<Rightarrow> send_queue \<Rightarrow> u8 list \<times> send_queue" where
  "queue_write count accepted q =
     (case queue_get_next count q of
        (None, q1) \<Rightarrow> ([], q1)
      | (Some bytes, q1) \<Rightarrow> if accepted then (bytes, q1) else ([], queue_requeue bytes q1))"

section \<open>Invariant\<close>

text \<open>
  Counters in order; only the front buffer has been touched, and it is not acknowledged unless
  it is empty.
\<close>

definition sb_ok :: "sendbuf \<Rightarrow> bool" where
  "sb_ok b \<longleftrightarrow> sb_size b = int (length (sb_data b)) \<and> 0 \<le> sb_ack b \<and> sb_ack b \<le> sb_sent b \<and>
     sb_sent b \<le> sb_size b"

definition sb_fresh :: "sendbuf \<Rightarrow> bool" where
  "sb_fresh b \<longleftrightarrow> sb_size b = int (length (sb_data b)) \<and> sb_sent b = 0 \<and> sb_ack b = 0"

definition queue_ok :: "send_queue \<Rightarrow> bool" where
  "queue_ok q \<longleftrightarrow> (case q of [] \<Rightarrow> True | b # q1 \<Rightarrow> sb_ok b \<and> (\<forall>c \<in> set q1. sb_fresh c))"

text \<open>The bytes not written yet, and the number of bytes written and not acknowledged.\<close>

definition unsent :: "send_queue \<Rightarrow> u8 list" where
  "unsent q = concat (map (\<lambda>b. drop (nat (sb_sent b)) (sb_data b)) q)"

definition in_flight :: "send_queue \<Rightarrow> nat" where
  "in_flight q = (case q of [] \<Rightarrow> 0 | b # q1 \<Rightarrow> nat (sb_sent b - sb_ack b))"

lemma sb_fresh_ok: "sb_fresh b \<Longrightarrow> sb_ok b"
  by (simp add: sb_fresh_def sb_ok_def)

lemma queue_ok_tail: "\<forall>c \<in> set q. sb_fresh c \<Longrightarrow> queue_ok q"
  by (cases q) (auto simp: queue_ok_def sb_fresh_ok)

lemma queue_send_ok:
  assumes "queue_ok q"
  shows "queue_ok (queue_send data alloc q)" "unsent (queue_send data alloc q) = unsent q @ data"
    "in_flight (queue_send data alloc q) = in_flight q"
proof -
  have f: "sb_fresh (sendbuf_new data alloc)" by (simp add: sb_fresh_def sendbuf_new_def)
  show "queue_ok (queue_send data alloc q)"
    using assms f sb_fresh_ok [OF f] by (cases q) (auto simp: queue_ok_def queue_send_def)
  show "unsent (queue_send data alloc q) = unsent q @ data"
    by (simp add: unsent_def queue_send_def sendbuf_new_def)
  show "in_flight (queue_send data alloc q) = in_flight q"
    by (cases q) (simp_all add: in_flight_def queue_send_def sendbuf_new_def)
qed

text \<open>An acknowledgement of bytes in flight.\<close>

lemma queue_acknowledge_ok:
  assumes "queue_ok q" "n \<le> in_flight q"
  shows "queue_ok (queue_acknowledge (int n) q)" "unsent (queue_acknowledge (int n) q) = unsent q"
    "in_flight (queue_acknowledge (int n) q) = in_flight q - n"
proof -
  have "queue_ok (queue_acknowledge (int n) q) \<and> unsent (queue_acknowledge (int n) q) = unsent q \<and>
    in_flight (queue_acknowledge (int n) q) = in_flight q - n"
  proof (cases q)
    case Nil
    then show ?thesis by (simp add: in_flight_def queue_ok_def)
  next
    case (Cons b q1)
    have b: "sb_ok b" "\<forall>c \<in> set q1. sb_fresh c" using assms(1) Cons by (simp_all add: queue_ok_def)
    have n: "sb_ack b + int n \<le> sb_sent b" using assms(2) b(1) Cons by (auto simp: in_flight_def sb_ok_def le_nat_iff)
    then have na: "\<not> sb_ack b + int n > sb_size b" using b(1) by (simp add: sb_ok_def)
    have f: "in_flight q1 = 0" using b(2) by (cases q1) (simp_all add: in_flight_def sb_fresh_def)
    show ?thesis
      using b n na f Cons queue_ok_tail [OF b(2)]
      by (auto simp: sb_acknowledge_def is_acknowledged_def queue_ok_def sb_ok_def unsent_def in_flight_def)
  qed
  then show "queue_ok (queue_acknowledge (int n) q)" "unsent (queue_acknowledge (int n) q) = unsent q"
    "in_flight (queue_acknowledge (int n) q) = in_flight q - n" by blast+
qed

lemma queue_acknowledge_0:
  assumes "queue_ok q"
  shows "queue_ok (queue_acknowledge 0 q)" "unsent (queue_acknowledge 0 q) = unsent q"
    "in_flight (queue_acknowledge 0 q) = in_flight q"
  using queue_acknowledge_ok [OF assms, of 0] by simp_all

text \<open>The two outcomes of taking the next bytes.\<close>

lemma queue_get_next_cases:
  assumes "queue_ok q" "queue_get_next count q = (r, q1)"
  obtains "r = None" "queue_ok q1" "unsent q1 = unsent q" "in_flight q1 = in_flight q"
  | bytes b q2 where "r = Some bytes" "q1 = b\<lparr>sb_sent := sb_sent b + int (length bytes)\<rparr> # q2" "sb_ok b"
      "\<forall>c \<in> set q2. sb_fresh c" "0 < length bytes" "sb_sent b + int (length bytes) \<le> sb_size b"
      "bytes = take (length bytes) (drop (nat (sb_sent b)) (sb_data b))"
      "unsent q = unsent (b # q2)" "in_flight q = in_flight (b # q2)"
proof -
  note a = queue_acknowledge_0 [OF assms(1)]
  show thesis
  proof (cases "count > 0")
    case False
    with assms that(1) show thesis by (simp add: queue_get_next_def)
  next
    case count: True
    show thesis
    proof (cases "queue_acknowledge 0 q")
      case Nil
      with assms count a that(1) show thesis by (simp add: queue_get_next_def)
    next
      case (Cons b q2)
      have b: "sb_ok b" "\<forall>c \<in> set q2. sb_fresh c" using a(1) Cons by (simp_all add: queue_ok_def)
      show thesis
      proof (cases "to_send b > 0")
        case False
        with assms(2) count a that(1) Cons show thesis by (simp add: queue_get_next_def)
      next
        case True
        define n where "n = min (int count) (to_send b)"
        define bytes where "bytes = take (nat n) (drop (nat (sb_sent b)) (sb_data b))"
        have n: "0 < n" "n \<le> sb_size b - sb_sent b" using True count by (simp_all add: n_def to_send_def)
        have "nat n \<le> length (sb_data b) - nat (sb_sent b)"
          using n b(1) by (auto simp: sb_ok_def nat_le_iff of_nat_diff nat_le_eq_zle)
        then have len: "int (length bytes) = n" using n by (simp add: bytes_def)
        have "queue_get_next count q = (Some bytes, b\<lparr>sb_sent := sb_sent b + n\<rparr> # q2)"
          using True count n Cons
          by (simp add: queue_get_next_def sb_get_next_def Let_def bytes_def flip: n_def)
        then show thesis
          using assms(2) n len b a(2,3) Cons
          by (intro that(2) [of bytes b q2]) (auto simp: bytes_def min_def)
      qed
    qed
  qed
qed

lemma queue_write_ok:
  assumes "queue_ok q" "queue_write count accepted q = (bytes, q1)"
  shows "queue_ok q1 \<and> unsent q = bytes @ unsent q1 \<and> in_flight q1 = in_flight q + length bytes"
proof -
  obtain r q2 where g: "queue_get_next count q = (r, q2)" by (cases "queue_get_next count q")
  from assms(1) g show ?thesis
  proof (cases rule: queue_get_next_cases)
    case 1
    with g assms(2) show ?thesis by (simp add: queue_write_def)
  next
    case (2 cs b q3)
    let ?b = "b\<lparr>sb_sent := sb_sent b + int (length cs)\<rparr>"
    have s: "0 \<le> sb_sent b" "0 \<le> sb_ack b" "sb_ack b \<le> sb_sent b" using 2(3) by (simp_all add: sb_ok_def)
    show ?thesis
    proof (cases accepted)
      case True
      have "drop (nat (sb_sent b)) (sb_data b) = cs @ drop (nat (sb_sent b + int (length cs))) (sb_data b)"
        using 2(7) s(1) by (metis append_take_drop_id drop_drop nat_int_add add.commute int_nat_eq nat_int nat_add_distrib of_nat_0_le_iff)
      with True g assms(2) 2 s show ?thesis
        by (auto simp: queue_write_def queue_ok_def sb_ok_def unsent_def in_flight_def nat_add_distrib)
    next
      case False
      have "sb_requeue cs ?b = b" using 2(7) s by (simp add: sb_requeue_def)
      with False g assms(2) 2 show ?thesis
        by (auto simp: queue_write_def queue_ok_def queue_requeue_def)
    qed
  qed
qed

text \<open>A round trip with nothing in flight makes progress: bytes are written or a buffer leaves.\<close>

definition pending :: "send_queue \<Rightarrow> nat" where
  "pending q = length (unsent q) + length q"

lemma queue_acknowledge_length: "length (queue_acknowledge n q) \<le> length q"
  by (induction n q rule: queue_acknowledge.induct) (auto split: prod.splits simp: Let_def le_SucI)

lemma queue_round:
  assumes "queue_ok q" "in_flight q = 0" "q \<noteq> []" "0 < count" "queue_write count True q = (bytes, q1)"
  shows "pending (queue_acknowledge (int (length bytes)) q1) < pending q"
proof -
  have w: "queue_ok q1" "unsent q = bytes @ unsent q1" "in_flight q1 = length bytes"
    using queue_write_ok [OF assms(1,5)] assms(2) by auto
  note a = queue_acknowledge_ok [OF w(1), of "length bytes"]
  have len: "length (queue_acknowledge (int (length bytes)) q1) \<le> length q1"
    by (rule queue_acknowledge_length)
  have "length (snd (queue_get_next count q)) = length (queue_acknowledge 0 q)"
    using assms(4) by (simp add: queue_get_next_def split: list.splits prod.splits)
  then have l1: "length q1 \<le> length (queue_acknowledge 0 q)"
    using assms(5) by (auto simp: queue_write_def split: prod.splits option.splits)
  show ?thesis
  proof (cases "bytes = []")
    case False
    then have "0 < length bytes" by simp
    then show ?thesis
      using a(2) w(2,3) len l1 queue_acknowledge_length [of 0 q]
      by (simp add: pending_def del: length_greater_0_conv)
  next
    case True
    obtain b q2 where q: "q = b # q2" using assms(3) by (cases q) auto
    have b: "sb_ok b" "sb_ack b = sb_sent b" using assms(1,2) q by (auto simp: queue_ok_def in_flight_def sb_ok_def)
    have "is_acknowledged b"
    proof (rule ccontr)
      assume n: "\<not> is_acknowledged b"
      then have "queue_acknowledge 0 q = q" and "to_send b > 0"
        using b q by (auto simp: sb_acknowledge_def is_acknowledged_def sb_ok_def to_send_def)
      then have "bytes \<noteq> []"
        using assms(4,5) q b
        by (auto simp: queue_write_def queue_get_next_def sb_get_next_def Let_def sb_ok_def to_send_def min_def
            split: if_splits)
      with True show False by simp
    qed
    then have "queue_acknowledge 0 q = q2"
      using b q by (auto simp: sb_acknowledge_def is_acknowledged_def sb_ok_def)
    then show ?thesis using a(2) w(2,3) len l1 True q by (simp add: pending_def)
  qed
qed

lemma queue_rest:
  "pending q = 0 \<Longrightarrow> unsent q = [] \<and> queue_write n True q = ([], q) \<and> queue_acknowledge 0 q = q"
  by (simp add: pending_def queue_write_def queue_get_next_def unsent_def)

section \<open>The contract\<close>

text \<open>
  A pipe takes data in at one end and writes it in pieces at the other.  A round writes and has
  what it wrote acknowledged.
\<close>

fun rounds :: "('q \<Rightarrow> 'a list \<times> 'q) \<Rightarrow> nat \<Rightarrow> 'q \<Rightarrow> 'a list \<times> 'q" where
  "rounds step 0 q = ([], q)"
| "rounds step (Suc k) q =
     (let (bytes, q1) = step q; (rest, q2) = rounds step k q1 in (bytes @ rest, q2))"

locale byte_pipe =
  fixes ok :: "'q \<Rightarrow> bool"
    and content :: "'q \<Rightarrow> 'a list"
    and flight :: "'q \<Rightarrow> nat"
    and left :: "'q \<Rightarrow> nat"
    and put :: "'a list \<Rightarrow> 'q \<Rightarrow> 'q"
    and emit :: "nat \<Rightarrow> bool \<Rightarrow> 'q \<Rightarrow> 'a list \<times> 'q"
    and ack :: "nat \<Rightarrow> 'q \<Rightarrow> 'q"
  assumes put_law: "ok q \<Longrightarrow> ok (put d q) \<and> content (put d q) = content q @ d \<and> flight (put d q) = flight q"
    and emit_law: "ok q \<Longrightarrow> emit n a q = (bytes, q1) \<Longrightarrow>
      ok q1 \<and> content q = bytes @ content q1 \<and> flight q1 = flight q + length bytes"
    and ack_law: "ok q \<Longrightarrow> n \<le> flight q \<Longrightarrow>
      ok (ack n q) \<and> content (ack n q) = content q \<and> flight (ack n q) = flight q - n"
    and progress_law: "ok q \<Longrightarrow> flight q = 0 \<Longrightarrow> left q \<noteq> 0 \<Longrightarrow> 0 < n \<Longrightarrow> emit n True q = (bytes, q1) \<Longrightarrow>
      left (ack (length bytes) q1) < left q"
    and rest_law: "left q = 0 \<Longrightarrow> content q = [] \<and> emit n True q = ([], q) \<and> ack 0 q = q"
begin

lemma round:
  assumes "ok q" "flight q = 0" "emit n True q = (bytes, q1)"
  shows "ok (ack (length bytes) q1)" "flight (ack (length bytes) q1) = 0"
    "content q = bytes @ content (ack (length bytes) q1)"
  using emit_law [OF assms(1,3)] ack_law [of q1 "length bytes"] assms(2) by auto

text \<open>Enough rounds write everything and leave nothing.\<close>

lemma drained:
  assumes "ok q" "flight q = 0" "0 < n" "left q \<le> k"
  shows "\<exists>q2. rounds (\<lambda>q. case emit n True q of (bytes, q1) \<Rightarrow> (bytes, ack (length bytes) q1)) k q = (content q, q2) \<and>
    left q2 = 0"
  using assms(1,2,4)
proof (induction k arbitrary: q)
  case 0
  then show ?case by (simp add: rest_law)
next
  case (Suc k)
  obtain bytes q1 where e: "emit n True q = (bytes, q1)" by (cases "emit n True q")
  note r = round [OF Suc.prems(1,2) e]
  show ?case
  proof (cases "left q = 0")
    case True
    with rest_law [OF True, of n] Suc.IH [OF Suc.prems(1,2)] show ?thesis by auto
  next
    case False
    have "left (ack (length bytes) q1) \<le> k"
      using progress_law [OF Suc.prems(1,2) False assms(3) e] Suc.prems(3) by simp
    from Suc.IH [OF r(1,2) this] e r(3) show ?thesis by (auto simp: Let_def split: prod.splits)
  qed
qed

end

text \<open>The send queue is such a pipe.\<close>

interpretation pipe: byte_pipe queue_ok unsent in_flight pending "\<lambda>d. queue_send d alloc" queue_write
  "\<lambda>n. queue_acknowledge (int n)" for alloc
proof unfold_locales
  fix q :: send_queue and n bytes q1
  assume "queue_ok q" "in_flight q = 0" "pending q \<noteq> 0" "0 < n" "queue_write n True q = (bytes, q1)"
  then show "pending (queue_acknowledge (int (length bytes)) q1) < pending q"
    by (intro queue_round) (auto simp: pending_def unsent_def)
qed (simp_all add: queue_send_ok queue_write_ok queue_acknowledge_ok queue_rest)

section \<open>Properties\<close>

text \<open>What can happen to a queue, and the bytes accepted so far.\<close>

datatype queue_event = Queued "u8 list" allocation | Written nat bool | Acked nat

fun queue_step :: "u8 list \<times> send_queue \<Rightarrow> queue_event \<Rightarrow> u8 list \<times> send_queue" where
  "queue_step (out, q) (Queued d alloc) = (out, queue_send d alloc q)"
| "queue_step (out, q) (Written n accepted) =
     (let (bytes, q1) = queue_write n accepted q in (out @ bytes, q1))"
| "queue_step (out, q) (Acked n) = (out, queue_acknowledge (int n) q)"

definition queue_run :: "queue_event list \<Rightarrow> u8 list \<times> send_queue" where
  "queue_run evs = foldl queue_step ([], []) evs"

text \<open>lwIP acknowledges only what it was given.\<close>

definition ack_bound :: "queue_event \<Rightarrow> send_queue \<Rightarrow> bool" where
  "ack_bound e q \<longleftrightarrow> (case e of Acked n \<Rightarrow> n \<le> in_flight q | _ \<Rightarrow> True)"

definition ack_valid :: "queue_event list \<Rightarrow> bool" where
  "ack_valid evs \<longleftrightarrow> (\<forall>i < length evs. ack_bound (evs ! i) (snd (queue_run (take i evs))))"

fun queued_bytes :: "queue_event \<Rightarrow> u8 list" where
  "queued_bytes (Queued d alloc) = d"
| "queued_bytes _ = []"

fun acked_count :: "queue_event \<Rightarrow> nat" where
  "acked_count (Acked n) = n"
| "acked_count _ = 0"

lemma ack_valid_snoc:
  "ack_valid (evs @ [e]) \<longleftrightarrow> ack_valid evs \<and> ack_bound e (snd (queue_run evs))"
  by (auto simp: ack_valid_def nth_append less_Suc_eq all_conj_distrib)

lemma queue_run_inv:
  "ack_valid evs \<Longrightarrow> queue_run evs = (out, q) \<Longrightarrow>
   queue_ok q \<and> out @ unsent q = concat (map queued_bytes evs) \<and>
   length out = sum_list (map acked_count evs) + in_flight q"
proof (induction evs arbitrary: out q rule: rev_induct)
  case Nil
  then show ?case by (simp add: queue_run_def queue_ok_def unsent_def in_flight_def)
next
  case (snoc e evs)
  obtain out0 q0 where r: "queue_run evs = (out0, q0)" by (cases "queue_run evs")
  have IH: "queue_ok q0" "out0 @ unsent q0 = concat (map queued_bytes evs)"
    "length out0 = sum_list (map acked_count evs) + in_flight q0"
    using snoc.IH [OF _ r] snoc.prems(1) by (simp_all add: ack_valid_snoc)
  have step: "queue_step (out0, q0) e = (out, q)" using snoc.prems(2) r by (simp add: queue_run_def)
  show ?case
  proof (cases e)
    case (Queued d alloc)
    with step IH pipe.put_law [OF IH(1), of d alloc] show ?thesis by (auto simp flip: append_assoc)
  next
    case (Written n a)
    obtain bytes q1 where w: "queue_write n a q0 = (bytes, q1)" by (cases "queue_write n a q0")
    with Written step IH pipe.emit_law [OF IH(1) w] show ?thesis by auto
  next
    case (Acked n)
    then have "n \<le> in_flight q0" using snoc.prems(1) r by (simp add: ack_valid_snoc ack_bound_def)
    with Acked step IH pipe.ack_law [OF IH(1)] show ?thesis by auto
  qed
qed

text \<open>C37: The bytes a client is sent are the bytes that were queued for it, in order, without loss or
  repetition, however the writes are cut, whichever of them lwIP refuses, and however they are
  acknowledged.  No buffer is given up before all its bytes are acknowledged: the bytes written
  and not acknowledged are exactly those in flight in the queue.\<close>

theorem queue_stream:
  assumes "ack_valid evs" and "queue_run evs = (out, q)"
  shows "out @ unsent q = concat (map queued_bytes evs) \<and>
         length out = sum_list (map acked_count evs) + in_flight q \<and> queue_ok q"
  using queue_run_inv [OF assms] by blast

lemma queue_stream_witness:
  "\<exists>q. queue_run [Queued [1, 2, 3] ALLOC, Queued [4] STAT, Written 2 True, Written 2 False, Acked 2,
      Written 2 True, Acked 1, Written 9 True] = ([1, 2, 3, 4], q) \<and> in_flight q = 1"
proof -
  let ?evs = "[Queued [1, 2, 3] ALLOC, Queued [4] STAT, Written 2 True, Written 2 False, Acked 2,
      Written 2 True, Acked 1, Written 9 True]"
  obtain out q where r: "queue_run ?evs = (out, q)" by (cases "queue_run ?evs")
  have "out = [1, 2, 3, 4]" using r by (auto simp: queue_run_def queue_send_def sendbuf_new_def
    queue_write_def queue_get_next_def sb_acknowledge_def is_acknowledged_def to_send_def sb_get_next_def
    queue_requeue_def sb_requeue_def Let_def)
  moreover have "ack_valid ?evs" by code_simp
  ultimately show ?thesis using queue_stream [OF _ r] r by simp
qed

text \<open>C38: Sending ends: with nothing in flight, as many writes that lwIP accepts and acknowledges as
  the queue has bytes and buffers write everything that is queued and leave the queue empty.\<close>

theorem queue_drains:
  assumes "queue_ok q" and "in_flight q = 0" and "0 < n"
  shows "rounds (\<lambda>q. case queue_write n True q of (bytes, q1) \<Rightarrow> (bytes, queue_acknowledge (int (length bytes)) q1))
           (length (unsent q) + length q) q = (unsent q, [])"
  using pipe.drained [OF assms, of "length (unsent q) + length q"] by (auto simp: pending_def)

lemma queue_drains_witness:
  "rounds (\<lambda>q. case queue_write 2 True q of (bytes, q1) \<Rightarrow> (bytes, queue_acknowledge (int (length bytes)) q1))
     5 [sendbuf_new [1, 2, 3] ALLOC, sendbuf_new [] STAT] = ([1, 2, 3], [])"
proof -
  let ?q = "[sendbuf_new [1, 2, 3] ALLOC, sendbuf_new [] STAT]"
  have h: "queue_ok ?q" "in_flight ?q = 0" "(0 :: nat) < 2" "unsent ?q = [1, 2, 3]"
    "length (unsent ?q) + length ?q = 5"
    by (simp_all add: queue_ok_def in_flight_def sendbuf_new_def sb_ok_def sb_fresh_def unsent_def)
  show ?thesis by (rule queue_drains [OF h(1-3), unfolded h(5), unfolded h(4)])
qed

end
