(* ===== verification/Web.thy ===== *)
theory Web
  imports Ws Http_Request Send_Queue
begin

text \<open>
  The web server (\<open>WEB\<close> and \<open>WEB::CLIENT\<close> in \<open>network/web.h\<close> and \<open>network/web.cpp\<close>): its two
  tables of clients, the lwIP callbacks, HTTP requests, the websocket upgrade and websocket
  messages, sending and closing.

  A connection of lwIP (a pcb) is a number, a null pointer is \<open>None\<close>.  The handle of a client
  stands for the pointer to its object: the object is alive as long as the table of clients has
  an entry for the handle, and reading through the pointer of a deleted client is the fault
  \<open>Use_After_Free\<close>.  lwIP (free space of the send buffer, the results of \<open>altcp_write\<close> and
  \<open>altcp_close\<close>), the clock settings, the digest of the websocket key and the callbacks of the
  application are parameters in a record; every call the server makes is recorded in order.
  lwIP runs one callback at a time and does not call back from within a call.
\<close>

section \<open>Definitions\<close>

subsection \<open>State\<close>

type_synonym pcb = nat
type_synonym handle = u32

record client =
  cl_rqst :: string
  cl_pcb :: "pcb option"
  cl_closed :: bool
  cl_websocket :: bool
  cl_ws_close_sent :: bool
  cl_queue :: send_queue
  cl_http :: http_request
  cl_wshdr :: ws_header
  cl_last :: int
  cl_handle :: handle

datatype web_call =
    Tcp_write pcb "u8 list" bool
  | Tcp_recved pcb nat
  | Tcp_close "pcb option" bool
  | Http_rqst handle
  | Ws_message handle string

text \<open>
  The tables are \<open>std::map\<close>s, kept as lists in the order of their keys.
\<close>

record web =
  web_handles :: "(handle \<times> client) list"
  web_pcbs :: "(pcb \<times> handle) list"
  web_next :: handle
  web_calls :: "web_call list"
  web_time :: int

datatype web_fault = Use_After_Free | Null_Pointer | Out_Of_Bounds | Uncaught | No_Return

type_synonym 'a web_op = "web \<Rightarrow> web_fault + 'a \<times> web"

text \<open>
  The HTTP callback gets a handle and the value of its \<open>close\<close> parameter, acts on the server
  through its operations, and returns whether it handled the request and the new value of
  \<open>close\<close>.
\<close>

record web_env =
  env_sndbuf :: "web_call list \<Rightarrow> pcb \<Rightarrow> nat"
  env_write :: "web_call list \<Rightarrow> pcb \<Rightarrow> u8 list \<Rightarrow> bool"
  env_close :: "web_call list \<Rightarrow> pcb option \<Rightarrow> bool"
  env_http :: "(handle \<Rightarrow> bool \<Rightarrow> (bool \<times> bool) web_op) option"
  env_message :: "(handle \<Rightarrow> string \<Rightarrow> unit web_op) option"
  env_accept :: "string \<Rightarrow> string"
  env_http_idle :: int
  env_ws_idle :: int
  env_ws_wait :: int
  env_junk :: int
  env_mem :: "nat \<Rightarrow> char"
  env_junk_header :: ws_header

definition ret :: "'a \<Rightarrow> 'a web_op" where "ret a = (\<lambda>w. Inr (a, w))"

definition fail :: "web_fault \<Rightarrow> 'a web_op" where "fail e = (\<lambda>w. Inl e)"

definition bind_op :: "'a web_op \<Rightarrow> ('a \<Rightarrow> 'b web_op) \<Rightarrow> 'b web_op" where
  "bind_op m f = (\<lambda>w. case m w of Inl e \<Rightarrow> Inl e | Inr r \<Rightarrow> f (fst r) (snd r))"

definition then_op :: "'a web_op \<Rightarrow> 'b web_op \<Rightarrow> 'b web_op" where
  "then_op m n = bind_op m (\<lambda>_. n)"

definition web_call :: "web_call \<Rightarrow> unit web_op" where
  "web_call c = (\<lambda>w. Inr ((), w\<lparr>web_calls := web_calls w @ [c]\<rparr>))"

text \<open>Insertion into and removal from a table.\<close>

fun table_add :: "'k::linorder \<Rightarrow> 'v \<Rightarrow> ('k \<times> 'v) list \<Rightarrow> ('k \<times> 'v) list" where
  "table_add k v [] = [(k, v)]"
| "table_add k v ((k1, v1) # t) =
     (if k < k1 then (k, v) # (k1, v1) # t
      else if k = k1 then (k1, v1) # t
      else (k1, v1) # table_add k v t)"

definition table_remove :: "'k \<Rightarrow> ('k \<times> 'v) list \<Rightarrow> ('k \<times> 'v) list" where
  "table_remove k t = filter (\<lambda>e. fst e \<noteq> k) t"

definition table_change :: "'k \<Rightarrow> ('v \<Rightarrow> 'v) \<Rightarrow> ('k \<times> 'v) list \<Rightarrow> ('k \<times> 'v) list" where
  "table_change k f t = map (\<lambda>e. if fst e = k then (k, f (snd e)) else e) t"

text \<open>Reading and changing a client through its pointer.\<close>

definition client_get :: "handle \<Rightarrow> client web_op" where
  "client_get h = (\<lambda>w. case map_of (web_handles w) h of
     None \<Rightarrow> Inl Use_After_Free
   | Some c \<Rightarrow> Inr (c, w))"

definition client_do :: "handle \<Rightarrow> (client \<Rightarrow> client) \<Rightarrow> unit web_op" where
  "client_do h f = (\<lambda>w. case map_of (web_handles w) h of
     None \<Rightarrow> Inl Use_After_Free
   | Some c \<Rightarrow> Inr ((), w\<lparr>web_handles := table_change h f (web_handles w)\<rparr>))"

subsection \<open>The tables of clients\<close>

definition find_handle :: "handle \<Rightarrow> web \<Rightarrow> handle option" where
  "find_handle h w = (if map_of (web_handles w) h = None then None else Some h)"

definition find_pcb :: "pcb option \<Rightarrow> web \<Rightarrow> handle option" where
  "find_pcb p w =
     (case p of
        None \<Rightarrow> None
      | Some pcb \<Rightarrow> (case map_of (web_pcbs w) pcb of None \<Rightarrow> None | Some h \<Rightarrow> find_handle h w))"

text \<open>
  \<open>nextHandle\<close>.  The assertion that should stop the search when all handles are in use tests a
  string and never fails, so the search goes on.
\<close>

definition bump_handle :: "handle \<Rightarrow> handle" where
  "bump_handle h = (if h + 1 = 0 then 1000 else h + 1)"

definition next_handle :: "web \<Rightarrow> handle option" where
  "next_handle w =
     while_option (\<lambda>h. find_handle h w \<noteq> None) bump_handle (bump_handle (web_next w))"

text \<open>\<open>activity\<close> and the constructor of a client.\<close>

definition cl_activity :: "int \<Rightarrow> client \<Rightarrow> client" where
  "cl_activity now c = (if cl_ws_close_sent c then c else c\<lparr>cl_last := now\<rparr>)"

definition client_new :: "web_env \<Rightarrow> int \<Rightarrow> pcb \<Rightarrow> handle \<Rightarrow> client" where
  "client_new env now pcb h =
     \<lparr>cl_rqst = [], cl_pcb = Some pcb, cl_closed = False, cl_websocket = False, cl_ws_close_sent = False,
      cl_queue = [], cl_http = http_new, cl_wshdr = env_junk_header env, cl_last = now, cl_handle = h\<rparr>"

definition add_client :: "web_env \<Rightarrow> pcb \<Rightarrow> handle option web_op" where
  "add_client env pcb = (\<lambda>w.
     case map_of (web_pcbs w) pcb of
       Some h \<Rightarrow> Inr (None, w)
     | None \<Rightarrow>
         (case next_handle w of
            None \<Rightarrow> Inl No_Return
          | Some h \<Rightarrow>
              Inr (Some h, w\<lparr>web_next := h, web_pcbs := table_add pcb h (web_pcbs w),
                web_handles := table_add h (client_new env (web_time w) pcb h) (web_handles w)\<rparr>)))"

definition delete_client :: "pcb option \<Rightarrow> unit web_op" where
  "delete_client p = (\<lambda>w.
     case p of
       None \<Rightarrow> Inr ((), w)
     | Some pcb \<Rightarrow>
         (case map_of (web_pcbs w) pcb of
            None \<Rightarrow> Inr ((), w)
          | Some h \<Rightarrow> Inr ((), w\<lparr>web_handles := table_remove h (web_handles w),
                                  web_pcbs := table_remove pcb (web_pcbs w)\<rparr>)))"

definition cl_set_closed :: "client \<Rightarrow> client" where
  "cl_set_closed c = c\<lparr>cl_closed := True, cl_pcb := None\<rparr>"

definition mark_for_close :: "pcb option \<Rightarrow> unit web_op" where
  "mark_for_close p = (\<lambda>w.
     case find_pcb p w of None \<Rightarrow> Inr ((), w) | Some h \<Rightarrow> client_do h cl_set_closed w)"

text \<open>\<open>altcp_close\<close>\<close>

definition tcp_close :: "web_env \<Rightarrow> pcb option \<Rightarrow> bool web_op" where
  "tcp_close env p = (\<lambda>w.
     let ok = env_close env (web_calls w) p
     in Inr (ok, w\<lparr>web_calls := web_calls w @ [Tcp_close p ok]\<rparr>))"

definition cl_acknowledge :: "nat \<Rightarrow> client \<Rightarrow> client" where
  "cl_acknowledge n c = c\<lparr>cl_queue := queue_acknowledge (int n) (cl_queue c)\<rparr>"

definition close_client :: "web_env \<Rightarrow> pcb option \<Rightarrow> bool \<Rightarrow> unit web_op" where
  "close_client env p isClosed = (\<lambda>w.
     case find_pcb p w of
       Some h \<Rightarrow>
         (if \<not> isClosed
          then then_op (client_do h cl_set_closed)
                 (then_op (client_do h (cl_acknowledge 0))
                   (bind_op (client_get h) (\<lambda>c.
                      if \<not> more_to_send (cl_queue c)
                      then bind_op (tcp_close env p) (\<lambda>ok.
                             if ok then delete_client p else ret ())
                      else ret ()))) w
          else then_op (client_do h cl_set_closed)
                 (then_op (tcp_close env p) (delete_client p)) w)
     | None \<Rightarrow> if \<not> isClosed then then_op (tcp_close env p) (ret ()) w else Inr ((), w))"

subsection \<open>Sending\<close>

definition TCP_MSS :: nat where "TCP_MSS = 1460"

text \<open>\<open>write_next\<close>; the result tells whether the write succeeded.\<close>

definition tcp_write :: "web_env \<Rightarrow> pcb \<Rightarrow> u8 list \<Rightarrow> bool web_op" where
  "tcp_write env pcb bytes = (\<lambda>w.
     let ok = env_write env (web_calls w) pcb bytes
     in Inr (ok, w\<lparr>web_calls := web_calls w @ [Tcp_write pcb bytes ok]\<rparr>))"

definition write_queue :: "web_env \<Rightarrow> pcb \<Rightarrow> handle \<Rightarrow> bool web_op" where
  "write_queue env pcb h = (\<lambda>w.
     (let nn = min (env_sndbuf env (web_calls w) pcb) TCP_MSS
      in bind_op (client_get h) (\<lambda>c.
           case queue_get_next nn (cl_queue c) of
             (None, q) \<Rightarrow> then_op (client_do h (\<lambda>c. c\<lparr>cl_queue := q\<rparr>)) (ret True)
           | (Some bytes, q) \<Rightarrow>
               then_op (client_do h (\<lambda>c. c\<lparr>cl_queue := q\<rparr>))
                 (bind_op (tcp_write env pcb bytes) (\<lambda>ok.
                    if ok then ret True
                    else then_op (client_do h (\<lambda>c. c\<lparr>cl_queue := queue_requeue bytes (cl_queue c)\<rparr>))
                           (ret False)))) w))"

definition write_next :: "web_env \<Rightarrow> pcb option \<Rightarrow> bool web_op" where
  "write_next env p = (\<lambda>w.
     case (p, find_pcb p w) of
       (Some pcb, Some h) \<Rightarrow>
         then_op (client_do h (cl_activity (web_time w)))
           (bind_op (write_queue env pcb h) (\<lambda>ok.
              bind_op (client_get h) (\<lambda>c.
                if cl_closed c \<and> \<not> more_to_send (cl_queue c)
                then then_op (close_client env p False) (ret ok) else ret ok))) w
     | _ \<Rightarrow> Inr (True, w))"

text \<open>\<open>send_buffer\<close>; the length is a \<open>u16_t\<close>.\<close>

definition send_buffer :: "web_env \<Rightarrow> pcb option \<Rightarrow> string \<Rightarrow> allocation \<Rightarrow> unit web_op" where
  "send_buffer env p data alloc = (\<lambda>w.
     case find_pcb p w of
       None \<Rightarrow> Inr ((), w)
     | Some h \<Rightarrow>
         then_op (client_do h (\<lambda>c. c\<lparr>cl_queue :=
              queue_send (map byte_of (take (length data mod 65536) data)) alloc (cl_queue c)\<rparr>))
           (then_op (write_next env p) (ret ())) w)"

definition send_data :: "web_env \<Rightarrow> handle \<Rightarrow> string \<Rightarrow> allocation \<Rightarrow> bool web_op" where
  "send_data env h data alloc = (\<lambda>w.
     case find_handle h w of
       None \<Rightarrow> Inl Null_Pointer
     | Some clptr \<Rightarrow>
         bind_op (client_get clptr) (\<lambda>c.
           if find_pcb (cl_pcb c) w = Some clptr
           then then_op (send_buffer env (cl_pcb c) data alloc) (ret True) else ret True) w)"

subsection \<open>Websockets\<close>

definition send_websocket :: "web_env \<Rightarrow> pcb option \<Rightarrow> u8 \<Rightarrow> string \<Rightarrow> unit web_op" where
  "send_websocket env p opcode payload =
     send_buffer env p (ws_build opcode payload False []) ALLOC"

definition send_message :: "web_env \<Rightarrow> handle \<Rightarrow> string \<Rightarrow> bool web_op" where
  "send_message env h message = (\<lambda>w.
     case find_handle h w of
       None \<Rightarrow> Inl Null_Pointer
     | Some clptr \<Rightarrow>
         bind_op (client_get clptr) (\<lambda>c.
           if find_pcb (cl_pcb c) w = Some clptr
           then then_op (send_websocket env (cl_pcb c) WS_TEXT message) (ret True) else ret True) w)"

text \<open>The variant for \<open>TXT\<close> builds the frame in place and hands the array over.\<close>

definition send_message_txt ::
  "web_env \<Rightarrow> (nat \<Rightarrow> char) \<Rightarrow> handle \<Rightarrow> text_obj \<Rightarrow> (bool \<times> text_obj) web_op" where
  "send_message_txt env mem h message = (\<lambda>w.
     case find_handle h w of
       None \<Rightarrow> Inl Null_Pointer
     | Some clptr \<Rightarrow>
         bind_op (client_get clptr) (\<lambda>c.
           if find_pcb (cl_pcb c) w = Some clptr
           then (case ws_build_txt mem WS_TEXT message False [] of
                   None \<Rightarrow> fail Out_Of_Bounds
                 | Some t \<Rightarrow>
                     (case tx_buffer t of
                        None \<Rightarrow> fail Null_Pointer
                      | Some buf \<Rightarrow>
                          then_op (send_buffer env (cl_pcb c) (take (tx_endptr t) buf) PREALL)
                            (ret (True, txt_release t))))
           else ret (True, message)) w)"

text \<open>
  The broadcast goes over the table of clients; a client that is deleted while it is visited
  would invalidate the iterator.
\<close>

fun broadcast_to :: "web_env \<Rightarrow> string \<Rightarrow> handle list \<Rightarrow> unit web_op" where
  "broadcast_to env payload [] = ret ()"
| "broadcast_to env payload (h # hs) =
     bind_op (client_get h) (\<lambda>c.
       then_op (if cl_websocket c then send_websocket env (cl_pcb c) WS_TEXT payload else ret ())
         (then_op (client_get h) (broadcast_to env payload hs)))"

definition broadcast_websocket :: "web_env \<Rightarrow> string \<Rightarrow> unit web_op" where
  "broadcast_websocket env payload = (\<lambda>w. broadcast_to env payload (map fst (web_handles w)) w)"

text \<open>
  The variant for \<open>TXT\<close> sends a copy to every websocket client but the last, which gets the text
  itself.
\<close>

fun broadcast_txt_to ::
  "web_env \<Rightarrow> (nat \<Rightarrow> char) \<Rightarrow> handle list \<Rightarrow> int \<Rightarrow> text_obj \<Rightarrow> text_obj web_op" where
  "broadcast_txt_to env mem [] nwsc t = ret t"
| "broadcast_txt_to env mem (h # hs) nwsc t =
     bind_op (client_get h) (\<lambda>c.
       if cl_websocket c
       then bind_op
              (if nwsc - 1 > 0
               then (case tx_buffer t of
                       None \<Rightarrow> fail Null_Pointer
                     | Some buf \<Rightarrow>
                         then_op (send_message_txt env mem h (txt_of mem (take (tx_endptr t) buf) (tx_endptr t) (tx_endptr t + 16)))
                           (ret t))
               else bind_op (send_message_txt env mem h t) (\<lambda>r. ret (snd r)))
              (\<lambda>t1. then_op (client_get h) (broadcast_txt_to env mem hs (nwsc - 1) t1))
       else broadcast_txt_to env mem hs nwsc t)"

definition broadcast_txt :: "web_env \<Rightarrow> (nat \<Rightarrow> char) \<Rightarrow> text_obj \<Rightarrow> text_obj web_op" where
  "broadcast_txt env mem t = (\<lambda>w.
     broadcast_txt_to env mem (map fst (web_handles w))
       (int (length (filter (\<lambda>e. cl_websocket (snd e)) (web_handles w)))) t w)"

text \<open>
  \<open>open_websocket\<close>; the digest of the key, encoded in base 64, is \<open>env_accept\<close>.
\<close>

definition header_op :: "http_request \<Rightarrow> string \<Rightarrow> string web_op" where
  "header_op r name =
     (case header_value (hr_headers r) name of Inl e \<Rightarrow> fail Uncaught | Inr v \<Rightarrow> ret v)"

definition WS_GUID :: string where
  "WS_GUID = ''258EAFA5-E914-47DA-95CA-C5AB0DC85B11''"

definition upgrade_reply :: "web_env \<Rightarrow> string \<Rightarrow> string" where
  "upgrade_reply env key =
     ''HTTP/1.1 101 Switching Protocols'' @ CRLF @ ''Upgrade: websocket'' @ CRLF @
     ''Connection: Upgrade'' @ CRLF @ ''Sec-WebSocket-Accept: '' @ env_accept env (key @ WS_GUID) @ CRLF @ CRLF"

definition upgrade_ok :: "http_request \<Rightarrow> string \<Rightarrow> string \<Rightarrow> string \<Rightarrow> string \<Rightarrow> bool" where
  "upgrade_ok r host connection upgrade version \<longleftrightarrow>
     str_find connection ''Upgrade'' 0 \<noteq> None \<and>
     (case header_index (hr_headers r) ''Origin'' 0 of None \<Rightarrow> False | Some i \<Rightarrow> i > 0) \<and>
     upgrade = ''websocket'' \<and> version = ''13'' \<and> length host > 0"

definition open_websocket :: "web_env \<Rightarrow> handle \<Rightarrow> unit web_op" where
  "open_websocket env h =
     bind_op (client_get h) (\<lambda>c. let r = cl_http c in
       bind_op (header_op r ''Host'') (\<lambda>host.
       bind_op (header_op r ''Sec-WebSocket-Key'') (\<lambda>key.
       bind_op (header_op r ''Connection'') (\<lambda>connection.
       bind_op (header_op r ''Upgrade'') (\<lambda>upgrade.
       bind_op (header_op r ''Sec-WebSocket-Version'') (\<lambda>version.
         if upgrade_ok r host connection upgrade version
         then then_op (send_buffer env (cl_pcb c) (upgrade_reply env key) ALLOC)
                (client_do h (\<lambda>c. c\<lparr>cl_websocket := True, cl_rqst := []\<rparr>))
         else ret ()))))))"

text \<open>One message; the opcode and the place of the payload come from the parsed header.\<close>

definition process_websocket :: "web_env \<Rightarrow> handle \<Rightarrow> unit web_op" where
  "process_websocket env h =
     then_op (\<lambda>w. client_do h (cl_activity (web_time w)) w)
       (bind_op (client_get h) (\<lambda>c.
          let hdr = cl_wshdr c; opc = ws_opcode hdr
          in if unat (ws_start hdr) > length (cl_rqst c) then fail Uncaught
             else let payload = substr (cl_rqst c) (unat (ws_start hdr)) (unat (ws_length hdr))
                  in if opc = WS_TEXT
                     then (case env_message env of
                             None \<Rightarrow> ret ()
                           | Some cb \<Rightarrow> then_op (web_call (Ws_message h payload)) (cb h payload))
                     else if opc = WS_PING then send_websocket env (cl_pcb c) WS_PONG payload
                     else if opc = WS_CLOSE
                     then then_op
                            (if \<not> cl_ws_close_sent c
                             then then_op (\<lambda>w. client_do h (\<lambda>c. (cl_activity (web_time w) c)\<lparr>cl_ws_close_sent := True\<rparr>) w)
                                    (send_websocket env (cl_pcb c) WS_CLOSE payload)
                             else ret ())
                            (bind_op (client_get h) (\<lambda>c. mark_for_close (cl_pcb c)))
                     else ret ()))"

subsection \<open>HTTP requests\<close>

definition process_http_rqst :: "web_env \<Rightarrow> handle \<Rightarrow> bool \<Rightarrow> bool web_op" where
  "process_http_rqst env h close =
     bind_op
       (case env_http env of
          None \<Rightarrow> ret (False, close)
        | Some cb \<Rightarrow> then_op (web_call (Http_rqst h)) (cb h close))
       (\<lambda>r. if fst r then ret (snd r)
            else bind_op (client_get h) (\<lambda>c.
                   then_op (send_buffer env (cl_pcb c) (''HTTP/1.0 404 NOT_FOUND'' @ CRLF @ CRLF) ALLOC)
                     (ret (snd r))))"

text \<open>Parsing the receive string of a client.\<close>

definition parse_op :: "web_env \<Rightarrow> handle \<Rightarrow> bool \<Rightarrow> bool web_op" where
  "parse_op env h ppd =
     bind_op (client_get h) (\<lambda>c.
       case http_parse (env_junk env) (cl_rqst c) ppd (cl_http c) of
         None \<Rightarrow> fail No_Return
       | Some (Inl e) \<Rightarrow> fail Uncaught
       | Some (Inr (b, s, r)) \<Rightarrow> then_op (client_do h (\<lambda>c. c\<lparr>cl_rqst := s, cl_http := r\<rparr>)) (ret b))"

text \<open>
  \<open>process_rqst\<close>; it is only called for clients that are no websockets, so its error reply is
  never sent.
\<close>

definition process_rqst :: "web_env \<Rightarrow> handle \<Rightarrow> unit web_op" where
  "process_rqst env h =
     then_op (\<lambda>w. client_do h (cl_activity (web_time w)) w)
       (bind_op (client_get h) (\<lambda>c.
          bind_op
            (if \<not> cl_websocket c
             then bind_op (header_op (cl_http c) ''Upgrade'') (\<lambda>upgrade.
                    if upgrade = ''websocket'' then then_op (open_websocket env h) (ret True)
                    else then_op
                           (if http_type (cl_http c) = ''POST'' then then_op (parse_op env h True) (ret ()) else ret ())
                           (process_http_rqst env h True))
             else then_op
                    (send_buffer env (cl_pcb c) (''HTTP/1.0 500 Internal Server Error'' @ CRLF @ CRLF) ALLOC)
                    (ret True))
            (\<lambda>close. bind_op (client_get h) (\<lambda>c.
               if \<not> cl_websocket c \<and> close then close_client env (cl_pcb c) False else ret ()))))"

subsection \<open>The callbacks of lwIP\<close>

definition rqst_is_ready :: "web_env \<Rightarrow> handle \<Rightarrow> bool web_op" where
  "rqst_is_ready env h =
     bind_op (client_get h) (\<lambda>c.
       if \<not> cl_websocket c then parse_op env h False
       else (case ws_parse (cl_wshdr c) (cl_rqst c) of
               Ws_Fault \<Rightarrow> fail Out_Of_Bounds
             | Ws_Fail hdr s \<Rightarrow> then_op (client_do h (\<lambda>c. c\<lparr>cl_wshdr := hdr, cl_rqst := s\<rparr>)) (ret False)
             | Ws_Success hdr s \<Rightarrow> then_op (client_do h (\<lambda>c. c\<lparr>cl_wshdr := hdr, cl_rqst := s\<rparr>)) (ret True)))"

definition cl_reset_rqst :: "client \<Rightarrow> client" where
  "cl_reset_rqst c =
     (if \<not> cl_websocket c
      then c\<lparr>cl_rqst := (if http_complete (cl_http c)
                then drop (hr_body_offset (cl_http c) + hr_body_size (cl_http c)) (cl_rqst c) else []),
             cl_http := http_clear (cl_http c)\<rparr>
      else let ii = unat ((ucast (ws_start (cl_wshdr c)) + ws_length (cl_wshdr c)) :: u32)
           in c\<lparr>cl_rqst := (if ii < length (cl_rqst c) then drop ii (cl_rqst c) else [])\<rparr>)"

text \<open>
  The body of the loop over the requests in the receive string.  The client is looked up again
  after a request, but the result is not used: the old pointer is.
\<close>

definition recv_step :: "web_env \<Rightarrow> handle \<Rightarrow> bool web_op" where
  "recv_step env h =
     bind_op (rqst_is_ready env h) (\<lambda>ready.
       if ready
       then bind_op (client_get h) (\<lambda>c.
              then_op (if \<not> cl_websocket c then process_rqst env h else process_websocket env h)
                (then_op (client_do h cl_reset_rqst) (ret True)))
       else ret False)"

definition recv_loop :: "web_env \<Rightarrow> handle \<Rightarrow> unit web_op" where
  "recv_loop env h = (\<lambda>w.
     case while_option (\<lambda>r. case r of Inr (True, w) \<Rightarrow> True | _ \<Rightarrow> False)
            (\<lambda>r. case r of Inr (b, w) \<Rightarrow> recv_step env h w | Inl e \<Rightarrow> Inl e) (Inr (True, w)) of
       None \<Rightarrow> Inl No_Return
     | Some (Inl e) \<Rightarrow> Inl e
     | Some (Inr (b, w1)) \<Rightarrow> Inr ((), w1))"

text \<open>\<open>tcp_server_recv\<close>; no data means that the peer has closed the connection.\<close>

definition tcp_server_recv :: "web_env \<Rightarrow> pcb \<Rightarrow> string option \<Rightarrow> unit web_op" where
  "tcp_server_recv env tpcb p = (\<lambda>w.
     let client = find_pcb (Some tpcb) w
     in case p of
          None \<Rightarrow> close_client env (Some tpcb) True w
        | Some data \<Rightarrow>
            if length data > 0
            then then_op (case client of None \<Rightarrow> ret () | Some h \<Rightarrow> client_do h (\<lambda>c. c\<lparr>cl_rqst := cl_rqst c @ data\<rparr>))
                   (then_op (web_call (Tcp_recved tpcb (length data)))
                     (case client of None \<Rightarrow> ret () | Some h \<Rightarrow> recv_loop env h)) w
            else Inr ((), w))"

definition tcp_server_accept :: "web_env \<Rightarrow> pcb option \<Rightarrow> bool \<Rightarrow> bool web_op" where
  "tcp_server_accept env client_pcb err_ok =
     (case client_pcb of
        None \<Rightarrow> ret False
      | Some pcb \<Rightarrow>
          if \<not> err_ok then ret False
          else bind_op (add_client env pcb) (\<lambda>client.
                 case client of None \<Rightarrow> fail Null_Pointer | Some h \<Rightarrow> ret True))"

definition tcp_server_sent :: "web_env \<Rightarrow> pcb \<Rightarrow> nat \<Rightarrow> unit web_op" where
  "tcp_server_sent env tpcb len = (\<lambda>w.
     then_op (case find_pcb (Some tpcb) w of None \<Rightarrow> ret () | Some h \<Rightarrow> client_do h (cl_acknowledge len))
       (then_op (write_next env (Some tpcb)) (ret ())) w)"

text \<open>\<open>isIdle\<close>, with the three idle times of the configuration (minutes; 0 switches off).\<close>

definition cl_is_idle :: "web_env \<Rightarrow> int \<Rightarrow> client \<Rightarrow> bool" where
  "cl_is_idle env now c =
     (if \<not> cl_closed c
      then (let idle = (now - cl_last c) div 60000000
            in if cl_websocket c
               then env_ws_idle env > 0 \<and>
                    (if cl_ws_close_sent c then idle > env_ws_wait env else idle > env_ws_idle env)
               else env_http_idle env > 0 \<and> idle > env_http_idle env)
      else False)"

definition tcp_server_poll :: "web_env \<Rightarrow> pcb \<Rightarrow> unit web_op" where
  "tcp_server_poll env tpcb = (\<lambda>w.
     case find_pcb (Some tpcb) w of
       None \<Rightarrow> Inr ((), w)
     | Some h \<Rightarrow>
         bind_op (client_get h) (\<lambda>c.
           if cl_pcb c = Some tpcb
           then then_op (if more_to_send (cl_queue c) then then_op (write_next env (cl_pcb c)) (ret ()) else ret ())
                  (then_op
                    (bind_op (client_get h) (\<lambda>c.
                       if cl_is_idle env (web_time w) c
                       then if cl_websocket c
                            then if \<not> cl_ws_close_sent c
                                 then then_op (client_do h (\<lambda>c. (cl_activity (web_time w) c)\<lparr>cl_ws_close_sent := True\<rparr>))
                                        (send_websocket env (cl_pcb c) WS_CLOSE [])
                                 else mark_for_close (Some tpcb)
                            else mark_for_close (Some tpcb)
                       else ret ()))
                    (bind_op (client_get h) (\<lambda>c.
                       if cl_closed c then close_client env (Some tpcb) False else ret ())))
           else close_client env (Some tpcb) False) w)"

definition tcp_server_err :: "pcb \<Rightarrow> unit web_op" where
  "tcp_server_err pcb = (\<lambda>w.
     case find_pcb (Some pcb) w of None \<Rightarrow> Inr ((), w) | Some h \<Rightarrow> delete_client (Some pcb) w)"

end
