(* ===== verification/Web_Invariant.thy ===== *)
theory Web_Invariant
  imports Web
begin

text \<open>
  The tables of the web server agree with each other in every state the server can be in, and
  the operations that send and close never touch a client that has been deleted.  The
  operations of the server are given as equations over the tables; the invariant \<open>web_ok\<close> is
  proved for each of them and lifted to the callbacks.
\<close>

named_theorems op_simps

lemma ret_op [op_simps]: "ret a w = Inr (a, w)" by (simp add: ret_def)
lemma fail_op [op_simps]: "fail e w = Inl e" by (simp add: fail_def)

lemma bind_op_Inr: "m w = Inr (a, w1) \<Longrightarrow> bind_op m f w = f a w1" by (simp add: bind_op_def)
lemma bind_op_Inl: "m w = Inl e \<Longrightarrow> bind_op m f w = Inl e" by (simp add: bind_op_def)
lemma then_op_Inr: "m w = Inr (a, w1) \<Longrightarrow> then_op m n w = n w1" by (simp add: then_op_def bind_op_def)
lemma then_op_Inl: "m w = Inl e \<Longrightarrow> then_op m n w = Inl e" by (simp add: then_op_def bind_op_def)
lemmas op_steps = bind_op_Inr bind_op_Inl then_op_Inr then_op_Inl

lemma bind_op_E:
  assumes "bind_op m f w = Inr (b, w2)"
  obtains a w1 where "m w = Inr (a, w1)" "f a w1 = Inr (b, w2)"
  using assms by (cases "m w") (auto simp: bind_op_def)

lemma then_op_E:
  assumes "then_op m n w = Inr (b, w2)"
  obtains a w1 where "m w = Inr (a, w1)" "n w1 = Inr (b, w2)"
  using assms unfolding then_op_def by (rule bind_op_E)

section \<open>Tables\<close>

lemma map_of_table_change: "map_of (table_change k f t) = (map_of t)(k := map_option f (map_of t k))"
  by (induction t) (auto simp: table_change_def)

lemma keys_table_change [simp]: "map fst (table_change k f t) = map fst t"
  by (induction t) (auto simp: table_change_def)

lemma table_change_change:
  "table_change k g (table_change k f t) = table_change k (\<lambda>c. g (f c)) t"
  by (induction t) (auto simp: table_change_def)

lemma table_change_const:
  "distinct (map fst t) \<Longrightarrow> map_of t k = Some c \<Longrightarrow> table_change k f t = table_change k (\<lambda>_. f c) t"
  by (induction t) (auto simp: table_change_def intro: rev_image_eqI)

lemma map_of_table_remove: "map_of (table_remove k t) = (map_of t)(k := None)"
  by (induction t) (auto simp: table_remove_def)

lemma keys_table_remove: "map fst (table_remove k t) = filter (\<lambda>j. j \<noteq> k) (map fst t)"
  by (induction t) (auto simp: table_remove_def)

lemma set_table_remove: "set (table_remove k t) = {e \<in> set t. fst e \<noteq> k}"
  by (auto simp: table_remove_def)

lemma keys_table_add: "set (map fst (table_add k v t)) = insert k (set (map fst t))"
  by (induction k v t rule: table_add.induct) auto

lemma set_table_add: "k \<notin> fst ` set t \<Longrightarrow> set (table_add k v t) = insert (k, v) (set t)"
  by (induction k v t rule: table_add.induct) auto

lemma distinct_table_add: "k \<notin> fst ` set t \<Longrightarrow> distinct (map fst t) \<Longrightarrow> distinct (map fst (table_add k v t))"
  by (induction k v t rule: table_add.induct) (auto simp: set_table_add image_iff)

lemma distinct_values_table_add:
  "k \<notin> fst ` set t \<Longrightarrow> v \<notin> snd ` set t \<Longrightarrow> distinct (map snd t) \<Longrightarrow> distinct (map snd (table_add k v t))"
  by (induction k v t rule: table_add.induct) (auto simp: set_table_add image_iff)

lemma map_of_table_add: "map_of t k = None \<Longrightarrow> map_of (table_add k v t) = (map_of t)(k \<mapsto> v)"
  by (induction k v t rule: table_add.induct) (auto simp: fun_eq_iff split: if_splits)

section \<open>The invariant\<close>

definition client_ok :: "(pcb \<times> handle) list \<Rightarrow> handle \<Rightarrow> client \<Rightarrow> bool" where
  "client_ok pcbs h c \<longleftrightarrow> cl_handle c = h \<and> queue_ok (cl_queue c) \<and>
     (case cl_pcb c of None \<Rightarrow> cl_closed c | Some p \<Rightarrow> \<not> cl_closed c \<and> map_of pcbs p = Some h)"

text \<open>
  Both tables have the same clients, one connection for each; a client that is open knows its
  connection; its queue is well-formed.  Handles are counted from 999 on and after a wrap-around
  from 1000 on.
\<close>

definition web_ok :: "web \<Rightarrow> bool" where
  "web_ok w \<longleftrightarrow> distinct (map fst (web_handles w)) \<and> distinct (map fst (web_pcbs w)) \<and>
     distinct (map snd (web_pcbs w)) \<and> snd ` set (web_pcbs w) = fst ` set (web_handles w) \<and>
     999 \<le> unat (web_next w) \<and> (\<forall>h c. map_of (web_handles w) h = Some c \<longrightarrow> client_ok (web_pcbs w) h c)"

definition web_upd :: "handle \<Rightarrow> (client \<Rightarrow> client) \<Rightarrow> web \<Rightarrow> web" where
  "web_upd h f w = w\<lparr>web_handles := table_change h f (web_handles w)\<rparr>"

definition web_log :: "web_call list \<Rightarrow> web \<Rightarrow> web" where
  "web_log cs w = w\<lparr>web_calls := web_calls w @ cs\<rparr>"

definition web_drop :: "pcb \<Rightarrow> handle \<Rightarrow> web \<Rightarrow> web" where
  "web_drop p h w = w\<lparr>web_handles := table_remove h (web_handles w), web_pcbs := table_remove p (web_pcbs w)\<rparr>"

lemma web_upd_fields [simp]:
  "web_pcbs (web_upd h f w) = web_pcbs w" "web_calls (web_upd h f w) = web_calls w"
  "web_time (web_upd h f w) = web_time w" "web_next (web_upd h f w) = web_next w"
  "map_of (web_handles (web_upd h f w)) = (map_of (web_handles w))(h := map_option f (map_of (web_handles w) h))"
  by (simp_all add: web_upd_def map_of_table_change)

lemma web_log_fields [simp]:
  "web_pcbs (web_log cs w) = web_pcbs w" "web_calls (web_log cs w) = web_calls w @ cs"
  "web_time (web_log cs w) = web_time w" "web_next (web_log cs w) = web_next w"
  "web_handles (web_log cs w) = web_handles w"
  by (simp_all add: web_log_def)

lemma web_drop_next [simp]: "web_next (web_drop p h w) = web_next w"
  by (simp add: web_drop_def)

lemma web_log_ok [simp]: "web_ok (web_log cs w) = web_ok w"
  by (simp add: web_ok_def)

lemma web_upd_ok:
  assumes "web_ok w" "\<And>c. map_of (web_handles w) h = Some c \<Longrightarrow> client_ok (web_pcbs w) h (f c)"
  shows "web_ok (web_upd h f w)"
proof -
  have k: "map fst (web_handles (web_upd h f w)) = map fst (web_handles w)" by (simp add: web_upd_def)
  have "fst ` set (web_handles (web_upd h f w)) = fst ` set (web_handles w)"
    using arg_cong [OF k, of set] by simp
  with assms k show ?thesis by (auto simp: web_ok_def)
qed

lemma web_drop_ok:
  assumes "web_ok w" "map_of (web_pcbs w) p = Some h"
  shows "web_ok (web_drop p h w)"
proof -
  have d: "distinct (map fst (web_pcbs w))" "distinct (map snd (web_pcbs w))"
    "snd ` set (web_pcbs w) = fst ` set (web_handles w)"
    using assms(1) by (simp_all add: web_ok_def)
  have only: "q = p \<longleftrightarrow> k = h" if "(q, k) \<in> set (web_pcbs w)" for q k
  proof -
    have "(p, h) \<in> set (web_pcbs w)" using assms(2) by (rule map_of_SomeD)
    with that d(1,2) show ?thesis
      by (metis (no_types, lifting) eq_key_imp_eq_value distinct_map inj_onD snd_conv Pair_inject)
  qed
  have "snd ` set (table_remove p (web_pcbs w)) = fst ` set (table_remove h (web_handles w))"
  proof -
    have "snd ` set (table_remove p (web_pcbs w)) = snd ` set (web_pcbs w) - {h}"
      using only by (force simp: set_table_remove)
    also have "fst ` set (table_remove h (web_handles w)) = fst ` set (web_handles w) - {h}"
      by (auto simp: set_table_remove)
    ultimately show ?thesis using d(3) by simp
  qed
  moreover have "client_ok (table_remove p (web_pcbs w)) k c"
    if "map_of (web_handles w) k = Some c" "k \<noteq> h" for k c
  proof -
    have ok: "client_ok (web_pcbs w) k c" using assms(1) that(1) by (simp add: web_ok_def)
    have "q \<noteq> p" if "map_of (web_pcbs w) q = Some k" for q
      using only [OF map_of_SomeD [OF that]] \<open>k \<noteq> h\<close> by simp
    with ok show ?thesis by (auto simp: client_ok_def map_of_table_remove split: option.splits)
  qed
  moreover have "distinct (map snd (table_remove p (web_pcbs w)))"
    using d(2) by (auto simp: table_remove_def distinct_map intro: distinct_filter inj_on_subset)
  ultimately show ?thesis
    using assms(1) by (simp add: web_ok_def web_drop_def map_of_table_remove keys_table_remove)
qed

lemma web_ok_find:
  assumes "web_ok w" "map_of (web_pcbs w) p = Some h"
  obtains c where "map_of (web_handles w) h = Some c" "find_pcb (Some p) w = Some h" "client_ok (web_pcbs w) h c"
proof -
  have "h \<in> snd ` set (web_pcbs w)" using map_of_SomeD [OF assms(2)] by (rule rev_image_eqI) simp
  then have "h \<in> fst ` set (web_handles w)" using assms(1) unfolding web_ok_def by blast
  then obtain c where c: "map_of (web_handles w) h = Some c" by (metis map_of_eq_None_iff option.exhaust)
  moreover have "client_ok (web_pcbs w) h c" using assms(1) c unfolding web_ok_def by blast
  ultimately show thesis using assms(2) that by (simp add: find_pcb_def find_handle_def)
qed

lemma find_pcb_SomeE:
  assumes "find_pcb p w = Some h"
  obtains q c where "p = Some q" "map_of (web_pcbs w) q = Some h" "map_of (web_handles w) h = Some c"
  using assms by (auto simp: find_pcb_def find_handle_def split: option.splits if_splits)

section \<open>Operations as equations\<close>

lemma client_get_eq: "map_of (web_handles w) h = Some c \<Longrightarrow> client_get h w = Inr (c, w)"
  by (simp add: client_get_def)

lemma client_do_eq: "map_of (web_handles w) h = Some c \<Longrightarrow> client_do h f w = Inr ((), web_upd h f w)"
  by (simp add: client_do_def web_upd_def)

lemma client_do_dead: "map_of (web_handles w) h = None \<Longrightarrow> client_do h f w = Inl Use_After_Free"
  by (simp add: client_do_def)

lemma web_upd_upd: "web_upd h g (web_upd h f w) = web_upd h (\<lambda>c. g (f c)) w"
  by (simp add: web_upd_def table_change_change)

lemma web_upd_const:
  "web_ok w \<Longrightarrow> map_of (web_handles w) h = Some c \<Longrightarrow> web_upd h f w = web_upd h (\<lambda>_. f c) w"
  unfolding web_upd_def using table_change_const by (metis web_ok_def)

lemma web_upd_log: "web_upd h f (web_log cs w) = web_log cs (web_upd h f w)"
  by (simp add: web_upd_def web_log_def)

lemma find_handle_fields [simp]:
  "find_handle h (web_upd k f w) = find_handle h w" "find_handle h (web_log cs w) = find_handle h w"
  by (simp_all add: find_handle_def web_upd_def web_log_def map_of_table_change)

lemma find_pcb_fields [simp]: "find_pcb p (web_upd h f w) = find_pcb p w" "find_pcb p (web_log cs w) = find_pcb p w"
  by (cases p; simp add: find_pcb_def split: option.splits)+

lemma tcp_close_eq: "tcp_close env p w = (let ok = env_close env (web_calls w) p in Inr (ok, web_log [Tcp_close p ok] w))"
  by (simp add: tcp_close_def web_log_def Let_def)

lemma tcp_write_eq:
  "tcp_write env p bs w = (let ok = env_write env (web_calls w) p bs in Inr (ok, web_log [Tcp_write p bs ok] w))"
  by (simp add: tcp_write_def web_log_def Let_def)

lemma web_call_eq: "web_call c w = Inr ((), web_log [c] w)"
  by (simp add: web_call_def web_log_def)

lemma delete_client_eq: "map_of (web_pcbs w) p = Some h \<Longrightarrow> delete_client (Some p) w = Inr ((), web_drop p h w)"
  by (simp add: delete_client_def web_drop_def)

lemma op_then [op_simps]:
  "then_op (ret a) n w = n w"
  "then_op (web_call e) n w = n (web_log [e] w)"
  "then_op (tcp_close env p) n w = n (web_log [Tcp_close p (env_close env (web_calls w) p)] w)"
  "map_of (web_handles w) h = Some c \<Longrightarrow> then_op (client_do h f) n w = n (web_upd h f w)"
  "map_of (web_handles w) h = None \<Longrightarrow> then_op (client_do h f) n w = Inl Use_After_Free"
  "then_op (then_op m n) k w = then_op m (then_op n k) w"
  by (simp_all add: then_op_def bind_op_def ret_op web_call_eq tcp_close_eq client_do_eq client_do_dead Let_def
      split: sum.splits)

lemma op_then_time [op_simps]:
  "map_of (web_handles w) h = Some c \<Longrightarrow>
    then_op (\<lambda>w. client_do h (f (web_time w)) w) n w = n (web_upd h (f (web_time w)) w)"
  by (simp add: then_op_def bind_op_def client_do_eq)

lemma op_bind [op_simps]:
  "bind_op (ret a) ka w = ka a w"
  "bind_op (tcp_close env p) k w =
     k (env_close env (web_calls w) p) (web_log [Tcp_close p (env_close env (web_calls w) p)] w)"
  "bind_op (tcp_write env q bs) k w =
     k (env_write env (web_calls w) q bs) (web_log [Tcp_write q bs (env_write env (web_calls w) q bs)] w)"
  "map_of (web_handles w) h = Some c \<Longrightarrow> bind_op (client_get h) kc w = kc c w"
  "map_of (web_handles w) h = None \<Longrightarrow> bind_op (client_get h) kc w = Inl Use_After_Free"
  by (simp_all add: bind_op_def ret_op tcp_close_eq tcp_write_eq client_get_def Let_def)

text \<open>Closing: wait for the queue, or ask lwIP and delete the client if it agrees.\<close>

lemma close_client_eq:
  assumes "map_of (web_handles w) h = Some c" "map_of (web_pcbs w) p = Some h"
  shows "close_client env (Some p) False w =
    (let w1 = web_upd h (\<lambda>c. cl_acknowledge 0 (cl_set_closed c)) w; ok = env_close env (web_calls w) (Some p);
         w2 = web_log [Tcp_close (Some p) ok] w1
     in if more_to_send (queue_acknowledge 0 (cl_queue c)) then Inr ((), w1)
        else if ok then Inr ((), web_drop p h w2) else Inr ((), w2))"
proof -
  have f: "find_pcb (Some p) w = Some h" using assms by (simp add: find_pcb_def find_handle_def)
  show ?thesis
    unfolding close_client_def f
    by (simp add: op_simps assms web_upd_upd delete_client_eq Let_def)
      (simp add: cl_acknowledge_def cl_set_closed_def)
qed

lemma close_client_peer:
  assumes "map_of (web_handles w) h = Some c" "map_of (web_pcbs w) p = Some h"
  shows "close_client env (Some p) True w =
    Inr ((), web_drop p h (web_log [Tcp_close (Some p) (env_close env (web_calls w) (Some p))] (web_upd h cl_set_closed w)))"
proof -
  have f: "find_pcb (Some p) w = Some h" using assms by (simp add: find_pcb_def find_handle_def)
  show ?thesis
    unfolding close_client_def f by (simp add: op_simps assms delete_client_eq)
qed

lemma close_client_unknown:
  "find_pcb p w = None \<Longrightarrow> close_client env p isClosed w =
    Inr ((), if isClosed then w else web_log [Tcp_close p (env_close env (web_calls w) p)] w)"
  by (simp add: close_client_def op_simps)

text \<open>One write from the queue: the call made, the queue after it and the result.\<close>

definition write_effect :: "web_env \<Rightarrow> web_call list \<Rightarrow> pcb \<Rightarrow> send_queue \<Rightarrow> web_call list \<times> send_queue \<times> bool" where
  "write_effect env calls p q =
     (case queue_get_next (min (env_sndbuf env calls p) TCP_MSS) q of
        (None, q1) \<Rightarrow> ([], q1, True)
      | (Some bytes, q1) \<Rightarrow>
          (let ok = env_write env calls p bytes
           in ([Tcp_write p bytes ok], if ok then q1 else queue_requeue bytes q1, ok)))"

lemma write_queue_eq:
  assumes "map_of (web_handles w) h = Some c"
    and "write_effect env (web_calls w) p (cl_queue c) = (cs, q, ok)"
  shows "write_queue env p h w = Inr (ok, web_log cs (web_upd h (\<lambda>c. c\<lparr>cl_queue := q\<rparr>) w))"
proof -
  obtain r q1 where g: "queue_get_next (min (env_sndbuf env (web_calls w) p) TCP_MSS) (cl_queue c) = (r, q1)"
    by (cases "queue_get_next (min (env_sndbuf env (web_calls w) p) TCP_MSS) (cl_queue c)")
  show ?thesis
    using assms(2) g
    by (cases r) (auto simp: write_queue_def write_effect_def op_simps assms(1) Let_def web_upd_upd web_upd_log
        web_log_def [of "[]"] split: if_splits)
qed

section \<open>Sending and closing keep the invariant\<close>

text \<open>The bytes of the calls that lwIP accepted for a connection.\<close>

definition accepted_bytes :: "pcb \<Rightarrow> web_call \<Rightarrow> u8 list" where
  "accepted_bytes p c = (case c of Tcp_write q bs ok \<Rightarrow> if q = p \<and> ok then bs else [] | _ \<Rightarrow> [])"

definition written :: "pcb \<Rightarrow> web_call list \<Rightarrow> u8 list" where
  "written p cs = concat (map (accepted_bytes p) cs)"

lemma written_append [simp]: "written p (a @ b) = written p a @ written p b"
  by (simp add: written_def)

lemma write_effect_queue:
  assumes "write_effect env calls p q = (cs, q1, ok)"
  shows "\<exists>n. queue_write n ok q = (written p cs, q1)"
  using assms
  by (intro exI [of _ "min (env_sndbuf env calls p) TCP_MSS"])
    (auto simp: write_effect_def queue_write_def written_def accepted_bytes_def Let_def
      split: option.splits prod.splits if_splits)

lemma write_effect_ok:
  assumes "write_effect env calls p q = (cs, q1, ok)" "queue_ok q"
  shows "queue_ok q1" "unsent q = written p cs @ unsent q1" "in_flight q1 = in_flight q + length (written p cs)"
  using write_effect_queue [OF assms(1)] pipe.emit_law [OF assms(2)] by blast+

lemma write_next_open:
  assumes "map_of (web_handles w) h = Some c" "map_of (web_pcbs w) p = Some h" "\<not> cl_closed c"
    and "write_effect env (web_calls w) p (cl_queue c) = (cs, q, ok)"
  shows "write_next env (Some p) w =
    Inr (ok, web_log cs (web_upd h (\<lambda>c. (cl_activity (web_time w) c)\<lparr>cl_queue := q\<rparr>) w))"
proof -
  have f: "find_pcb (Some p) w = Some h" using assms by (simp add: find_pcb_def find_handle_def)
  let ?a = "cl_activity (web_time w)"
  let ?w = "web_upd h ?a w"
  have c: "map_of (web_handles ?w) h = Some (?a c)" "cl_queue (?a c) = cl_queue c" "cl_closed (?a c) = cl_closed c"
    using assms(1) by (simp_all add: cl_activity_def)
  have "write_queue env p h ?w = Inr (ok, web_log cs (web_upd h (\<lambda>c. c\<lparr>cl_queue := q\<rparr>) ?w))"
    by (rule write_queue_eq [OF c(1)]) (use assms(4) c(2) in simp)
  then show ?thesis
    unfolding write_next_def f using assms(1,3) c
    by (simp add: op_simps bind_op_Inr web_upd_upd)
qed

lemma write_next_closed:
  assumes "map_of (web_handles w) h = Some c" "map_of (web_pcbs w) p = Some h" "cl_closed c"
    and "write_effect env (web_calls w) p (cl_queue c) = (cs, q, ok)"
  shows "write_next env (Some p) w =
    (let w1 = web_log cs (web_upd h (\<lambda>c. (cl_activity (web_time w) c)\<lparr>cl_queue := q\<rparr>) w)
     in if q = [] then then_op (close_client env (Some p) False) (ret ok) w1 else Inr (ok, w1))"
proof -
  have f: "find_pcb (Some p) w = Some h" using assms by (simp add: find_pcb_def find_handle_def)
  let ?a = "cl_activity (web_time w)"
  let ?w = "web_upd h ?a w"
  have c: "map_of (web_handles ?w) h = Some (?a c)" "cl_queue (?a c) = cl_queue c" "cl_closed (?a c) = cl_closed c"
    using assms(1) by (simp_all add: cl_activity_def)
  have "write_queue env p h ?w = Inr (ok, web_log cs (web_upd h (\<lambda>c. c\<lparr>cl_queue := q\<rparr>) ?w))"
    by (rule write_queue_eq [OF c(1)]) (use assms(4) c(2) in simp)
  then show ?thesis
    unfolding write_next_def f using assms(1,3) c
    by (simp add: op_simps bind_op_Inr web_upd_upd more_to_send_def Let_def)
qed

text \<open>What changes a client may undergo.\<close>

definition keeps_client :: "(client \<Rightarrow> client) \<Rightarrow> bool" where
  "keeps_client f \<longleftrightarrow> (\<forall>pcbs h c. client_ok pcbs h c \<longrightarrow> client_ok pcbs h (f c))"

lemma keeps_client_upd: "keeps_client f \<Longrightarrow> web_ok w \<Longrightarrow> web_ok (web_upd h f w)"
  by (rule web_upd_ok) (simp_all add: keeps_client_def web_ok_def)

lemma keeps_client_comp: "keeps_client f \<Longrightarrow> keeps_client g \<Longrightarrow> keeps_client (\<lambda>c. f (g c))"
  by (simp add: keeps_client_def)

lemma keeps_client_intros:
  "keeps_client cl_set_closed" "keeps_client (cl_activity t)" "keeps_client (cl_acknowledge 0)"
  "keeps_client (\<lambda>c. c\<lparr>cl_queue := queue_send d a (cl_queue c)\<rparr>)"
  "keeps_client (\<lambda>c. c\<lparr>cl_rqst := r c\<rparr>)" "keeps_client (\<lambda>c. c\<lparr>cl_rqst := r c, cl_http := x c\<rparr>)"
  "keeps_client (\<lambda>c. c\<lparr>cl_wshdr := y c, cl_rqst := r c\<rparr>)"
  "keeps_client (\<lambda>c. c\<lparr>cl_websocket := b, cl_rqst := r c\<rparr>)"
  "keeps_client (\<lambda>c. (cl_activity t c)\<lparr>cl_ws_close_sent := b\<rparr>)"
  "keeps_client cl_reset_rqst"
  by (auto simp: keeps_client_def client_ok_def cl_set_closed_def cl_activity_def cl_acknowledge_def
      cl_reset_rqst_def queue_acknowledge_0 queue_send_ok Let_def split: option.splits)

lemma close_client_total:
  assumes "web_ok w"
  shows "\<exists>w1. close_client env p b w = Inr ((), w1) \<and> web_ok w1"
proof (cases "find_pcb p w")
  case None
  then show ?thesis using assms by (simp add: close_client_unknown)
next
  case (Some h)
  then obtain q c where q: "p = Some q" "map_of (web_pcbs w) q = Some h" "map_of (web_handles w) h = Some c"
    by (rule find_pcb_SomeE)
  let ?f = "\<lambda>c. cl_acknowledge 0 (cl_set_closed c)"
  have "keeps_client ?f" by (rule keeps_client_comp [OF keeps_client_intros(3,1)])
  then have u: "web_ok (web_upd h ?f w)" "web_ok (web_upd h cl_set_closed w)"
    by (simp_all add: keeps_client_upd keeps_client_intros assms)
  have d: "web_ok (web_drop q h (web_log cs (web_upd h g w)))" if "web_ok (web_upd h g w)" for cs g
    by (rule web_drop_ok) (use that q(2) in simp_all)
  show ?thesis
  proof (cases b)
    case True
    with d [OF u(2)] show ?thesis unfolding q(1) by (simp add: close_client_peer [OF q(3,2)])
  next
    case False
    with d [OF u(1)] u(1) show ?thesis unfolding q(1) by (simp add: close_client_eq [OF q(3,2)] Let_def)
  qed
qed

lemma write_next_total:
  assumes "web_ok w"
  shows "\<exists>ok w1. write_next env p w = Inr (ok, w1) \<and> web_ok w1"
proof (cases "find_pcb p w")
  case None
  then have "write_next env p w = Inr (True, w)" by (cases p) (simp_all add: write_next_def)
  with assms show ?thesis by blast
next
  case (Some h)
  then obtain r c where q: "p = Some r" "map_of (web_pcbs w) r = Some h" "map_of (web_handles w) h = Some c"
    by (rule find_pcb_SomeE)
  obtain cs q ok where e: "write_effect env (web_calls w) r (cl_queue c) = (cs, q, ok)"
    by (cases "write_effect env (web_calls w) r (cl_queue c)")
  have c: "client_ok (web_pcbs w) h c" using assms q(3) unfolding web_ok_def by blast
  then have "queue_ok q" using write_effect_ok [OF e] by (simp add: client_ok_def)
  define w1 where "w1 = web_log cs (web_upd h (\<lambda>c. (cl_activity (web_time w) c)\<lparr>cl_queue := q\<rparr>) w)"
  have ok: "web_ok w1"
    unfolding w1_def web_log_ok
    by (rule web_upd_ok [OF assms]) (use c q(3) \<open>queue_ok q\<close> in
      \<open>auto simp: client_ok_def cl_activity_def split: option.splits\<close>)
  obtain w2 where "close_client env (Some r) False w1 = Inr ((), w2)" "web_ok w2"
    using close_client_total [OF ok] by blast
  then have t: "then_op (close_client env (Some r) False) (ret ok) w1 = Inr (ok, w2)" "web_ok w2"
    by (simp_all add: then_op_Inr ret_op)
  show ?thesis
  proof (cases "cl_closed c")
    case True
    with write_next_closed [OF q(3,2) True e] t ok show ?thesis
      unfolding w1_def [symmetric] Let_def q(1) by (cases "q = []") auto
  next
    case False
    with write_next_open [OF q(3,2) False e] ok show ?thesis
      unfolding w1_def [symmetric] q(1) by auto
  qed
qed

lemma send_buffer_total:
  assumes "web_ok w"
  shows "\<exists>w1. send_buffer env p d a w = Inr ((), w1) \<and> web_ok w1"
proof (cases "find_pcb p w")
  case None
  then show ?thesis using assms by (simp add: send_buffer_def)
next
  case (Some h)
  then obtain r c where q: "map_of (web_handles w) h = Some c" by (rule find_pcb_SomeE)
  let ?f = "\<lambda>c. c\<lparr>cl_queue := queue_send (map byte_of (take (length d mod 65536) d)) a (cl_queue c)\<rparr>"
  have "web_ok (web_upd h ?f w)" by (intro keeps_client_upd keeps_client_intros assms)
  from write_next_total [OF this, of env p] obtain ok w1 where
    "write_next env p (web_upd h ?f w) = Inr (ok, w1)" "web_ok w1" by blast
  with Some q show ?thesis by (simp add: send_buffer_def op_simps then_op_Inr)
qed

section \<open>Operations that may fault keep the invariant when they do not\<close>

definition keeps :: "'a web_op \<Rightarrow> bool" where
  "keeps m \<longleftrightarrow> (\<forall>w a w1. web_ok w \<longrightarrow> m w = Inr (a, w1) \<longrightarrow> web_ok w1)"

named_theorems keeps_rules

lemma keeps_total: "(\<And>w. web_ok w \<Longrightarrow> \<exists>a w1. m w = Inr (a, w1) \<and> web_ok w1) \<Longrightarrow> keeps m"
  unfolding keeps_def by (metis Inr_inject Pair_inject)

lemma keeps_ret [keeps_rules]: "keeps (ret a)" by (simp add: keeps_def ret_op)
lemma keeps_fail [keeps_rules]: "keeps (fail e)" by (simp add: keeps_def fail_op)
lemma keeps_call [keeps_rules]: "keeps (web_call c)" by (auto simp: keeps_def web_call_eq)

lemma keeps_bind [keeps_rules]: "keeps m \<Longrightarrow> (\<And>a. keeps (f a)) \<Longrightarrow> keeps (bind_op m f)"
  unfolding keeps_def by (metis bind_op_E)

lemma keeps_then [keeps_rules]: "keeps m \<Longrightarrow> keeps n \<Longrightarrow> keeps (then_op m n)"
  unfolding keeps_def by (metis then_op_E)

lemma keeps_get [keeps_rules]: "keeps (client_get h)"
  by (auto simp: keeps_def client_get_def split: option.splits)

lemma keeps_do: "keeps_client f \<Longrightarrow> keeps (client_do h f)"
  unfolding keeps_def
  by (metis client_do_eq client_do_dead keeps_client_upd Inr_inject Pair_inject option.exhaust sum.distinct(1))

lemma keeps_do_time: "(\<And>t. keeps_client (f t)) \<Longrightarrow> keeps (\<lambda>w. client_do h (f (web_time w)) w)"
  using keeps_do unfolding keeps_def by blast

lemmas keeps_dos [keeps_rules] =
  keeps_do [OF keeps_client_intros(1)] keeps_do [OF keeps_client_intros(3)]
  keeps_do [OF keeps_client_intros(5)] keeps_do [OF keeps_client_intros(6)]
  keeps_do [OF keeps_client_intros(7)] keeps_do [OF keeps_client_intros(8)]
  keeps_do [OF keeps_client_intros(9)] keeps_do [OF keeps_client_intros(10)]
  keeps_do_time [OF keeps_client_intros(2)] keeps_do_time [OF keeps_client_intros(9)]

lemma keeps_send [keeps_rules]: "keeps (send_buffer env p d a)"
  using send_buffer_total by (intro keeps_total) blast

lemma keeps_close [keeps_rules]: "keeps (close_client env p b)"
  using close_client_total by (intro keeps_total) blast

lemma keeps_write_next [keeps_rules]: "keeps (write_next env p)"
  by (rule keeps_total) (rule write_next_total)

lemma mark_for_close_total:
  assumes "web_ok w"
  shows "\<exists>w1. mark_for_close p w = Inr ((), w1) \<and> web_ok w1"
proof (cases "find_pcb p w")
  case None
  with assms show ?thesis by (simp add: mark_for_close_def)
next
  case (Some h)
  then obtain c where "map_of (web_handles w) h = Some c" by (rule find_pcb_SomeE)
  with Some assms show ?thesis
    by (simp add: mark_for_close_def client_do_eq keeps_client_upd keeps_client_intros)
qed

lemma keeps_mark [keeps_rules]: "keeps (mark_for_close p)"
  using mark_for_close_total by (intro keeps_total) blast

lemma keeps_websocket [keeps_rules]: "keeps (send_websocket env p op payload)"
  unfolding send_websocket_def by (intro keeps_rules)

lemma keeps_header [keeps_rules]: "keeps (header_op r n)"
  by (auto simp: header_op_def intro: keeps_rules split: sum.splits)

lemma keeps_open [keeps_rules]: "keeps (open_websocket env h)"
  unfolding open_websocket_def Let_def by (intro keeps_rules) (simp add: keeps_rules)

text \<open>What the application's callbacks have to promise.\<close>

definition callbacks_keep :: "web_env \<Rightarrow> bool" where
  "callbacks_keep env \<longleftrightarrow>
     (\<forall>cb h b. env_http env = Some cb \<longrightarrow> keeps (cb h b)) \<and>
     (\<forall>cb h s. env_message env = Some cb \<longrightarrow> keeps (cb h s))"

lemma keeps_process_websocket: "callbacks_keep env \<Longrightarrow> keeps (process_websocket env h)"
  unfolding process_websocket_def Let_def callbacks_keep_def
  by (intro keeps_rules) (auto intro!: keeps_rules split: option.splits)

lemma keeps_parse [keeps_rules]: "keeps (parse_op env h b)"
  unfolding parse_op_def
  by (intro keeps_rules) (auto intro!: keeps_rules split: option.splits sum.splits prod.splits)

lemma keeps_http: "callbacks_keep env \<Longrightarrow> keeps (process_http_rqst env h b)"
  unfolding process_http_rqst_def callbacks_keep_def
  by (intro keeps_rules) (auto intro!: keeps_rules split: option.splits)

lemma keeps_process_rqst: "callbacks_keep env \<Longrightarrow> keeps (process_rqst env h)"
  unfolding process_rqst_def
  by (intro keeps_rules) (auto intro!: keeps_rules keeps_http)

lemma keeps_ready [keeps_rules]: "keeps (rqst_is_ready env h)"
  unfolding rqst_is_ready_def
  by (intro keeps_rules) (auto intro!: keeps_rules split: ws_result.splits)

lemma keeps_recv_step: "callbacks_keep env \<Longrightarrow> keeps (recv_step env h)"
  unfolding recv_step_def
  by (intro keeps_rules) (auto intro!: keeps_rules keeps_process_rqst keeps_process_websocket)

lemma keeps_recv_loop:
  assumes "callbacks_keep env"
  shows "keeps (recv_loop env h)"
  unfolding keeps_def
proof (intro allI impI)
  fix w a w1 assume w: "web_ok w" and r: "recv_loop env h w = Inr (a, w1)"
  let ?b = "\<lambda>r. case r of Inr (True, w) \<Rightarrow> True | _ \<Rightarrow> False"
  let ?c = "\<lambda>r. case r of Inr (b, w) \<Rightarrow> recv_step env h w | Inl e \<Rightarrow> Inl e"
  let ?P = "\<lambda>r :: web_fault + bool \<times> web. case r of Inr (b, w) \<Rightarrow> web_ok w | Inl e \<Rightarrow> True"
  obtain r1 where l: "while_option ?b ?c (Inr (True, w)) = Some r1" "r1 = Inr (snd (True, a) = a, w1) \<or> (\<exists>b. r1 = Inr (b, w1))"
    using r by (auto simp: recv_loop_def split: option.splits sum.splits)
  have "?P r1"
  proof (rule while_option_rule [where P = ?P, OF _ l(1)])
    fix r assume "?P r" "?b r"
    then show "?P (?c r)"
      using keeps_recv_step [OF assms, of h] by (auto simp: keeps_def split: sum.splits)
  qed (use w in simp)
  with l(2) show "web_ok w1" by auto
qed

lemma keeps_recv_data:
  assumes "callbacks_keep env"
  shows "keeps (then_op (case c of None \<Rightarrow> ret () | Some h \<Rightarrow> client_do h (\<lambda>c. c\<lparr>cl_rqst := cl_rqst c @ s\<rparr>))
      (then_op (web_call x) (case c of None \<Rightarrow> ret () | Some h \<Rightarrow> recv_loop env h)))"
proof -
  have add: "keeps (case c of None \<Rightarrow> ret () | Some h \<Rightarrow> client_do h (\<lambda>c. c\<lparr>cl_rqst := cl_rqst c @ s\<rparr>))"
    by (cases c) (auto intro!: keeps_rules)
  have loop: "keeps (case c of None \<Rightarrow> ret () | Some h \<Rightarrow> recv_loop env h)"
    using keeps_recv_loop [OF assms] by (cases c) (auto intro!: keeps_rules)
  show ?thesis by (intro keeps_then keeps_call add loop)
qed

lemma keeps_recv:
  assumes "callbacks_keep env"
  shows "keeps (tcp_server_recv env p d)"
  unfolding keeps_def
proof (intro allI impI)
  fix w a w1 assume w: "web_ok w" and r: "tcp_server_recv env p d w = Inr (a, w1)"
  show "web_ok w1"
  proof (cases d)
    case None
    with r have "close_client env (Some p) True w = Inr (a, w1)" by (simp add: tcp_server_recv_def)
    with w show ?thesis using keeps_close unfolding keeps_def by blast
  next
    case (Some s)
    show ?thesis
    proof (cases "s = []")
      case True
      with Some r w show ?thesis by (simp add: tcp_server_recv_def)
    next
      case False
      define cl where "cl = find_pcb (Some p) w"
      have "then_op (case cl of None \<Rightarrow> ret () | Some h \<Rightarrow> client_do h (\<lambda>c. c\<lparr>cl_rqst := cl_rqst c @ s\<rparr>))
          (then_op (web_call (Tcp_recved p (length s))) (case cl of None \<Rightarrow> ret () | Some h \<Rightarrow> recv_loop env h)) w
        = Inr (a, w1)"
        using r Some False by (simp add: tcp_server_recv_def Let_def cl_def)
      with w keeps_recv_data [OF assms] show ?thesis unfolding keeps_def by blast
    qed
  qed
qed

section \<open>New handles\<close>

lemma mod_shift_inj:
  fixes a j k n :: nat
  assumes "(a + j) mod n = (a + k) mod n" "j < n" "k < n"
  shows "j = k"
proof -
  have "int (a + j) mod int n = int (a + k) mod int n" using assms(1) by (metis of_nat_mod)
  then have "(int (a + j) - int a) mod int n = (int (a + k) - int a) mod int n" by (rule mod_diff_cong) simp
  then show ?thesis using assms(2,3) by simp
qed

lemma bump_handle_ring:
  assumes "1000 \<le> unat h"
  shows "unat ((bump_handle ^^ k) h) = 1000 + (unat h - 1000 + k) mod (2 ^ 32 - 1000)"
proof (induction k)
  case 0
  have "unat h < 2 ^ 32" using unsigned_less [of h] by simp
  then show ?case using assms by simp
next
  case (Suc k)
  let ?n = "2 ^ 32 - 1000 :: nat"
  let ?h = "(bump_handle ^^ k) h"
  let ?y = "(unat h - 1000 + k) mod ?n"
  have y: "?y < ?n" by simp
  have "unat (?h + 1) = (unat ?h + 1) mod 2 ^ 32" by (simp add: unat_word_ariths)
  then have "unat (bump_handle ?h) = (if ?y + 1 = ?n then 1000 else 1000 + (?y + 1))"
    using Suc y by (auto simp: bump_handle_def unat_eq_zero simp flip: unat_eq_0)
  also have "\<dots> = 1000 + (?y + 1) mod ?n" using y by simp
  also have "(?y + 1) mod ?n = (unat h - 1000 + Suc k) mod ?n" by (simp add: mod_Suc_eq)
  finally show ?case by simp
qed

lemma next_handle_fresh:
  assumes "web_ok w" "length (web_handles w) < 2 ^ 32 - 1000"
  shows "\<exists>h. next_handle w = Some h \<and> map_of (web_handles w) h = None \<and> 1000 \<le> unat h"
proof -
  let ?n = "2 ^ 32 - 1000 :: nat"
  define s where "s = bump_handle (web_next w)"
  have nxt: "999 \<le> unat (web_next w)" using assms(1) by (simp add: web_ok_def)
  have s: "1000 \<le> unat s"
  proof (cases "web_next w + 1 = 0")
    case False
    have "unat (web_next w + 1) = (unat (web_next w) + 1) mod 2 ^ 32" by (simp add: unat_word_ariths)
    moreover have "unat (web_next w) + 1 \<noteq> 2 ^ 32"
    proof
      assume "unat (web_next w) + 1 = 2 ^ 32"
      with calculation have "unat (web_next w + 1) = 0" by simp
      with False show False by (simp add: unat_eq_zero)
    qed
    moreover have "unat (web_next w) < 2 ^ 32" using unsigned_less [of "web_next w"] by simp
    ultimately have "unat (web_next w + 1) = unat (web_next w) + 1" by simp
    with False nxt show ?thesis by (simp add: s_def bump_handle_def)
  qed (simp add: s_def bump_handle_def)
  have "\<exists>k < ?n. map_of (web_handles w) ((bump_handle ^^ k) s) = None"
  proof (rule ccontr)
    assume "\<not> ?thesis"
    then have sub: "(\<lambda>k. (bump_handle ^^ k) s) ` {..<?n} \<subseteq> fst ` set (web_handles w)"
      by (auto simp: map_of_eq_None_iff)
    have "inj_on (\<lambda>k. (bump_handle ^^ k) s) {..<?n}"
    proof (rule inj_onI)
      fix j k assume "j \<in> {..<?n}" "k \<in> {..<?n}" "(bump_handle ^^ j) s = (bump_handle ^^ k) s"
      then have "(unat s - 1000 + j) mod ?n = (unat s - 1000 + k) mod ?n" "j < ?n" "k < ?n"
        using bump_handle_ring [OF s, of j] bump_handle_ring [OF s, of k] by simp_all
      then show "j = k" by (rule mod_shift_inj)
    qed
    then have "?n \<le> card (fst ` set (web_handles w))"
      using card_mono [OF _ sub] by (simp add: card_image)
    also have "\<dots> \<le> length (web_handles w)" using card_image_le card_length order_trans by blast
    finally show False using assms(2) by simp
  qed
  then obtain k where k: "map_of (web_handles w) ((bump_handle ^^ k) s) = None" by blast
  let ?b = "\<lambda>h. find_handle h w \<noteq> None"
  have ex: "\<exists>k. \<not> ?b ((bump_handle ^^ k) s)" using k by (auto simp: find_handle_def)
  define m where "m = (LEAST k. \<not> ?b ((bump_handle ^^ k) s))"
  have "next_handle w = Some ((bump_handle ^^ m) s)"
    using ex by (simp add: next_handle_def while_option_def s_def m_def)
  moreover have "\<not> ?b ((bump_handle ^^ m) s)" unfolding m_def using ex by (rule LeastI_ex)
  ultimately show ?thesis
    using bump_handle_ring [OF s, of m] by (auto simp: find_handle_def split: if_splits)
qed

end
