(* ===== verification/Web_Sending.thy ===== *)
theory Web_Sending
  imports Web_Invariant
begin

text \<open>
  Sending data and messages to clients, one or all of them: what is put on the stream of each
  connection, and that sending to a client that exists cannot fault.
\<close>

section \<open>Sending to an open client\<close>

text \<open>
  A client that is open keeps its entry: its connection, its flags and the other clients stay,
  and the bytes written and those still in its queue are the old ones with the new data.
\<close>

definition sent_to :: "pcb \<Rightarrow> handle \<Rightarrow> client \<Rightarrow> u8 list \<Rightarrow> web \<Rightarrow> web \<Rightarrow> bool" where
  "sent_to p h c d w w1 \<longleftrightarrow> web_ok w1 \<and> map fst (web_handles w1) = map fst (web_handles w) \<and>
     web_pcbs w1 = web_pcbs w \<and> web_time w1 = web_time w \<and>
     (\<exists>cs c1. web_calls w1 = web_calls w @ cs \<and> (\<forall>x \<in> set cs. \<exists>bs ok. x = Tcp_write p bs ok) \<and> map_of (web_handles w1) = (map_of (web_handles w))(h \<mapsto> c1) \<and>
        cl_pcb c1 = Some p \<and> cl_websocket c1 = cl_websocket c \<and> cl_ws_close_sent c1 = cl_ws_close_sent c \<and>
        cl_rqst c1 = cl_rqst c \<and> cl_http c1 = cl_http c \<and> cl_wshdr c1 = cl_wshdr c \<and> cl_closed c1 = cl_closed c \<and>
        written p cs @ unsent (cl_queue c1) = unsent (cl_queue c) @ d \<and>
        in_flight (cl_queue c1) = in_flight (cl_queue c) + length (written p cs))"

lemma open_client:
  assumes "web_ok w" "map_of (web_handles w) h = Some c" "cl_pcb c = Some p"
  shows "find_pcb (Some p) w = Some h" "map_of (web_pcbs w) p = Some h" "\<not> cl_closed c" "queue_ok (cl_queue c)"
proof -
  have c: "client_ok (web_pcbs w) h c" using assms(1,2) by (simp add: web_ok_def)
  with assms(3) show "map_of (web_pcbs w) p = Some h" "\<not> cl_closed c" "queue_ok (cl_queue c)"
    by (simp_all add: client_ok_def)
  then show "find_pcb (Some p) w = Some h" using assms(2) by (simp add: find_pcb_def find_handle_def)
qed

lemma keys_web_upd [simp]: "map fst (web_handles (web_upd h f w)) = map fst (web_handles w)"
  by (simp add: web_upd_def)

lemma write_effect_calls: "write_effect env calls p q = (cs, q1, ok) \<Longrightarrow> \<forall>x \<in> set cs. \<exists>bs ok. x = Tcp_write p bs ok"
  by (auto simp: write_effect_def Let_def split: prod.splits option.splits)

lemma write_next_sent:
  assumes "web_ok w" "map_of (web_handles w) h = Some c" "cl_pcb c = Some p"
  shows "\<exists>ok w1. write_next env (Some p) w = Inr (ok, w1) \<and> sent_to p h c [] w w1"
proof -
  note o = open_client [OF assms]
  obtain cs q ok where e: "write_effect env (web_calls w) p (cl_queue c) = (cs, q, ok)"
    by (cases "write_effect env (web_calls w) p (cl_queue c)")
  define w1 where "w1 = web_log cs (web_upd h (\<lambda>c. (cl_activity (web_time w) c)\<lparr>cl_queue := q\<rparr>) w)"
  have w1: "write_next env (Some p) w = Inr (ok, w1)"
    unfolding w1_def by (rule write_next_open [OF assms(2) o(2,3) e])
  then have "web_ok w1" using write_next_total [OF assms(1), of env "Some p"] by auto
  moreover have "\<forall>x \<in> set cs. \<exists>bs ok. x = Tcp_write p bs ok" by (rule write_effect_calls [OF e])
  ultimately show ?thesis using w1 o(1) assms(2,3) write_effect_ok [OF e o(4)]
    by (intro exI [of _ ok] exI [of _ w1])
      (auto simp: sent_to_def w1_def cl_activity_def fun_upd_def intro!: exI [of _ cs])
qed

lemma send_buffer_sent:
  assumes "web_ok w" "map_of (web_handles w) h = Some c" "cl_pcb c = Some p"
  shows "\<exists>w1. send_buffer env (Some p) d a w = Inr ((), w1) \<and>
    sent_to p h c (map byte_of (take (length d mod 65536) d)) w w1"
proof -
  note o = open_client [OF assms]
  let ?d = "map byte_of (take (length d mod 65536) d)"
  let ?f = "\<lambda>c. c\<lparr>cl_queue := queue_send ?d a (cl_queue c)\<rparr>"
  let ?w = "web_upd h ?f w"
  have w: "web_ok ?w" by (intro keeps_client_upd keeps_client_intros assms)
  have c: "map_of (web_handles ?w) h = Some (?f c)" "cl_pcb (?f c) = Some p" using assms by simp_all
  obtain ok w1 where n: "write_next env (Some p) ?w = Inr (ok, w1)" and s: "sent_to p h (?f c) [] ?w w1"
    using write_next_sent [OF w c] by blast
  have "send_buffer env (Some p) d a w = Inr ((), w1)"
    using n o(1) assms(2) by (simp add: send_buffer_def op_simps then_op_Inr)
  moreover have "sent_to p h c ?d w w1"
    using s queue_send_ok(2,3) [OF o(4)] by (auto simp: sent_to_def)
  ultimately show ?thesis by blast
qed

text \<open>With a pointer to the client and its connection, whatever it is.\<close>

definition same_keys :: "web \<Rightarrow> web \<Rightarrow> bool" where
  "same_keys w w1 \<longleftrightarrow> web_ok w1 \<and> map fst (web_handles w1) = map fst (web_handles w) \<and> web_time w1 = web_time w"

lemma same_keys_get:
  assumes "same_keys w w1" "map_of (web_handles w) h = Some c"
  obtains c1 where "map_of (web_handles w1) h = Some c1"
proof -
  have "fst ` set (web_handles w1) = fst ` set (web_handles w)"
    using assms(1) by (metis same_keys_def set_map)
  with assms(2) show thesis by (metis map_of_eq_None_iff option.exhaust that option.distinct(1))
qed

lemma same_keys_trans: "same_keys w w1 \<Longrightarrow> same_keys w1 w2 \<Longrightarrow> same_keys w w2"
  by (simp add: same_keys_def)

lemma sent_to_same_keys: "sent_to p h c d w w1 \<Longrightarrow> same_keys w w1"
  by (simp add: sent_to_def same_keys_def)

lemma same_keys_ok: "same_keys w w1 \<Longrightarrow> web_ok w1"
  by (simp add: same_keys_def)

lemma send_own:
  assumes "web_ok w" "map_of (web_handles w) h = Some c"
  shows "\<exists>w1. send_buffer env (cl_pcb c) d a w = Inr ((), w1) \<and> same_keys w w1"
proof (cases "cl_pcb c")
  case None
  then show ?thesis using assms by (simp add: send_buffer_def find_pcb_def same_keys_def)
next
  case (Some p)
  with send_buffer_sent [OF assms Some, of env d a] sent_to_same_keys show ?thesis by metis
qed

lemma send_websocket_own:
  "web_ok w \<Longrightarrow> map_of (web_handles w) h = Some c \<Longrightarrow>
    \<exists>w1. send_websocket env (cl_pcb c) op s w = Inr ((), w1) \<and> same_keys w w1"
  unfolding send_websocket_def by (rule send_own)

section \<open>Messages\<close>

lemma data_total:
  assumes "web_ok w" "map_of (web_handles w) h = Some c"
  shows "\<exists>w1. send_data env h d a w = Inr (True, w1) \<and> same_keys w w1"
    and "\<exists>w1. send_message env h s w = Inr (True, w1) \<and> same_keys w w1"
proof -
  have f: "find_handle h w = Some h" using assms(2) by (simp add: find_handle_def)
  have k: "same_keys w w" using assms(1) by (simp add: same_keys_def)
  obtain w1 where "send_buffer env (cl_pcb c) d a w = Inr ((), w1)" "same_keys w w1"
    using send_own [OF assms] by blast
  with f k assms(2) show "\<exists>w1. send_data env h d a w = Inr (True, w1) \<and> same_keys w w1"
    by (simp add: send_data_def op_simps then_op_Inr)
  obtain w1 where "send_websocket env (cl_pcb c) WS_TEXT s w = Inr ((), w1)" "same_keys w w1"
    using send_websocket_own [OF assms] by blast
  with f k assms(2) show "\<exists>w1. send_message env h s w = Inr (True, w1) \<and> same_keys w w1"
    by (simp add: send_message_def op_simps then_op_Inr)
qed

lemma txt_message_sent:
  assumes "web_ok w" "map_of (web_handles w) h = Some c" "cl_pcb c = Some p" "txt_ok t"
  shows "\<exists>t1 w1. send_message_txt env mem h t w = Inr ((True, t1), w1) \<and>
    sent_to p h c (let frame = ws_build WS_TEXT (txt_text t) False []
                   in map byte_of (take (length frame mod 65536) frame)) w w1"
proof -
  have f: "find_handle h w = Some h" using assms(2) by (simp add: find_handle_def)
  let ?frame = "ws_build WS_TEXT (txt_text t) False []"
  obtain u where u: "ws_build_txt mem WS_TEXT t False [] = Some u" "txt_ok u" "txt_text u = ?frame"
    using ws_build_txt_frame [OF assms(4), of False mem WS_TEXT "[]"] by auto
  obtain buf where b: "tx_buffer u = Some buf" "txt_text u = take (tx_endptr u) buf"
    using u(2) by (rule txt_okE)
  obtain w1 where w1: "send_buffer env (Some p) ?frame PREALL w = Inr ((), w1)"
    "sent_to p h c (map byte_of (take (length ?frame mod 65536) ?frame)) w w1"
    using send_buffer_sent [OF assms(1-3)] by blast
  have "send_message_txt env mem h t w = Inr ((True, txt_release u), w1)"
    using w1(1) f open_client(1) [OF assms(1-3)] assms(2,3) u(1,3) b
    by (simp add: send_message_txt_def op_simps then_op_Inr)
  with w1(2) show ?thesis by (auto simp: Let_def)
qed

lemma message_sent:
  assumes "web_ok w" "map_of (web_handles w) h = Some c" "cl_pcb c = Some p"
  shows "\<exists>w1. send_websocket env (Some p) WS_TEXT s w = Inr ((), w1) \<and>
    sent_to p h c (let frame = ws_build WS_TEXT s False []
                   in map byte_of (take (length frame mod 65536) frame)) w w1"
  using send_buffer_sent [OF assms] by (simp add: send_websocket_def Let_def)

text \<open>A closed client has no connection; nothing is sent to it, and a text stays with the caller.\<close>

lemma closed_not_sent:
  assumes "map_of (web_handles w) h = Some c" "cl_pcb c = None"
  shows "send_websocket env (cl_pcb c) WS_TEXT s w = Inr ((), w)"
    and "send_message_txt env mem h t w = Inr ((True, t), w)"
proof -
  have "find_handle h w = Some h" using assms(1) by (simp add: find_handle_def)
  then show "send_websocket env (cl_pcb c) WS_TEXT s w = Inr ((), w)"
    and "send_message_txt env mem h t w = Inr ((True, t), w)"
    using assms by (simp_all add: send_websocket_def send_buffer_def find_pcb_def send_message_txt_def op_simps)
qed

section \<open>Streams\<close>

text \<open>
  All connections at once: the stream of client \<open>k\<close>, what was written to its connection and what
  is still queued, grows by \<open>f k\<close>; flags and connections stay.
\<close>

definition grows :: "(handle \<Rightarrow> u8 list) \<Rightarrow> web \<Rightarrow> web \<Rightarrow> bool" where
  "grows f w w1 \<longleftrightarrow> same_keys w w1 \<and> web_pcbs w1 = web_pcbs w \<and>
     (\<exists>cs. web_calls w1 = web_calls w @ cs \<and>
       (\<forall>k c. map_of (web_handles w) k = Some c \<longrightarrow>
          (\<exists>c1. map_of (web_handles w1) k = Some c1 \<and> cl_websocket c1 = cl_websocket c \<and> cl_pcb c1 = cl_pcb c \<and>
             (\<forall>p. cl_pcb c = Some p \<longrightarrow> written p cs @ unsent (cl_queue c1) = unsent (cl_queue c) @ f k))))"

lemma grows_refl: "web_ok w \<Longrightarrow> grows (\<lambda>_. []) w w"
  by (auto simp: grows_def same_keys_def written_def)

lemma grows_trans:
  assumes "grows f w w1" "grows g w1 w2"
  shows "grows (\<lambda>k. f k @ g k) w w2"
proof -
  obtain cs where cs: "web_calls w1 = web_calls w @ cs"
    "\<And>k c. map_of (web_handles w) k = Some c \<Longrightarrow>
      \<exists>c1. map_of (web_handles w1) k = Some c1 \<and> cl_websocket c1 = cl_websocket c \<and> cl_pcb c1 = cl_pcb c \<and>
        (\<forall>p. cl_pcb c = Some p \<longrightarrow> written p cs @ unsent (cl_queue c1) = unsent (cl_queue c) @ f k)"
    using assms(1) unfolding grows_def by blast
  obtain ds where ds: "web_calls w2 = web_calls w1 @ ds"
    "\<And>k c. map_of (web_handles w1) k = Some c \<Longrightarrow>
      \<exists>c1. map_of (web_handles w2) k = Some c1 \<and> cl_websocket c1 = cl_websocket c \<and> cl_pcb c1 = cl_pcb c \<and>
        (\<forall>p. cl_pcb c = Some p \<longrightarrow> written p ds @ unsent (cl_queue c1) = unsent (cl_queue c) @ g k)"
    using assms(2) unfolding grows_def by blast
  have "\<exists>c2. map_of (web_handles w2) k = Some c2 \<and> cl_websocket c2 = cl_websocket c \<and> cl_pcb c2 = cl_pcb c \<and>
      (\<forall>p. cl_pcb c = Some p \<longrightarrow> written p (cs @ ds) @ unsent (cl_queue c2) = unsent (cl_queue c) @ f k @ g k)"
    if k: "map_of (web_handles w) k = Some c" for k c
  proof -
    obtain c1 where c1: "map_of (web_handles w1) k = Some c1" "cl_websocket c1 = cl_websocket c" "cl_pcb c1 = cl_pcb c"
      "\<forall>p. cl_pcb c = Some p \<longrightarrow> written p cs @ unsent (cl_queue c1) = unsent (cl_queue c) @ f k"
      using cs(2) [OF k] by blast
    obtain c2 where c2: "map_of (web_handles w2) k = Some c2" "cl_websocket c2 = cl_websocket c1" "cl_pcb c2 = cl_pcb c1"
      "\<forall>p. cl_pcb c1 = Some p \<longrightarrow> written p ds @ unsent (cl_queue c2) = unsent (cl_queue c1) @ g k"
      using ds(2) [OF c1(1)] by blast
    have "written p (cs @ ds) @ unsent (cl_queue c2) = unsent (cl_queue c) @ f k @ g k" if "cl_pcb c = Some p" for p
    proof -
      have "written p (cs @ ds) @ unsent (cl_queue c2) = written p cs @ unsent (cl_queue c1) @ g k"
        using c2(4) c1(3) that by simp
      also have "\<dots> = (written p cs @ unsent (cl_queue c1)) @ g k" by simp
      also have "\<dots> = unsent (cl_queue c) @ f k @ g k" using c1(4) that by simp
      finally show ?thesis .
    qed
    with c1 c2 show ?thesis by simp
  qed
  with assms cs(1) ds(1) show ?thesis
    unfolding grows_def by (intro conjI exI [of _ "cs @ ds"]) (auto intro: same_keys_trans)
qed

lemma sent_to_grows:
  assumes "sent_to p h c d w w1" "web_ok w" "map_of (web_handles w) h = Some c" "cl_pcb c = Some p"
  shows "grows (\<lambda>k. if k = h then d else []) w w1"
proof -
  obtain cs c1 where s: "web_calls w1 = web_calls w @ cs" "\<forall>x \<in> set cs. \<exists>bs ok. x = Tcp_write p bs ok"
    "map_of (web_handles w1) = (map_of (web_handles w))(h \<mapsto> c1)" "cl_pcb c1 = Some p" "cl_websocket c1 = cl_websocket c"
    "written p cs @ unsent (cl_queue c1) = unsent (cl_queue c) @ d"
    using assms(1) unfolding sent_to_def by blast
  have other: "written q cs = []" if "q \<noteq> p" for q
    using s(2) that by (fastforce simp: written_def accepted_bytes_def)
  have "q \<noteq> p" if "map_of (web_handles w) k = Some b" "cl_pcb b = Some q" "k \<noteq> h" for k b q
    using open_client(2) [OF assms(2) that(1,2)] open_client(2) [OF assms(2-4)] that(3) by auto
  with other s assms(3,4) sent_to_same_keys [OF assms(1)] show ?thesis
    using assms(1) by (auto simp: grows_def sent_to_def intro!: exI [of _ cs])
qed

section \<open>Broadcasts\<close>

definition text_bytes :: "string \<Rightarrow> u8 list" where
  "text_bytes s = (let frame = ws_build WS_TEXT s False [] in map byte_of (take (length frame mod 65536) frame))"

definition is_websocket :: "web \<Rightarrow> handle \<Rightarrow> bool" where
  "is_websocket w k \<longleftrightarrow> (case map_of (web_handles w) k of None \<Rightarrow> False | Some c \<Rightarrow> cl_websocket c)"

lemma grows_cong:
  assumes "grows f w w1"
    and "\<And>k c p. map_of (web_handles w) k = Some c \<Longrightarrow> cl_pcb c = Some p \<Longrightarrow> f k = g k"
  shows "grows g w w1"
  using assms unfolding grows_def by (metis (no_types, lifting))

lemma grows_websocket: "grows f w w1 \<Longrightarrow> is_websocket w1 k = is_websocket w k"
proof -
  assume g: "grows f w w1"
  then have k: "fst ` set (web_handles w1) = fst ` set (web_handles w)"
    unfolding grows_def same_keys_def by (metis set_map)
  show ?thesis
  proof (cases "map_of (web_handles w) k")
    case None
    with k have "map_of (web_handles w1) k = None" by (simp add: map_of_eq_None_iff)
    with None show ?thesis by (simp add: is_websocket_def)
  next
    case (Some c)
    with g obtain c1 where "map_of (web_handles w1) k = Some c1" "cl_websocket c1 = cl_websocket c"
      unfolding grows_def by blast
    with Some show ?thesis by (simp add: is_websocket_def)
  qed
qed

text \<open>Sending to the websocket clients of a list, one after the other.\<close>

definition to_websockets :: "web \<Rightarrow> handle set \<Rightarrow> u8 list \<Rightarrow> handle \<Rightarrow> u8 list" where
  "to_websockets w H d k = (if k \<in> H \<and> is_websocket w k then d else [])"

lemma message_grows:
  assumes "web_ok w" "map_of (web_handles w) h = Some c"
  shows "\<exists>w1. send_websocket env (cl_pcb c) WS_TEXT s w = Inr ((), w1) \<and>
      grows (\<lambda>k. if k = h then text_bytes s else []) w w1"
    and "txt_ok t \<Longrightarrow> \<exists>t1 w1. send_message_txt env mem h t w = Inr ((True, t1), w1) \<and>
      grows (\<lambda>k. if k = h then text_bytes (txt_text t) else []) w w1"
proof -
  have none: "grows (\<lambda>k. if k = h then d else []) w w" if "cl_pcb c = None" for d
    by (rule grows_cong [OF grows_refl [OF assms(1)]]) (use assms(2) that in auto)
  show "\<exists>w1. send_websocket env (cl_pcb c) WS_TEXT s w = Inr ((), w1) \<and>
      grows (\<lambda>k. if k = h then text_bytes s else []) w w1"
  proof (cases "cl_pcb c")
    case None
    with none closed_not_sent(1) [OF assms(2) None] show ?thesis by auto
  next
    case (Some p)
    with message_sent [OF assms Some, of env s] sent_to_grows [OF _ assms Some] show ?thesis
      unfolding text_bytes_def by metis
  qed
  show "\<exists>t1 w1. send_message_txt env mem h t w = Inr ((True, t1), w1) \<and>
      grows (\<lambda>k. if k = h then text_bytes (txt_text t) else []) w w1" if "txt_ok t"
  proof (cases "cl_pcb c")
    case None
    with none closed_not_sent(2) [OF assms(2) None] show ?thesis by auto
  next
    case (Some p)
    with txt_message_sent [OF assms Some that, of env mem] sent_to_grows [OF _ assms Some] show ?thesis
      unfolding text_bytes_def by metis
  qed
qed

lemma one_then_rest:
  assumes "grows (\<lambda>k. if k = h then d else []) w w1" "is_websocket w h"
    "grows (to_websockets w1 (set hs) d) w1 w2" "h \<notin> set hs"
  shows "grows (to_websockets w (set (h # hs)) d) w w2"
  by (rule grows_cong [OF grows_trans [OF assms(1,3)]])
    (use assms(2,4) grows_websocket [OF assms(1)] in \<open>auto simp: to_websockets_def\<close>)

lemma skip_then_rest:
  assumes "\<not> is_websocket w h" "grows (to_websockets w (set hs) d) w w2"
  shows "grows (to_websockets w (set (h # hs)) d) w w2"
  by (rule grows_cong [OF assms(2)]) (use assms(1) in \<open>auto simp: to_websockets_def\<close>)

lemma broadcast_to_grows:
  "web_ok w \<Longrightarrow> set hs \<subseteq> fst ` set (web_handles w) \<Longrightarrow> distinct hs \<Longrightarrow>
   \<exists>w1. broadcast_to env s hs w = Inr ((), w1) \<and> grows (to_websockets w (set hs) (text_bytes s)) w w1"
proof (induction hs arbitrary: w)
  case Nil
  then show ?case using grows_refl [OF Nil(1)] by (simp add: ret_op to_websockets_def)
next
  case (Cons h hs)
  then obtain c where c: "map_of (web_handles w) h = Some c"
    by (metis insert_subset list.simps(15) map_of_eq_None_iff option.exhaust)
  have isw: "is_websocket w h = cl_websocket c" by (simp add: is_websocket_def c)
  show ?case
  proof (cases "cl_websocket c")
    case True
    obtain w1 where w1: "send_websocket env (cl_pcb c) WS_TEXT s w = Inr ((), w1)"
      "grows (\<lambda>k. if k = h then text_bytes s else []) w w1"
      using message_grows(1) [OF Cons.prems(1) c] by blast
    have k: "same_keys w w1" using w1(2) by (simp add: grows_def)
    obtain c1 where c1: "map_of (web_handles w1) h = Some c1" by (rule same_keys_get [OF k c])
    have "fst ` set (web_handles w1) = fst ` set (web_handles w)" using k by (metis same_keys_def set_map)
    then obtain w2 where w2: "broadcast_to env s hs w1 = Inr ((), w2)"
      "grows (to_websockets w1 (set hs) (text_bytes s)) w1 w2"
      using Cons.IH [of w1] Cons.prems(2,3) same_keys_ok [OF k] by auto
    have "broadcast_to env s (h # hs) w = Inr ((), w2)"
      using True c w1(1) c1 w2(1)
      by (simp add: op_simps) (simp add: then_op_def bind_op_def client_get_eq)
    moreover have "h \<notin> set hs" using Cons.prems(3) by simp
    ultimately show ?thesis using one_then_rest [OF w1(2) _ w2(2)] True isw by blast
  next
    case False
    obtain w2 where w2: "broadcast_to env s hs w = Inr ((), w2)" "grows (to_websockets w (set hs) (text_bytes s)) w w2"
      using Cons.IH [of w] Cons.prems by auto
    have "broadcast_to env s (h # hs) w = Inr ((), w2)"
      using False c w2(1) by (simp add: op_simps) (simp add: then_op_def bind_op_def client_get_eq)
    with skip_then_rest [OF _ w2(2)] False isw show ?thesis by blast
  qed
qed

lemma web_ok_distinct: "web_ok w \<Longrightarrow> distinct (map fst (web_handles w))"
  by (simp add: web_ok_def)

lemma broadcast_total:
  assumes "web_ok w"
  shows "\<exists>w1. broadcast_websocket env s w = Inr ((), w1) \<and>
    grows (to_websockets w (fst ` set (web_handles w)) (text_bytes s)) w w1"
  using broadcast_to_grows [OF assms _ web_ok_distinct [OF assms]] unfolding broadcast_websocket_def by simp

text \<open>The copies of a text that is broadcast.\<close>

lemma broadcast_txt_none:
  "set hs \<subseteq> fst ` set (web_handles w) \<Longrightarrow> \<forall>h \<in> set hs. \<not> is_websocket w h \<Longrightarrow>
   broadcast_txt_to env mem hs n t w = Inr (t, w)"
proof (induction hs)
  case (Cons h hs)
  then obtain c where c: "map_of (web_handles w) h = Some c"
    by (metis insert_subset list.simps(15) map_of_eq_None_iff option.exhaust)
  have "\<not> cl_websocket c" using Cons.prems(2) by (simp add: is_websocket_def c)
  with Cons c show ?case by (simp add: op_simps)
qed (simp add: ret_op)

lemma broadcast_txt_grows:
  "web_ok w \<Longrightarrow> set hs \<subseteq> fst ` set (web_handles w) \<Longrightarrow> distinct hs \<Longrightarrow>
   n = int (length (filter (is_websocket w) hs)) \<Longrightarrow> txt_ok t \<Longrightarrow> NUL \<notin> set (txt_text t) \<Longrightarrow>
   \<exists>t1 w1. broadcast_txt_to env mem hs n t w = Inr (t1, w1) \<and>
     grows (to_websockets w (set hs) (text_bytes (txt_text t))) w w1"
proof (induction hs arbitrary: w n)
  case Nil
  then show ?case using grows_refl [OF Nil(1)] by (simp add: ret_op to_websockets_def)
next
  case (Cons h hs)
  then obtain c where c: "map_of (web_handles w) h = Some c"
    by (metis insert_subset list.simps(15) map_of_eq_None_iff option.exhaust)
  have isw: "is_websocket w h = cl_websocket c" by (simp add: is_websocket_def c)
  obtain buf where buf: "tx_buffer t = Some buf" "txt_text t = take (tx_endptr t) buf" "tx_endptr t = length (txt_text t)"
    using Cons.prems(5) by (metis txt_okE length_txt_text)
  show ?case
  proof (cases "cl_websocket c")
    case True
    let ?t = "if n - 1 > 0 then txt_of mem (take (tx_endptr t) buf) (tx_endptr t) (tx_endptr t + 16) else t"
    have t: "txt_ok ?t" "txt_text ?t = txt_text t"
      using txt_of_ok [OF Cons.prems(6), of "length (txt_text t) + 16" mem, folded buf(3)] Cons.prems(5) by (auto simp flip: buf(2))
    obtain t1 w1 where w1: "send_message_txt env mem h ?t w = Inr ((True, t1), w1)"
      "grows (\<lambda>k. if k = h then text_bytes (txt_text t) else []) w w1"
      using message_grows(2) [OF Cons.prems(1) c t(1), of env mem] unfolding t(2) by blast
    have k: "same_keys w w1" using w1(2) by (simp add: grows_def)
    obtain c1 where c1: "map_of (web_handles w1) h = Some c1" by (rule same_keys_get [OF k c])
    have keys: "fst ` set (web_handles w1) = fst ` set (web_handles w)" using k by (metis same_keys_def set_map)
    have sub: "set hs \<subseteq> fst ` set (web_handles w1)" using Cons.prems(2) keys by auto
    have same: "is_websocket w1 j = is_websocket w j" for j by (rule grows_websocket [OF w1(2)])
    then have n1: "n - 1 = int (length (filter (is_websocket w1) hs))"
      using Cons.prems(4) True isw by (simp cong: filter_cong)
    let ?t1 = "if n - 1 > 0 then t else t1"
    have "\<exists>t2 w2. broadcast_txt_to env mem hs (n - 1) ?t1 w1 = Inr (t2, w2) \<and>
        grows (to_websockets w1 (set hs) (text_bytes (txt_text t))) w1 w2"
    proof (cases "n - 1 > 0")
      case True
      then show ?thesis
        using Cons.IH [OF same_keys_ok [OF k] sub _ n1 Cons.prems(5,6)] Cons.prems(3) by simp
    next
      case False
      with n1 have "filter (is_websocket w1) hs = []" by simp
      then have no: "\<forall>h \<in> set hs. \<not> is_websocket w1 h" by (simp add: filter_empty_conv)
      have "to_websockets w1 (set hs) (text_bytes (txt_text t)) = (\<lambda>_. [])"
        using no by (auto simp: to_websockets_def fun_eq_iff)
      with False broadcast_txt_none [OF sub no] grows_refl [OF same_keys_ok [OF k]] show ?thesis by auto
    qed
    then obtain t2 w2 where w2: "broadcast_txt_to env mem hs (n - 1) ?t1 w1 = Inr (t2, w2)"
      "grows (to_websockets w1 (set hs) (text_bytes (txt_text t))) w1 w2" by blast
    have "broadcast_txt_to env mem (h # hs) n t w = Inr (t2, w2)"
      using True c w1(1) c1 w2(1) buf(1)
      by (cases "n - 1 > 0") (simp_all add: op_simps, simp_all add: then_op_def bind_op_def client_get_eq ret_op)
    moreover have "h \<notin> set hs" using Cons.prems(3) by simp
    ultimately show ?thesis using one_then_rest [OF w1(2) _ w2(2)] True isw by blast
  next
    case False
    obtain t2 w2 where w2: "broadcast_txt_to env mem hs n t w = Inr (t2, w2)"
      "grows (to_websockets w (set hs) (text_bytes (txt_text t))) w w2"
      using Cons.IH [of w n] Cons.prems False isw by auto
    have "broadcast_txt_to env mem (h # hs) n t w = Inr (t2, w2)" using False c w2(1) by (simp add: op_simps)
    with skip_then_rest [OF _ w2(2)] False isw show ?thesis by blast
  qed
qed

lemma broadcast_txt_total:
  assumes "web_ok w" "txt_ok t" "NUL \<notin> set (txt_text t)"
  shows "\<exists>t1 w1. broadcast_txt env mem t w = Inr (t1, w1) \<and>
    grows (to_websockets w (fst ` set (web_handles w)) (text_bytes (txt_text t))) w w1"
proof -
  have d: "distinct (map fst (web_handles w))" by (rule web_ok_distinct [OF assms(1)])
  have "filter (is_websocket w) (map fst (web_handles w)) = map fst (filter (\<lambda>e. cl_websocket (snd e)) (web_handles w))"
  proof -
    have "is_websocket w (fst e) = cl_websocket (snd e)" if "e \<in> set (web_handles w)" for e
      using map_of_is_SomeI [OF d, of "fst e" "snd e"] that by (simp add: is_websocket_def)
    then show ?thesis by (simp add: filter_map o_def cong: filter_cong)
  qed
  then have n: "int (length (filter (\<lambda>e. cl_websocket (snd e)) (web_handles w))) =
      int (length (filter (is_websocket w) (map fst (web_handles w))))" by simp
  show ?thesis
    using broadcast_txt_grows [OF assms(1) _ d n assms(2,3), of env mem] unfolding broadcast_txt_def by simp
qed

end
