(* ===== verification/Web_Server.thy ===== *)
theory Web_Server
  imports Web_Sending
begin

text \<open>
  The server as a state machine: what lwIP and the application can do to it, the states it
  reaches, and the operations that cannot fault in any of them.
\<close>

section \<open>Events\<close>

datatype web_event =
    Accept "pcb option" bool
  | Recv pcb "string option"
  | Sent pcb nat
  | Poll pcb
  | Error pcb
  | Data handle string allocation
  | Message handle string
  | Message_Txt handle text_obj
  | Broadcast string
  | Broadcast_Txt text_obj
  | Clock int

fun web_do :: "web_env \<Rightarrow> web_event \<Rightarrow> unit web_op" where
  "web_do env (Accept p ok) = bind_op (tcp_server_accept env p ok) (\<lambda>_. ret ())"
| "web_do env (Recv p d) = tcp_server_recv env p d"
| "web_do env (Sent p n) = tcp_server_sent env p n"
| "web_do env (Poll p) = tcp_server_poll env p"
| "web_do env (Error p) = tcp_server_err p"
| "web_do env (Data h d a) = bind_op (send_data env h d a) (\<lambda>_. ret ())"
| "web_do env (Message h s) = bind_op (send_message env h s) (\<lambda>_. ret ())"
| "web_do env (Message_Txt h t) = bind_op (send_message_txt env (env_mem env) h t) (\<lambda>_. ret ())"
| "web_do env (Broadcast_Txt t) = bind_op (broadcast_txt env (env_mem env) t) (\<lambda>_. ret ())"
| "web_do env (Broadcast s) = broadcast_websocket env s"
| "web_do env (Clock t) = (\<lambda>w. Inr ((), w\<lparr>web_time := t\<rparr>))"

text \<open>lwIP acknowledges only bytes it was given.\<close>

definition flight_of :: "pcb \<Rightarrow> web \<Rightarrow> nat" where
  "flight_of p w = (case find_pcb (Some p) w of None \<Rightarrow> 0
     | Some h \<Rightarrow> (case map_of (web_handles w) h of None \<Rightarrow> 0 | Some c \<Rightarrow> in_flight (cl_queue c)))"

definition ack_honest :: "web_event \<Rightarrow> web \<Rightarrow> bool" where
  "ack_honest e w \<longleftrightarrow> (case e of Sent p n \<Rightarrow> n \<le> flight_of p w | _ \<Rightarrow> True)"

definition web_new :: "int \<Rightarrow> web" where
  "web_new now = \<lparr>web_handles = [], web_pcbs = [], web_next = 999, web_calls = [], web_time = now\<rparr>"

inductive web_step :: "web_env \<Rightarrow> web \<Rightarrow> web \<Rightarrow> bool" for env where
  step: "ack_honest e w \<Longrightarrow> web_do env e w = Inr ((), w1) \<Longrightarrow> web_step env w w1"

inductive web_reach :: "web_env \<Rightarrow> web \<Rightarrow> bool" for env where
  start: "web_reach env (web_new now)"
| next_state: "web_reach env w \<Longrightarrow> web_step env w w1 \<Longrightarrow> web_reach env w1"

inductive_cases web_stepE: "web_step env w w1"

section \<open>New clients\<close>

lemma web_new_ok: "web_ok (web_new t)"
  by (simp add: web_ok_def web_new_def)

definition client_fresh :: "web_env \<Rightarrow> pcb \<Rightarrow> handle \<Rightarrow> web \<Rightarrow> web" where
  "client_fresh env p h w = w\<lparr>web_next := h, web_pcbs := table_add p h (web_pcbs w),
     web_handles := table_add h (client_new env (web_time w) p h) (web_handles w)\<rparr>"

lemma add_client_cases:
  "add_client env p w =
    (case map_of (web_pcbs w) p of Some h \<Rightarrow> Inr (None, w)
     | None \<Rightarrow> (case next_handle w of None \<Rightarrow> Inl No_Return | Some h \<Rightarrow> Inr (Some h, client_fresh env p h w)))"
  by (simp add: add_client_def client_fresh_def split: option.splits)

lemma client_fresh_ok:
  assumes "web_ok w" "map_of (web_pcbs w) p = None" "map_of (web_handles w) h = None" "1000 \<le> unat h"
  shows "web_ok (client_fresh env p h w)"
proof -
  have new: "p \<notin> fst ` set (web_pcbs w)" "h \<notin> fst ` set (web_handles w)"
    using assms(2,3) by (simp_all add: map_of_eq_None_iff)
  have sets: "set (table_add p h (web_pcbs w)) = insert (p, h) (set (web_pcbs w))"
    "set (table_add h (client_new env (web_time w) p h) (web_handles w)) =
      insert (h, client_new env (web_time w) p h) (set (web_handles w))"
    using new by (simp_all add: set_table_add)
  have "client_ok (table_add p h (web_pcbs w)) k c" if "map_of (web_handles w) k = Some c" for k c
  proof -
    have "client_ok (web_pcbs w) k c" using assms(1) that by (simp add: web_ok_def)
    then show ?thesis using assms(2)
      by (auto simp: client_ok_def map_of_table_add split: option.splits)
  qed
  moreover have "client_ok (table_add p h (web_pcbs w)) h (client_new env (web_time w) p h)"
    using assms(2) by (simp add: client_ok_def client_new_def map_of_table_add queue_ok_def)
  moreover have "h \<notin> snd ` set (web_pcbs w)" using new(2) assms(1) by (simp add: web_ok_def)
  ultimately show ?thesis
    using assms new sets
    by (simp add: web_ok_def client_fresh_def distinct_table_add distinct_values_table_add map_of_table_add)
qed

lemma next_handle_new:
  assumes "web_ok w" "next_handle w = Some h"
  shows "map_of (web_handles w) h = None" "1000 \<le> unat h"
proof -
  let ?P = "\<lambda>h. 1000 \<le> unat h"
  have bump: "?P (bump_handle k)" if "999 \<le> unat k" for k
  proof (cases "k + 1 = 0")
    case False
    then have "unat (k + 1) = unat k + 1" by (simp add: unatSuc add.commute)
    with False that show ?thesis by (simp add: bump_handle_def)
  qed (simp add: bump_handle_def)
  have l: "while_option (\<lambda>h. find_handle h w \<noteq> None) bump_handle (bump_handle (web_next w)) = Some h"
    using assms(2) by (simp add: next_handle_def)
  have s: "?P (bump_handle (web_next w))" using assms(1) by (intro bump) (simp add: web_ok_def)
  show "map_of (web_handles w) h = None"
    using while_option_stop [OF l] by (simp add: find_handle_def split: if_splits)
  show "1000 \<le> unat h" by (rule while_option_rule [where P = ?P, OF _ l s]) (use bump in simp)
qed

lemma keeps_add [keeps_rules]: "keeps (add_client env p)"
  unfolding keeps_def add_client_cases
  by (auto simp: next_handle_new client_fresh_ok split: option.splits)

lemma keeps_accept [keeps_rules]: "keeps (tcp_server_accept env p ok)"
  unfolding tcp_server_accept_def by (auto intro!: keeps_rules split: option.splits)

section \<open>Every event keeps the invariant\<close>

lemma web_ok_time [simp]: "web_ok (w\<lparr>web_time := t\<rparr>) = web_ok w"
  by (simp add: web_ok_def)

lemma acknowledge_ok:
  assumes "web_ok w" "n \<le> flight_of p w" "find_pcb (Some p) w = Some h"
  shows "web_ok (web_upd h (cl_acknowledge n) w)"
proof (rule web_upd_ok [OF assms(1)])
  fix c assume c: "map_of (web_handles w) h = Some c"
  have "client_ok (web_pcbs w) h c" using assms(1) c by (simp add: web_ok_def)
  moreover have "n \<le> in_flight (cl_queue c)" using assms(2,3) c by (simp add: flight_of_def)
  ultimately show "client_ok (web_pcbs w) h (cl_acknowledge n c)"
    by (auto simp: client_ok_def cl_acknowledge_def queue_acknowledge_ok split: option.splits)
qed

lemma sent_total:
  assumes "web_ok w" "n \<le> flight_of p w"
  shows "\<exists>w1. tcp_server_sent env p n w = Inr ((), w1) \<and> web_ok w1"
proof -
  have go: "\<exists>w2. then_op (write_next env (Some p)) (ret ()) w1 = Inr ((), w2) \<and> web_ok w2" if "web_ok w1" for w1
    using write_next_total [OF that, of env "Some p"] by (auto simp: then_op_Inr ret_op)
  show ?thesis
  proof (cases "find_pcb (Some p) w")
    case None
    with go [OF assms(1)] show ?thesis by (simp add: tcp_server_sent_def op_simps)
  next
    case (Some h)
    then obtain c where c: "map_of (web_handles w) h = Some c" by (rule find_pcb_SomeE)
    show ?thesis
      using go [OF acknowledge_ok [OF assms Some]] Some by (simp add: tcp_server_sent_def op_simps c)
  qed
qed

text \<open>The poll in three parts: the queue, the idle test, the close.\<close>

definition poll_idle :: "web_env \<Rightarrow> pcb \<Rightarrow> handle \<Rightarrow> int \<Rightarrow> unit web_op" where
  "poll_idle env p h now =
     bind_op (client_get h) (\<lambda>c.
       if cl_is_idle env now c
       then if cl_websocket c
            then if \<not> cl_ws_close_sent c
                 then then_op (client_do h (\<lambda>c. (cl_activity now c)\<lparr>cl_ws_close_sent := True\<rparr>))
                        (send_websocket env (cl_pcb c) WS_CLOSE [])
                 else mark_for_close (Some p)
            else mark_for_close (Some p)
       else ret ())"

definition poll_close :: "web_env \<Rightarrow> pcb \<Rightarrow> handle \<Rightarrow> unit web_op" where
  "poll_close env p h = bind_op (client_get h) (\<lambda>c.
     if cl_closed c then close_client env (Some p) False else ret ())"

lemma poll_parts:
  assumes "find_pcb (Some p) w = Some h" "map_of (web_handles w) h = Some c" "cl_pcb c = Some p"
  shows "tcp_server_poll env p w =
    then_op (if more_to_send (cl_queue c) then then_op (write_next env (Some p)) (ret ()) else ret ())
      (then_op (poll_idle env p h (web_time w)) (poll_close env p h)) w"
  using assms by (simp add: tcp_server_poll_def poll_idle_def poll_close_def op_simps)


section \<open>Operations that cannot fault\<close>

lemma mark_total:
  assumes "web_ok w"
  shows "\<exists>w1. mark_for_close p w = Inr ((), w1) \<and> same_keys w w1"
proof (cases "find_pcb p w")
  case None
  with assms show ?thesis by (simp add: mark_for_close_def same_keys_def)
next
  case (Some h)
  then obtain c where "map_of (web_handles w) h = Some c" by (rule find_pcb_SomeE)
  with Some assms show ?thesis
    by (simp add: mark_for_close_def client_do_eq same_keys_def keeps_client_upd keeps_client_intros)
qed

lemma poll_idle_total:
  assumes "web_ok w" "map_of (web_handles w) h = Some c"
  shows "\<exists>w1. poll_idle env p h t w = Inr ((), w1) \<and> same_keys w w1"
proof -
  let ?f = "\<lambda>c. (cl_activity t c)\<lparr>cl_ws_close_sent := True\<rparr>"
  have u: "web_ok (web_upd h ?f w)" by (intro keeps_client_upd keeps_client_intros assms)
  have c: "map_of (web_handles (web_upd h ?f w)) h = Some (?f c)" "cl_pcb (?f c) = cl_pcb c"
    using assms(2) by (simp_all add: cl_activity_def)
  obtain w1 where "send_websocket env (cl_pcb c) WS_CLOSE [] (web_upd h ?f w) = Inr ((), w1)"
    "same_keys (web_upd h ?f w) w1"
    using send_websocket_own [OF u c(1), of env WS_CLOSE "[]"] unfolding c(2) by blast
  then have "\<exists>w1. then_op (client_do h ?f) (send_websocket env (cl_pcb c) WS_CLOSE []) w = Inr ((), w1) \<and> same_keys w w1"
    using assms(2) by (auto simp: op_simps same_keys_def)
  with mark_total [OF assms(1), of "Some p"] assms show ?thesis
    by (auto simp: poll_idle_def op_simps same_keys_def)
qed

lemma poll_total:
  assumes "web_ok w"
  shows "\<exists>w1. tcp_server_poll env p w = Inr ((), w1) \<and> web_ok w1"
proof (cases "find_pcb (Some p) w")
  case None
  with assms show ?thesis by (simp add: tcp_server_poll_def)
next
  case (Some h)
  then obtain c where c: "map_of (web_handles w) h = Some c" by (rule find_pcb_SomeE)
  show ?thesis
  proof (cases "cl_pcb c = Some p")
    case False
    with close_client_total [OF assms, of env "Some p" False] Some c show ?thesis
      by (simp add: tcp_server_poll_def op_simps)
  next
    case True
    define m where "m = (if more_to_send (cl_queue c) then then_op (write_next env (Some p)) (ret ()) else ret ())"
    have "\<exists>w1. m w = Inr ((), w1) \<and> same_keys w w1"
      using write_next_sent [OF assms c True, of env] assms
      by (auto simp: m_def then_op_Inr ret_op sent_to_def same_keys_def)
    then obtain w1 where w1: "m w = Inr ((), w1)" "same_keys w w1" by blast
    obtain c1 where c1: "map_of (web_handles w1) h = Some c1" by (rule same_keys_get [OF w1(2) c])
    obtain w2 where w2: "poll_idle env p h (web_time w) w1 = Inr ((), w2)" "same_keys w1 w2"
      using poll_idle_total [OF same_keys_ok [OF w1(2)] c1] by blast
    obtain c2 where c2: "map_of (web_handles w2) h = Some c2" by (rule same_keys_get [OF w2(2) c1])
    have ok2: "web_ok w2" using w2(2) by (simp add: same_keys_def)
    have "\<exists>w3. poll_close env p h w2 = Inr ((), w3) \<and> web_ok w3"
      using close_client_total [OF ok2] ok2 by (simp add: poll_close_def op_simps c2)
    with poll_parts [OF Some c True, of env] show ?thesis
      by (simp add: then_op_Inr [of m w, OF w1(1)]
          then_op_Inr [of "poll_idle env p h (web_time w)" w1, OF w2(1)] flip: m_def)
  qed
qed

lemma err_total:
  assumes "web_ok w"
  shows "\<exists>w1. tcp_server_err p w = Inr ((), w1) \<and> web_ok w1"
proof (cases "find_pcb (Some p) w")
  case None
  with assms show ?thesis by (simp add: tcp_server_err_def)
next
  case (Some h)
  then obtain c where "map_of (web_pcbs w) p = Some h" by (rule find_pcb_SomeE) simp
  with Some web_drop_ok [OF assms this] show ?thesis by (simp add: tcp_server_err_def delete_client_eq)
qed

lemma accept_total:
  assumes "web_ok w" "map_of (web_pcbs w) p = None" "length (web_handles w) < 2 ^ 32 - 1000"
  shows "\<exists>w1. tcp_server_accept env (Some p) True w = Inr (True, w1) \<and> web_ok w1"
proof -
  obtain h where h: "next_handle w = Some h" "map_of (web_handles w) h = None" "1000 \<le> unat h"
    using next_handle_fresh [OF assms(1,3)] by blast
  with assms client_fresh_ok [OF assms(1,2) h(2,3)] show ?thesis
    by (simp add: tcp_server_accept_def bind_op_def add_client_cases ret_op)
qed

section \<open>A server with one client\<close>

definition plain_env :: web_env where
  "plain_env = \<lparr>env_sndbuf = \<lambda>_ _. 5840, env_write = \<lambda>_ _ _. True, env_close = \<lambda>_ _. True,
     env_http = None, env_message = None, env_accept = \<lambda>k. k, env_http_idle = 10, env_ws_idle = 0, env_ws_wait = 2,
     env_junk = 0, env_mem = \<lambda>_. NUL, env_junk_header = ws_demo_header\<rparr>"

definition one_client :: web where
  "one_client = client_fresh plain_env 7 1000 (web_new 0)"

lemma next_handle_now:
  "find_handle (bump_handle (web_next w)) w = None \<Longrightarrow> next_handle w = Some (bump_handle (web_next w))"
  by (simp add: next_handle_def while_option_unfold)

lemma one_client_accept: "web_do plain_env (Accept (Some 7) True) (web_new 0) = Inr ((), one_client)"
proof -
  have "next_handle (web_new 0) = Some 1000"
    using next_handle_now [of "web_new 0"] by (simp add: find_handle_def web_new_def bump_handle_def)
  then have "add_client plain_env 7 (web_new 0) = Inr (Some 1000, one_client)"
    by (simp add: add_client_cases one_client_def) (simp add: web_new_def)
  then show ?thesis by (simp add: tcp_server_accept_def bind_op_def ret_op)
qed

lemma map_of_client_fresh:
  "map_of (web_handles w) h = None \<Longrightarrow>
    map_of (web_handles (client_fresh env p h w)) = (map_of (web_handles w))(h \<mapsto> client_new env (web_time w) p h)"
  "map_of (web_pcbs w) p = None \<Longrightarrow> map_of (web_pcbs (client_fresh env p h w)) = (map_of (web_pcbs w))(p \<mapsto> h)"
  by (simp_all add: client_fresh_def map_of_table_add)

lemma one_client_maps:
  "map_of (web_handles one_client) = [1000 \<mapsto> client_new plain_env 0 7 1000]"
  "map_of (web_pcbs one_client) = [7 \<mapsto> 1000]" "web_calls one_client = []"
  by (simp_all add: one_client_def map_of_client_fresh web_new_def client_fresh_def)

lemma one_client_find: "find_handle 1000 one_client = Some 1000" "find_pcb (Some 7) one_client = Some 1000"
  by (simp_all add: find_handle_def find_pcb_def one_client_maps)

lemma one_client_reach: "web_reach plain_env one_client"
proof -
  have "web_step plain_env (web_new 0) one_client"
    by (rule web_step.step [OF _ one_client_accept]) (simp add: ack_honest_def)
  then show ?thesis by (rule web_reach.next_state [OF web_reach.start])
qed

lemma plain_env_keeps: "callbacks_keep plain_env"
  by (simp add: callbacks_keep_def plain_env_def)

lemmas queue_eval = queue_get_next_def queue_send_def sendbuf_new_def sb_acknowledge_def is_acknowledged_def
  to_send_def sb_get_next_def

lemma one_client_data:
  "\<exists>w. web_do plain_env (Data 1000 ''ok'' STAT) one_client = Inr ((), w) \<and>
     web_calls w = [Tcp_write 7 (map byte_of ''ok'') True]"
  by (simp add: send_data_def one_client_find one_client_maps client_new_def send_buffer_def write_next_def
      write_queue_def Let_def cl_activity_def queue_eval plain_env_def TCP_MSS_def bind_op_def client_get_def
      then_op_def ret_def client_do_eq tcp_write_eq)

section \<open>Properties\<close>

lemma handle_known:
  "send_data env h d a w = Inr (b, w1) \<or> send_message env h s w = Inr (b, w1) \<Longrightarrow>
    \<exists>c. map_of (web_handles w) h = Some c"
  by (cases "map_of (web_handles w) h") (auto simp: send_data_def send_message_def find_handle_def)

lemma keeps_send_data [keeps_rules]: "keeps (send_data env h d a)"
  unfolding keeps_def using handle_known data_total(1) same_keys_ok by (metis Inr_inject Pair_inject)

lemma keeps_send_message [keeps_rules]: "keeps (send_message env h s)"
  unfolding keeps_def using handle_known data_total(2) same_keys_ok by (metis Inr_inject Pair_inject)

lemma keeps_with_state:
  assumes "\<And>P. keeps (m P)"
  shows "keeps (\<lambda>w. m (P w) w)"
  using assms unfolding keeps_def by blast

lemma keeps_message_txt [keeps_rules]: "keeps (send_message_txt env mem h t)"
proof -
  have "keeps (case k of None \<Rightarrow> fail Null_Pointer | Some clptr \<Rightarrow>
         bind_op (client_get clptr) (\<lambda>c.
           if P (cl_pcb c) = Some clptr
           then (case ws_build_txt mem WS_TEXT t False [] of
                   None \<Rightarrow> fail Out_Of_Bounds
                 | Some t \<Rightarrow>
                     (case tx_buffer t of
                        None \<Rightarrow> fail Null_Pointer
                      | Some buf \<Rightarrow>
                          then_op (send_buffer env (cl_pcb c) (take (tx_endptr t) buf) PREALL)
                            (ret (True, txt_release t))))
           else ret (True, t)))" for k P
    by (cases k) (auto intro!: keeps_rules split: option.splits)
  then show ?thesis
    unfolding send_message_txt_def keeps_def
    by (fastforce simp: fail_op split: option.splits)
qed

lemma keeps_broadcast_txt_to [keeps_rules]: "keeps (broadcast_txt_to env mem hs n t)"
  by (induction hs arbitrary: n t) (auto intro!: keeps_rules split: option.splits)

lemma keeps_broadcast_txt [keeps_rules]: "keeps (broadcast_txt env mem t)"
  unfolding broadcast_txt_def using keeps_broadcast_txt_to unfolding keeps_def by blast

lemma web_do_ok:
  assumes "callbacks_keep env" "web_ok w" "ack_honest e w" "web_do env e w = Inr (u, w1)"
  shows "web_ok w1"
proof -
  have fin: "web_ok w1" if "keeps (web_do env e)"
    using that assms(2,4) unfolding keeps_def by blast
  show ?thesis
  proof (cases e)
    case (Sent p n)
    then obtain w2 where "web_do env e w = Inr ((), w2)" "web_ok w2"
      using sent_total [OF assms(2), of n p env] assms(3) by (auto simp: ack_honest_def)
    with assms(4) show ?thesis by simp
  next
    case (Clock t)
    with assms(2,4) show ?thesis by auto
  next
    case (Recv p d)
    show ?thesis by (rule fin) (simp add: Recv keeps_recv [OF assms(1)])
  next
    case (Poll p)
    show ?thesis by (rule fin) (use poll_total [of _ env p] in \<open>auto simp: Poll intro!: keeps_total\<close>)
  next
    case (Error p)
    show ?thesis by (rule fin) (use err_total in \<open>auto simp: Error intro!: keeps_total\<close>)
  next
    case (Broadcast t)
    show ?thesis
      by (rule fin) (use broadcast_total [of _ env t] in \<open>fastforce simp: Broadcast grows_def dest: same_keys_ok intro!: keeps_total\<close>)
  qed (rule fin; simp add: keeps_rules)+
qed

lemma web_reach_ok:
  assumes "callbacks_keep env" "web_reach env w"
  shows "web_ok w"
  using assms(2)
  by (induction rule: web_reach.induct) (auto simp: web_new_ok elim!: web_stepE intro: web_do_ok [OF assms(1)])

text \<open>C3: The tables of the server stay consistent.  Whatever lwIP delivers in whatever order, and
  whatever the application sends (its callbacks acting through the server's operations), the two
  tables have distinct keys, every connection has one client and every client one connection, an
  open client knows the connection it is entered under, its queue is well-formed, and a closed
  client has given its connection up.\<close>

theorem web_tables:
  assumes "callbacks_keep env" and "web_reach env w"
  shows "distinct (map fst (web_handles w)) \<and> distinct (map fst (web_pcbs w)) \<and> distinct (map snd (web_pcbs w)) \<and>
    snd ` set (web_pcbs w) = fst ` set (web_handles w) \<and>
    (\<forall>h c. map_of (web_handles w) h = Some c \<longrightarrow> cl_handle c = h \<and> queue_ok (cl_queue c) \<and>
       (if cl_closed c then cl_pcb c = None
        else \<exists>p. cl_pcb c = Some p \<and> map_of (web_pcbs w) p = Some h))"
proof -
  have "web_ok w" by (rule web_reach_ok [OF assms])
  then have "client_ok (web_pcbs w) h c" if "map_of (web_handles w) h = Some c" for h c
    using that unfolding web_ok_def by blast
  then have "cl_handle c = h \<and> queue_ok (cl_queue c) \<and>
      (if cl_closed c then cl_pcb c = None else \<exists>p. cl_pcb c = Some p \<and> map_of (web_pcbs w) p = Some h)"
    if "map_of (web_handles w) h = Some c" for h c
    using that by (cases "cl_pcb c") (fastforce simp: client_ok_def)+
  with \<open>web_ok w\<close> show ?thesis unfolding web_ok_def by blast
qed

lemma web_tables_witness:
  "\<exists>w. web_reach plain_env w \<and> web_calls w = [Tcp_write 7 (map byte_of ''ok'') True] \<and>
     distinct (map fst (web_handles w)) \<and> snd ` set (web_pcbs w) = fst ` set (web_handles w)"
proof -
  obtain w where w: "web_do plain_env (Data 1000 ''ok'' STAT) one_client = Inr ((), w)"
    "web_calls w = [Tcp_write 7 (map byte_of ''ok'') True]"
    using one_client_data by blast
  have "web_step plain_env one_client w"
    by (rule web_step.step [OF _ w(1)]) (simp add: ack_honest_def)
  then have r: "web_reach plain_env w" by (rule web_reach.next_state [OF one_client_reach])
  with web_tables [OF plain_env_keeps r] w(2) show ?thesis by blast
qed

text \<open>
  The events that the server can take in: connections are new and there are handles left,
  acknowledgements are honest, the application sends to clients that exist, and no data arrives
  for the client (data is the subject of the theories on requests and messages).
\<close>

definition web_safe :: "web_event \<Rightarrow> web \<Rightarrow> bool" where
  "web_safe e w \<longleftrightarrow>
     (case e of
        Accept p ok \<Rightarrow> (case p of None \<Rightarrow> True
          | Some pcb \<Rightarrow> ok \<longrightarrow> map_of (web_pcbs w) pcb = None \<and> length (web_handles w) < 2 ^ 32 - 1000)
      | Recv p d \<Rightarrow> d = None \<or> d = Some [] \<or> find_pcb (Some p) w = None
      | Sent p n \<Rightarrow> n \<le> flight_of p w
      | Data h d a \<Rightarrow> find_handle h w \<noteq> None
      | Message h s \<Rightarrow> find_handle h w \<noteq> None
      | Message_Txt h t \<Rightarrow> find_handle h w \<noteq> None \<and> txt_ok t
      | Broadcast_Txt t \<Rightarrow> txt_ok t \<and> NUL \<notin> set (txt_text t)
      | _ \<Rightarrow> True)"

lemma web_safe_total:
  assumes "web_ok w" "web_safe e w"
  shows "\<exists>w1. web_do env e w = Inr ((), w1)"
proof (cases e)
  case (Accept p ok)
  with assms accept_total [OF assms(1), of "the p" env] show ?thesis
    by (cases p; cases ok) (auto simp: web_safe_def tcp_server_accept_def op_simps bind_op_def)
next
  case (Recv p d)
  show ?thesis
  proof (cases d)
    case None
    with Recv close_client_total [OF assms(1), of env "Some p" True] show ?thesis
      by (auto simp: tcp_server_recv_def)
  next
    case (Some s)
    with Recv assms(2) show ?thesis by (auto simp: web_safe_def tcp_server_recv_def op_simps)
  qed
next
  case (Sent p n)
  with sent_total [OF assms(1), of n p env] assms(2) show ?thesis by (auto simp: web_safe_def)
next
  case (Poll p)
  with poll_total [OF assms(1), of env p] show ?thesis by auto
next
  case (Error p)
  with err_total [OF assms(1), of p] show ?thesis by auto
next
  case (Data h d a)
  then obtain c where "map_of (web_handles w) h = Some c"
    using assms(2) by (auto simp: web_safe_def find_handle_def split: if_splits)
  from data_total(1) [OF assms(1) this, of env d a] Data show ?thesis by (auto simp: bind_op_Inr ret_op)
next
  case (Message h s)
  then obtain c where "map_of (web_handles w) h = Some c"
    using assms(2) by (auto simp: web_safe_def find_handle_def split: if_splits)
  from data_total(2) [OF assms(1) this, of env s] Message show ?thesis by (auto simp: bind_op_Inr ret_op)
next
  case (Message_Txt h t)
  then obtain c where "map_of (web_handles w) h = Some c"
    using assms(2) by (auto simp: web_safe_def find_handle_def split: if_splits)
  from message_grows(2) [OF assms(1) this, of t env "env_mem env"] Message_Txt assms(2) show ?thesis
    by (auto simp: web_safe_def bind_op_Inr ret_op)
next
  case (Broadcast_Txt t)
  with broadcast_txt_total [OF assms(1), of t env "env_mem env"] assms(2) show ?thesis
    by (auto simp: web_safe_def bind_op_Inr ret_op)
next
  case (Broadcast s)
  with broadcast_total [OF assms(1), of env s] show ?thesis by auto
qed simp

text \<open>C4: No fault outside the receive path.  In every reachable state, accepting a new connection,
  acknowledgements, polls (with idle closes and pending closes), connection errors, a close by
  the peer, sending to a client that exists and broadcasting end without reading a deleted
  client or a null pointer, and in a reachable state.\<close>

theorem web_no_fault:
  assumes "callbacks_keep env" and "web_reach env w" and "web_safe e w"
  shows "\<exists>w1. web_do env e w = Inr ((), w1) \<and> web_reach env w1"
proof -
  obtain w1 where w1: "web_do env e w = Inr ((), w1)"
    using web_safe_total [OF web_reach_ok [OF assms(1,2)] assms(3)] by blast
  moreover have "ack_honest e w" using assms(3) by (cases e) (auto simp: web_safe_def ack_honest_def)
  ultimately show ?thesis using assms(2) by (blast intro: web_step.step web_reach.next_state)
qed

lemma web_no_fault_witness:
  "\<exists>w1. web_do plain_env (Poll 7) one_client = Inr ((), w1) \<and> web_reach plain_env w1"
  by (rule web_no_fault [OF plain_env_keeps one_client_reach]) (simp add: web_safe_def)

text \<open>Sending to a handle that is not in the table reads through a null pointer: the check for it
  comes after \<open>clptr->pcb()\<close>, so the documented result false never comes.  The same happens when
  lwIP reports a connection that is already entered.\<close>

theorem unknown_client_faults:
  "(find_handle h w = None \<longrightarrow> web_do env (Data h d a) w = Inl Null_Pointer \<and>
      web_do env (Message h s) w = Inl Null_Pointer) \<and>
   (map_of (web_pcbs w) p \<noteq> None \<longrightarrow> web_do env (Accept (Some p) True) w = Inl Null_Pointer)"
  by (auto simp: send_data_def send_message_def bind_op_def tcp_server_accept_def add_client_cases fail_op)

lemma unknown_client_faults_witness:
  "web_do plain_env (Data 5 ''x'' STAT) one_client = Inl Null_Pointer \<and>
   web_do plain_env (Accept (Some 7) True) one_client = Inl Null_Pointer"
proof -
  have "find_handle 5 one_client = None" "map_of (web_pcbs one_client) 7 \<noteq> None"
    by (simp_all add: find_handle_def one_client_maps)
  with unknown_client_faults [of 5 one_client plain_env "''x''" STAT "[]" 7] show ?thesis by simp
qed

text \<open>C13: Messages and broadcasts reach the streams they are for and no other.  Sending a message to
  a client adds its frame to the stream of that client (what was written to its connection and
  what is still queued), and a broadcast adds it once to the stream of every websocket client;
  every other stream, and the connections and flags of all clients, stay as they are.  The
  variants for \<open>TXT\<close> put the same bytes there.  Frames longer than 65535 bytes are cut to
  their length modulo 65536, because the length is passed on as \<open>u16_t\<close>.\<close>

theorem messages_on_streams:
  assumes "web_ok w" and "map_of (web_handles w) h = Some c" and "txt_ok t" and "NUL \<notin> set (txt_text t)"
  defines "frame \<equiv> ws_build WS_TEXT (txt_text t) False []"
  defines "d \<equiv> map byte_of (take (length frame mod 65536) frame)"
  shows "(\<exists>w1. send_message env h (txt_text t) w = Inr (True, w1) \<and> grows (\<lambda>k. if k = h then d else []) w w1) \<and>
    (\<exists>t1 w1. send_message_txt env mem h t w = Inr ((True, t1), w1) \<and> grows (\<lambda>k. if k = h then d else []) w w1) \<and>
    (\<exists>w1. broadcast_websocket env (txt_text t) w = Inr ((), w1) \<and>
       grows (\<lambda>k. if is_websocket w k then d else []) w w1) \<and>
    (\<exists>t1 w1. broadcast_txt env mem t w = Inr (t1, w1) \<and> grows (\<lambda>k. if is_websocket w k then d else []) w w1)"
proof -
  have d: "d = text_bytes (txt_text t)" by (simp add: d_def frame_def text_bytes_def Let_def)
  have f: "find_handle h w = Some h" using assms(2) by (simp add: find_handle_def)
  have "to_websockets w (fst ` set (web_handles w)) b = (\<lambda>k. if is_websocket w k then b else [])" for b
  proof -
    have "k \<in> fst ` set (web_handles w)" if "is_websocket w k" for k
      using that map_of_eq_None_iff [of "web_handles w" k] by (auto simp: is_websocket_def split: option.splits)
    then show ?thesis by (auto simp: to_websockets_def fun_eq_iff)
  qed
  moreover have "\<exists>w1. send_message env h (txt_text t) w = Inr (True, w1) \<and> grows (\<lambda>k. if k = h then d else []) w w1"
  proof (cases "cl_pcb c")
    case None
    have "grows (\<lambda>k. if k = h then d else []) w w"
      by (rule grows_cong [OF grows_refl [OF assms(1)]]) (use assms(2) None in auto)
    with None f assms(2) show ?thesis by (simp add: send_message_def op_simps find_pcb_def)
  next
    case (Some p)
    with message_grows(1) [OF assms(1,2), of env "txt_text t"] f open_client(1) [OF assms(1,2) Some] assms(2)
    show ?thesis unfolding d
      by (auto simp: send_message_def op_simps then_op_Inr)
  qed
  ultimately show ?thesis
    using message_grows(2) [OF assms(1-3), of env mem] broadcast_total [OF assms(1), of env "txt_text t"]
      broadcast_txt_total [OF assms(1,3,4), of env mem] unfolding d by simp
qed

lemma messages_on_streams_witness:
  "\<exists>w1. send_message plain_env 1000 ''hi'' one_client = Inr (True, w1) \<and>
     grows (\<lambda>k. if k = 1000 then [129, 2, 104, 105] else []) one_client w1"
proof -
  let ?t = "txt_of (\<lambda>_. NUL) ''hi'' 2 0"
  have t: "txt_ok ?t" "txt_text ?t = ''hi''" "length (ws_build WS_TEXT ''hi'' False []) = 4"
    "map byte_of (ws_build WS_TEXT ''hi'' False []) = [129, 2, 104, 105]"
    by code_simp+
  have c: "map_of (web_handles one_client) 1000 = Some (client_new plain_env 0 7 1000)"
    by (simp add: one_client_maps)
  have n: "NUL \<notin> set (txt_text ?t)" by code_simp
  have ok: "web_ok one_client" by (rule web_reach_ok [OF plain_env_keeps one_client_reach])
  let ?fr = "ws_build WS_TEXT ''hi'' False []"
  have "map byte_of (take (length ?fr mod 65536) ?fr) = [129, 2, 104, 105]" unfolding t(3) using t(3,4) by simp
  from messages_on_streams [OF ok c t(1) n, of plain_env, THEN conjunct1, unfolded t(2) this]
  show ?thesis by blast
qed

end
