(* ===== verification/Web_Messages.thy ===== *)
theory Web_Messages
  imports Web_Server
begin

text \<open>
  Websocket messages from end to end: what arrives on the connection of a websocket client, in
  whatever segments, reaches the application message by message.
\<close>

section \<open>Definitions\<close>

text \<open>A text frame as a browser sends it: key and payload.\<close>

definition text_frame :: "u8 list \<times> string \<Rightarrow> string" where
  "text_frame m = ws_build WS_TEXT (snd m) True (fst m)"

text \<open>A string that may wait in the receive buffer when these frames are to come: no complete one.\<close>

definition proper_part :: "string \<Rightarrow> (u8 list \<times> string) list \<Rightarrow> bool" where
  "proper_part s ms \<longleftrightarrow> (case ms of [] \<Rightarrow> s = [] | m # _ \<Rightarrow> length s < length (text_frame m))"

text \<open>The messages reported to the application for a client.\<close>

definition message_of :: "handle \<Rightarrow> web_call \<Rightarrow> string list" where
  "message_of h x = (case x of Ws_message k s \<Rightarrow> if k = h then [s] else [] | _ \<Rightarrow> [])"

definition messages :: "handle \<Rightarrow> web_call list \<Rightarrow> string list" where
  "messages h cs = concat (map (message_of h) cs)"

lemma messages_simps [simp]:
  "messages h [] = []" "messages h (a @ b) = messages h a @ messages h b"
  "messages h (Ws_message h s # cs) = s # messages h cs" "messages h (Tcp_recved p n # cs) = messages h cs"
  by (simp_all add: messages_def message_of_def)

fun recv_all :: "web_env \<Rightarrow> pcb \<Rightarrow> string list \<Rightarrow> unit web_op" where
  "recv_all env p [] = ret ()"
| "recv_all env p (d # ds) = then_op (tcp_server_recv env p (Some d)) (recv_all env p ds)"

lemma length_text_frame:
  assumes "length (fst m) = 4"
  shows "length (text_frame m) \<le> length (snd m) + 14" "length (snd m) + 2 \<le> length (text_frame m)"
  using ws_build_form [OF assms, of WS_TEXT "snd m" True] assms by (simp_all add: text_frame_def ws_extended_def)

lemma ws_success_size:
  assumes "ws_parse h s = Ws_Success hdr packet"
  shows "length packet = length s"
proof -
  have "length packet = length s" if "ws_payload h s i = Ws_Success hdr packet" for h i
    using that by (auto simp: ws_payload_def Let_def split: if_splits)
  with assms show ?thesis by (auto simp: ws_parse_def Let_def split: if_splits)
qed

lemma cl_activity_fields [simp]:
  "cl_websocket (cl_activity t c) = cl_websocket c" "cl_rqst (cl_activity t c) = cl_rqst c"
  "cl_wshdr (cl_activity t c) = cl_wshdr c" "cl_http (cl_activity t c) = cl_http c"
  "cl_pcb (cl_activity t c) = cl_pcb c" "cl_queue (cl_activity t c) = cl_queue c"
  "cl_closed (cl_activity t c) = cl_closed c" "cl_handle (cl_activity t c) = cl_handle c"
  by (simp_all add: cl_activity_def)

section \<open>The loop\<close>

lemma recv_loop_unfold:
  "recv_loop env h w = (case recv_step env h w of
     Inl e \<Rightarrow> Inl e | Inr (b, w1) \<Rightarrow> if b then recv_loop env h w1 else Inr ((), w1))"
proof -
  let ?b = "\<lambda>r :: web_fault + bool \<times> web. case r of Inr (True, w) \<Rightarrow> True | _ \<Rightarrow> False"
  let ?c = "\<lambda>r :: web_fault + bool \<times> web. case r of Inr (b, w) \<Rightarrow> recv_step env h w | Inl e \<Rightarrow> Inl e"
  have step: "while_option ?b ?c (Inr (True, w)) = while_option ?b ?c (recv_step env h w)" for w
    by (subst while_option_unfold) simp
  have stop: "while_option ?b ?c r = Some r" if "\<not> ?b r" for r
    using that by (subst while_option_unfold) simp
  show ?thesis
  proof (cases "recv_step env h w")
    case (Inl e)
    with step [of w] stop [of "Inl e"] show ?thesis by (simp add: recv_loop_def)
  next
    case (Inr r)
    obtain b w1 where r: "r = (b, w1)" by (cases r)
    show ?thesis
    proof (cases b)
      case True
      with Inr r step [of w] show ?thesis by (simp add: recv_loop_def)
    next
      case False
      with Inr r step [of w] stop [of "Inr (False, w1)"] show ?thesis by (simp add: recv_loop_def)
    qed
  qed
qed

lemma recv_loop_more: "recv_step env h w = Inr (True, w1) \<Longrightarrow> recv_loop env h w = recv_loop env h w1"
  by (simp add: recv_loop_unfold [of env h w])

lemma recv_loop_stop: "recv_step env h w = Inr (False, w1) \<Longrightarrow> recv_loop env h w = Inr ((), w1)"
  by (simp add: recv_loop_unfold [of env h w])

section \<open>The application\<close>

text \<open>
  What the server relies on: the callback for messages returns, keeps the tables in order and
  leaves the client it is called for, its receive string and its place in the tables alone.
\<close>

locale message_app =
  fixes cb :: "handle \<Rightarrow> string \<Rightarrow> unit web_op"
  assumes quiet: "web_ok w \<Longrightarrow> map_of (web_handles w) h = Some c \<Longrightarrow>
    \<exists>w1 c1 cs. cb h s w = Inr ((), w1) \<and> web_ok w1 \<and> map_of (web_handles w1) h = Some c1 \<and>
      cl_websocket c1 = cl_websocket c \<and> cl_rqst c1 = cl_rqst c \<and> cl_wshdr c1 = cl_wshdr c \<and>
      (\<forall>p. map_of (web_pcbs w) p = Some h \<longrightarrow> map_of (web_pcbs w1) p = Some h) \<and>
      web_calls w1 = web_calls w @ cs \<and> messages h cs = []"
begin

lemma text_step:
  assumes "env_message env = Some cb" "web_ok w" "map_of (web_handles w) h = Some c" "cl_websocket c"
    and "cl_rqst c = text_frame m @ rest" "length (fst m) = 4" "length (snd m) + 14 + length rest < 2 ^ 32"
  shows "\<exists>w1 c1 cs. recv_step env h w = Inr (True, w1) \<and> web_ok w1 \<and> map_of (web_handles w1) h = Some c1 \<and>
    cl_websocket c1 \<and> cl_rqst c1 = rest \<and>
    (\<forall>p. map_of (web_pcbs w) p = Some h \<longrightarrow> map_of (web_pcbs w1) p = Some h) \<and>
    web_calls w1 = web_calls w @ cs \<and> messages h cs = [snd m]"
proof -
  have op16: "WS_TEXT < 16" by code_simp
  obtain hd packet where pk: "ws_parse (cl_wshdr c) (cl_rqst c) = Ws_Success hd packet" "ws_opcode hd = WS_TEXT"
    "substr packet (unat (ws_start hd)) (unat (ws_length hd)) = snd m"
    "drop (unat (ws_start hd) + unat (ws_length hd)) packet = rest"
    "unat (ws_start hd) + unat (ws_length hd) = length (text_frame m)" "unat (ws_length hd) = length (snd m)"
    using ws_roundtrip [OF assms(6) op16 assms(7), of "cl_wshdr c" True] unfolding assms(5) text_frame_def by blast
  let ?f = "\<lambda>c. cl_activity (web_time w) (c\<lparr>cl_wshdr := hd, cl_rqst := packet\<rparr>)"
  define w1 where "w1 = web_log [Ws_message h (snd m)] (web_upd h ?f w)"
  have "keeps_client ?f" by (rule keeps_client_comp [OF keeps_client_intros(2,7)])
  then have ok1: "web_ok w1" unfolding w1_def web_log_ok by (rule keeps_client_upd [OF _ assms(2)])
  have c1: "map_of (web_handles w1) h = Some (?f c)" by (simp add: w1_def assms(3))
  obtain w2 c2 cs where w2: "cb h (snd m) w1 = Inr ((), w2)" "web_ok w2" "map_of (web_handles w2) h = Some c2"
    "cl_websocket c2" "cl_rqst c2 = packet" "cl_wshdr c2 = hd"
    "\<forall>p. map_of (web_pcbs w1) p = Some h \<longrightarrow> map_of (web_pcbs w2) p = Some h"
    "web_calls w2 = web_calls w1 @ cs" "messages h cs = []"
    using quiet [OF ok1 c1, of "snd m"] assms(4) by auto
  have start: "\<not> unat (ws_start hd) > length packet"
    using ws_success_size [OF pk(1)] assms(5) pk(5) by simp
  have "length (text_frame m) < 2 ^ 32"
  proof -
    have "length (text_frame m) \<le> length (snd m) + 14" by (rule length_text_frame [OF assms(6)])
    with assms(7) show ?thesis by simp
  qed
  then have sum: "unat (ucast (ws_start hd) + ws_length hd :: u32) = length (text_frame m)"
    using pk(5) by (simp add: unat_word_ariths unsigned_ucast_eq take_bit_nat_eq_self)
  have reset: "cl_rqst (cl_reset_rqst c2) = rest" "cl_websocket (cl_reset_rqst c2)"
    using w2(4-6) pk(4,5) sum by (auto simp: cl_reset_rqst_def Let_def)
  have ready: "rqst_is_ready env h w = Inr (True, web_upd h (\<lambda>c. c\<lparr>cl_wshdr := hd, cl_rqst := packet\<rparr>) w)"
    using assms(3,4) pk(1) by (simp add: rqst_is_ready_def op_simps ret_op)
  let ?w = "web_upd h (\<lambda>c. c\<lparr>cl_wshdr := hd, cl_rqst := packet\<rparr>) w"
  have "process_websocket env h ?w = Inr ((), w2)"
    unfolding w2(1) [symmetric] w1_def using assms(1,3,4) pk(2,3) start
    by (simp add: process_websocket_def op_simps web_upd_upd Let_def)
  then have "then_op (process_websocket env h) n ?w = n w2" for n :: "bool web_op"
    by (simp add: then_op_Inr)
  then have "recv_step env h w = Inr (True, web_upd h cl_reset_rqst w2)"
    using w2(3) assms(3,4)
    by (simp add: recv_step_def bind_op_Inr [where m = "rqst_is_ready env h" and w = w, OF ready] op_simps)
  then show ?thesis
    using w2 reset
    by (intro exI [of _ "web_upd h cl_reset_rqst w2"] exI [of _ "cl_reset_rqst c2"]
        exI [of _ "Ws_message h (snd m) # cs"]) (auto simp: keeps_client_upd keeps_client_intros w1_def)
qed

text \<open>
  The loop on a prefix of a stream of frames takes the complete ones and keeps the rest.
\<close>

lemma frames_loop:
  assumes "env_message env = Some cb"
  shows "web_ok w \<Longrightarrow> map_of (web_handles w) h = Some c \<Longrightarrow> cl_websocket c \<Longrightarrow>
    cl_rqst c @ rest = concat (map text_frame ms) \<Longrightarrow> (\<forall>m \<in> set ms. length (fst m) = 4) \<Longrightarrow>
    length (concat (map text_frame ms)) + 14 < 2 ^ 32 \<Longrightarrow>
    \<exists>w1 c1 cs ms1 ms2. recv_loop env h w = Inr ((), w1) \<and> web_ok w1 \<and> map_of (web_handles w1) h = Some c1 \<and>
      cl_websocket c1 \<and> ms = ms1 @ ms2 \<and> cl_rqst c1 @ rest = concat (map text_frame ms2) \<and> proper_part (cl_rqst c1) ms2 \<and>
      (\<forall>p. map_of (web_pcbs w) p = Some h \<longrightarrow> map_of (web_pcbs w1) p = Some h) \<and>
      web_calls w1 = web_calls w @ cs \<and> messages h cs = map snd ms1"
proof (induction ms arbitrary: w c)
  case Nil
  then have e: "cl_rqst c = []" by simp
  then obtain w1 where "recv_step env h w = Inr (False, w1)" "w1 = web_upd h (\<lambda>c'. c'\<lparr>cl_wshdr := cl_wshdr c, cl_rqst := []\<rparr>) w"
    using Nil by (simp add: recv_step_def rqst_is_ready_def op_simps ret_op ws_parse_def bind_op_def client_get_def then_op_def client_do_eq)
  with Nil e show ?case
    by (intro exI [of _ w1] exI [of _ "c\<lparr>cl_wshdr := cl_wshdr c, cl_rqst := []\<rparr>"] exI [of _ "[]"] exI [of _ "[]"] exI [of _ "[]"])
      (auto simp: recv_loop_stop proper_part_def keeps_client_upd keeps_client_intros)
next
  case (Cons m ms)
  have key: "length (fst m) = 4" using Cons.prems(5) by simp
  show ?case
  proof (cases "length (cl_rqst c) < length (text_frame m)")
    case True
    have all: "cl_rqst c @ rest = text_frame m @ concat (map text_frame ms)" using Cons.prems(4) by simp
    have part: "cl_rqst c = take (length (cl_rqst c)) (text_frame m)"
      using arg_cong [OF all, of "take (length (cl_rqst c))"] True by simp
    have small: "length (snd m) + 14 < 2 ^ 32" using length_text_frame(2) [OF key] Cons.prems(6) by simp
    obtain hd where hd: "ws_parse (cl_wshdr c) (cl_rqst c) = Ws_Fail hd (cl_rqst c)"
      using ws_incomplete [OF key small, of "length (cl_rqst c)" WS_TEXT True "cl_wshdr c"] True part
      unfolding text_frame_def by metis
    define w1 where "w1 = web_upd h (\<lambda>c'. c'\<lparr>cl_wshdr := hd, cl_rqst := cl_rqst c\<rparr>) w"
    have "recv_step env h w = Inr (False, w1)"
      using Cons.prems(2,3) hd
      by (simp add: recv_step_def rqst_is_ready_def ret_op bind_op_def client_get_def then_op_def client_do_eq w1_def)
    with Cons.prems True show ?thesis
      by (intro exI [of _ w1] exI [of _ "c\<lparr>cl_wshdr := hd, cl_rqst := cl_rqst c\<rparr>"] exI [of _ "[]"] exI [of _ "[]"]
          exI [of _ "m # ms"])
        (auto simp: recv_loop_stop proper_part_def w1_def keeps_client_upd keeps_client_intros)
  next
    case False
    define r where "r = drop (length (text_frame m)) (cl_rqst c)"
    have all: "cl_rqst c @ rest = text_frame m @ concat (map text_frame ms)" using Cons.prems(4) by simp
    have "take (length (text_frame m)) (cl_rqst c) = text_frame m"
      using arg_cong [OF all, of "take (length (text_frame m))"] False by simp
    then have c: "cl_rqst c = text_frame m @ r" by (metis append_take_drop_id r_def)
    with all have rest: "r @ rest = concat (map text_frame ms)" by simp
    have "length r \<le> length (concat (map text_frame ms))" unfolding rest [symmetric] by simp
    then have "length (snd m) + 14 + length r < 2 ^ 32" using length_text_frame(2) [OF key] Cons.prems(6) by simp
    from text_step [OF assms Cons.prems(1-3) c key this]
    obtain w1 c1 cs where s: "recv_step env h w = Inr (True, w1)" "web_ok w1" "map_of (web_handles w1) h = Some c1"
      "cl_websocket c1" "cl_rqst c1 = r" "\<forall>p. map_of (web_pcbs w) p = Some h \<longrightarrow> map_of (web_pcbs w1) p = Some h"
      "web_calls w1 = web_calls w @ cs" "messages h cs = [snd m]" by blast
    have "cl_rqst c1 @ rest = concat (map text_frame ms)" "\<forall>m \<in> set ms. length (fst m) = 4"
      "length (concat (map text_frame ms)) + 14 < 2 ^ 32"
      using s(5) rest Cons.prems(5,6) by simp_all
    from Cons.IH [OF s(2-4) this] obtain w2 c2 cs2 ms1 ms2 where
      "recv_loop env h w1 = Inr ((), w2)" "web_ok w2" "map_of (web_handles w2) h = Some c2" "cl_websocket c2"
      "ms = ms1 @ ms2" "cl_rqst c2 @ rest = concat (map text_frame ms2)" "proper_part (cl_rqst c2) ms2"
      "\<forall>p. map_of (web_pcbs w1) p = Some h \<longrightarrow> map_of (web_pcbs w2) p = Some h"
      "web_calls w2 = web_calls w1 @ cs2" "messages h cs2 = map snd ms1" by blast
    with s(6-8) recv_loop_more [OF s(1)] show ?thesis
      by (intro exI [of _ w2] exI [of _ c2] exI [of _ "cs @ cs2"] exI [of _ "m # ms1"] exI [of _ ms2]) auto
  qed
qed

lemma one_recv:
  assumes "env_message env = Some cb" "web_ok w" "map_of (web_handles w) h = Some c" "map_of (web_pcbs w) p = Some h"
    "cl_websocket c" "proper_part (cl_rqst c) ms"
    and "cl_rqst c @ d @ rest = concat (map text_frame ms)" "\<forall>m \<in> set ms. length (fst m) = 4"
    and "length (concat (map text_frame ms)) + 14 < 2 ^ 32"
  shows "\<exists>w1 c1 cs ms1 ms2. tcp_server_recv env p (Some d) w = Inr ((), w1) \<and> web_ok w1 \<and>
      map_of (web_handles w1) h = Some c1 \<and> map_of (web_pcbs w1) p = Some h \<and> cl_websocket c1 \<and> ms = ms1 @ ms2 \<and>
      cl_rqst c1 @ rest = concat (map text_frame ms2) \<and> proper_part (cl_rqst c1) ms2 \<and>
      web_calls w1 = web_calls w @ cs \<and> messages h cs = map snd ms1"
proof (cases "d = []")
  case True
  with assms show ?thesis
    by (intro exI [of _ w] exI [of _ c] exI [of _ "[]"] exI [of _ "[]"] exI [of _ ms]) (auto simp: tcp_server_recv_def)
next
  case False
  have f: "find_pcb (Some p) w = Some h" using assms(3,4) by (simp add: find_pcb_def find_handle_def)
  let ?f = "\<lambda>c. c\<lparr>cl_rqst := cl_rqst c @ d\<rparr>"
  define w0 where "w0 = web_log [Tcp_recved p (length d)] (web_upd h ?f w)"
  have w0: "web_ok w0" "map_of (web_handles w0) h = Some (?f c)" "cl_websocket (?f c)"
    "cl_rqst (?f c) @ rest = concat (map text_frame ms)" "map_of (web_pcbs w0) p = Some h"
    using assms by (simp_all add: w0_def keeps_client_upd keeps_client_intros)
  obtain w1 c1 cs ms1 ms2 where l: "recv_loop env h w0 = Inr ((), w1)" "web_ok w1" "map_of (web_handles w1) h = Some c1"
    "cl_websocket c1" "ms = ms1 @ ms2" "cl_rqst c1 @ rest = concat (map text_frame ms2)" "proper_part (cl_rqst c1) ms2"
    "\<forall>p. map_of (web_pcbs w0) p = Some h \<longrightarrow> map_of (web_pcbs w1) p = Some h"
    "web_calls w1 = web_calls w0 @ cs" "messages h cs = map snd ms1"
    using frames_loop [OF assms(1) w0(1-4) assms(8,9)] by blast
  have "tcp_server_recv env p (Some d) w = Inr ((), w1)"
    using False f assms(3) l(1) by (simp add: tcp_server_recv_def op_simps flip: w0_def)
  with l w0(5) show ?thesis
    by (intro exI [of _ w1] exI [of _ c1] exI [of _ "Tcp_recved p (length d) # cs"] exI [of _ ms1] exI [of _ ms2])
      (auto simp: w0_def)
qed

lemma all_recv:
  assumes "env_message env = Some cb"
  shows "web_ok w \<Longrightarrow> map_of (web_handles w) h = Some c \<Longrightarrow> map_of (web_pcbs w) p = Some h \<Longrightarrow> cl_websocket c \<Longrightarrow>
    proper_part (cl_rqst c) ms \<Longrightarrow> cl_rqst c @ concat ds = concat (map text_frame ms) \<Longrightarrow>
    (\<forall>m \<in> set ms. length (fst m) = 4) \<Longrightarrow> length (concat (map text_frame ms)) + 14 < 2 ^ 32 \<Longrightarrow>
    \<exists>w1 c1 cs. recv_all env p ds w = Inr ((), w1) \<and> web_ok w1 \<and> map_of (web_handles w1) h = Some c1 \<and>
      cl_rqst c1 = [] \<and> web_calls w1 = web_calls w @ cs \<and> messages h cs = map snd ms"
proof (induction ds arbitrary: w c ms)
  case Nil
  have "ms = []"
  proof (cases ms)
    case (Cons m ms1)
    with Nil.prems(5,6) show ?thesis by (simp add: proper_part_def)
  qed
  with Nil show ?case by (auto simp: ret_op)
next
  case (Cons d ds)
  have "cl_rqst c @ d @ concat ds = concat (map text_frame ms)" using Cons.prems(6) by simp
  from one_recv [OF assms Cons.prems(1-5) this Cons.prems(7,8)] obtain w1 c1 cs ms1 ms2 where
    r: "tcp_server_recv env p (Some d) w = Inr ((), w1)" "web_ok w1" "map_of (web_handles w1) h = Some c1"
      "map_of (web_pcbs w1) p = Some h" "cl_websocket c1" "ms = ms1 @ ms2"
      "cl_rqst c1 @ concat ds = concat (map text_frame ms2)" "proper_part (cl_rqst c1) ms2"
      "web_calls w1 = web_calls w @ cs" "messages h cs = map snd ms1" by blast
  have "\<forall>m \<in> set ms2. length (fst m) = 4" "length (concat (map text_frame ms2)) + 14 < 2 ^ 32"
    using Cons.prems(7,8) r(6) by simp_all
  from Cons.IH [OF r(2-5,8,7) this] obtain w2 c2 cs2 where "recv_all env p ds w1 = Inr ((), w2)" "web_ok w2"
    "map_of (web_handles w2) h = Some c2" "cl_rqst c2 = []" "web_calls w2 = web_calls w1 @ cs2"
    "messages h cs2 = map snd ms2" by blast
  with r(6,9,10) show ?case
    by (intro exI [of _ w2] exI [of _ c2] exI [of _ "cs @ cs2"])
      (auto simp: then_op_Inr [where m = "tcp_server_recv env p (Some d)" and w = w, OF r(1)])
qed

end

text \<open>An application that answers every message with the same text.\<close>

definition echo :: "web_env \<Rightarrow> handle \<Rightarrow> string \<Rightarrow> unit web_op" where
  "echo env h s = bind_op (send_message env h s) (\<lambda>_. ret ())"

lemma messages_writes:
  "\<forall>x \<in> set cs. \<exists>bs ok. x = Tcp_write p bs ok \<Longrightarrow> messages h cs = []"
  by (auto simp: messages_def message_of_def)

lemma echo_quiet:
  assumes "web_ok w" "map_of (web_handles w) h = Some c"
  shows "\<exists>w1 c1 cs. echo env h s w = Inr ((), w1) \<and> web_ok w1 \<and> map_of (web_handles w1) h = Some c1 \<and>
      cl_websocket c1 = cl_websocket c \<and> cl_rqst c1 = cl_rqst c \<and> cl_wshdr c1 = cl_wshdr c \<and>
      (\<forall>p. map_of (web_pcbs w) p = Some h \<longrightarrow> map_of (web_pcbs w1) p = Some h) \<and>
      web_calls w1 = web_calls w @ cs \<and> messages h cs = []"
proof -
  have f: "find_handle h w = Some h" using assms(2) by (simp add: find_handle_def)
  show ?thesis
  proof (cases "cl_pcb c")
    case None
    then have "send_message env h s w = Inr (True, w)"
      using assms(2) f by (simp add: send_message_def op_simps find_pcb_def)
    with assms show ?thesis by (simp add: echo_def bind_op_Inr ret_op)
  next
    case (Some p)
    let ?frame = "ws_build WS_TEXT s False []"
    obtain w1 where w1: "send_buffer env (Some p) ?frame ALLOC w = Inr ((), w1)"
      "sent_to p h c (map byte_of (take (length ?frame mod 65536) ?frame)) w w1"
      using send_buffer_sent [OF assms Some] by blast
    have "find_pcb (cl_pcb c) w = Some h" using open_client(1) [OF assms Some] Some by simp
    then have "send_message env h s w = Inr (True, w1)"
      using w1(1) f assms(2) Some by (simp add: send_message_def op_simps send_websocket_def then_op_Inr)
    then have "echo env h s w = Inr ((), w1)" by (simp add: echo_def bind_op_Inr ret_op)
    moreover obtain cs c1 where "web_calls w1 = web_calls w @ cs" "\<forall>x \<in> set cs. \<exists>bs ok. x = Tcp_write p bs ok"
      "map_of (web_handles w1) = (map_of (web_handles w))(h \<mapsto> c1)" "cl_websocket c1 = cl_websocket c"
      "cl_rqst c1 = cl_rqst c" "cl_wshdr c1 = cl_wshdr c" "web_ok w1" "web_pcbs w1 = web_pcbs w"
      using w1(2) unfolding sent_to_def by blast
    ultimately show ?thesis
      by (intro exI [of _ w1] exI [of _ c1] exI [of _ cs]) (simp add: messages_writes)
  qed
qed

interpretation echo: message_app "echo env" for env
  by unfold_locales (rule echo_quiet)

section \<open>Properties\<close>

text \<open>C5: Every message reaches the application exactly once, in order and with its payload as sent:
  however the frames of a websocket client are cut into segments (within the header, the key or
  the payload, or several frames in one segment), the message callback is called with the
  payloads of the frames, one call for each, and nothing is left over.\<close>

theorem ws_messages:
  assumes "message_app cb" and "env_message env = Some cb"
    and "web_ok w" and "map_of (web_pcbs w) p = Some h" and "map_of (web_handles w) h = Some c"
    and "cl_websocket c" and "cl_rqst c = []"
    and "concat ds = concat (map text_frame ms)" and "\<forall>m \<in> set ms. length (fst m) = 4"
    and "length (concat ds) + 14 < 2 ^ 32"
  shows "\<exists>w1 c1 cs. recv_all env p ds w = Inr ((), w1) \<and> web_calls w1 = web_calls w @ cs \<and>
           messages h cs = map snd ms \<and> map_of (web_handles w1) h = Some c1 \<and> cl_rqst c1 = []"
proof -
  have "proper_part (cl_rqst c) ms"
  proof (cases ms)
    case (Cons m ms1)
    then have "length (snd m) + 2 \<le> length (text_frame m)" using length_text_frame(2) [of m] assms(9) by simp
    then have "0 < length (text_frame m)" by linarith
    with Cons show ?thesis by (simp add: proper_part_def assms(7))
  qed (simp add: proper_part_def assms(7))
  then show ?thesis
    using message_app.all_recv [OF assms(1,2,3,5,4,6) _ _ assms(9), of ds] assms(7,8,10) by auto
qed

lemma ws_messages_witness:
  "\<exists>w w1 cs. recv_all (plain_env\<lparr>env_message := Some (echo plain_env)\<rparr>) 7
       [take 3 (text_frame ([1, 2, 3, 4], ''hi'')), drop 3 (text_frame ([1, 2, 3, 4], ''hi''))] w = Inr ((), w1) \<and>
     web_calls w1 = web_calls w @ cs \<and> messages 1000 cs = [''hi'']"
proof -
  define w where "w = web_upd 1000 (\<lambda>c. c\<lparr>cl_websocket := True, cl_rqst := []\<rparr>) one_client"
  have "web_ok one_client" by (rule web_reach_ok [OF plain_env_keeps one_client_reach])
  then have "web_ok w" unfolding w_def by (rule keeps_client_upd [OF keeps_client_intros(8)])
  moreover have "map_of (web_pcbs w) 7 = Some 1000"
    "map_of (web_handles w) 1000 = Some ((client_new plain_env 0 7 1000)\<lparr>cl_websocket := True, cl_rqst := []\<rparr>)"
    by (simp_all add: w_def one_client_maps)
  moreover have "length (text_frame ([1, 2, 3, 4], ''hi'')) = 8" by code_simp
  ultimately show ?thesis
    using ws_messages [OF echo.message_app_axioms, of "plain_env\<lparr>env_message := Some (echo plain_env)\<rparr>" plain_env w 7 1000
        "(client_new plain_env 0 7 1000)\<lparr>cl_websocket := True, cl_rqst := []\<rparr>"
        "[take 3 (text_frame ([1, 2, 3, 4], ''hi'')), drop 3 (text_frame ([1, 2, 3, 4], ''hi''))]"
        "[([1, 2, 3, 4], ''hi'')]"] by auto
qed

end
