(* ===== verification/Web_Requests.thy ===== *)
theory Web_Requests
  imports Web_Messages
begin

text \<open>
  HTTP requests from end to end: a request that arrives on a connection is handed to the
  application, and what becomes of the connection afterwards: it is closed once the reply has
  been acknowledged; when there is no reply to wait for, the client is deleted while it is
  still in use.
\<close>

section \<open>The application\<close>






section \<open>One request\<close>

text \<open>A complete request in the receive string: what \<open>rqstIsReady\<close> and \<open>process_rqst\<close> see of it.\<close>

definition whole_request :: "web_env \<Rightarrow> client \<Rightarrow> string \<Rightarrow> http_request \<Rightarrow> bool" where
  "whole_request env c d r \<longleftrightarrow> http_parse (env_junk env) d False (cl_http c) = Some (Inr (True, d, r)) \<and>
     http_complete r \<and> hr_body_offset r + hr_body_size r = length d \<and> http_type r \<noteq> ''POST''"


lemma parse_op_ready:
  assumes "map_of (web_handles w) h = Some c" "http_parse (env_junk env) (cl_rqst c) b (cl_http c) = Some (Inr (k, s, r))"
  shows "parse_op env h b w = Inr (k, web_upd h (\<lambda>c. c\<lparr>cl_rqst := s, cl_http := r\<rparr>) w)"
  using assms by (simp add: parse_op_def op_simps ret_op)

lemma ready_http:
  assumes "map_of (web_handles w) h = Some c" "\<not> cl_websocket c"
    "http_parse (env_junk env) (cl_rqst c) False (cl_http c) = Some (Inr (k, s, r))"
  shows "rqst_is_ready env h w = Inr (k, web_upd h (\<lambda>c. c\<lparr>cl_rqst := s, cl_http := r\<rparr>) w)"
  using assms by (simp add: rqst_is_ready_def op_simps parse_op_ready)


lemma recv_step_go:
  assumes "rqst_is_ready env h w = Inr (True, w1)" "map_of (web_handles w1) h = Some c" "\<not> cl_websocket c"
  shows "recv_step env h w = then_op (process_rqst env h) (then_op (client_do h cl_reset_rqst) (ret True)) w1"
  using assms by (simp add: recv_step_def bind_op_def client_get_eq)


text \<open>The request as handed to the application, and the end of \<open>process_rqst\<close>.\<close>

definition request_in :: "handle \<Rightarrow> string \<Rightarrow> http_request \<Rightarrow> web \<Rightarrow> web" where
  "request_in h s r w = web_upd h (\<lambda>c. cl_activity (web_time w) (c\<lparr>cl_rqst := s, cl_http := r\<rparr>)) w"

definition finish_rqst :: "web_env \<Rightarrow> handle \<Rightarrow> bool \<Rightarrow> unit web_op" where
  "finish_rqst env h close = bind_op (client_get h) (\<lambda>c.
     if \<not> cl_websocket c \<and> close then close_client env (cl_pcb c) False else ret ())"

lemma request_in_ok: "web_ok w \<Longrightarrow> web_ok (request_in h s r w)"
  unfolding request_in_def
  by (rule keeps_client_upd [OF keeps_client_comp [OF keeps_client_intros(2,6)]])

lemma request_in_client:
  "map_of (web_handles w) h = Some c \<Longrightarrow>
    map_of (web_handles (request_in h s r w)) h = Some (cl_activity (web_time w) (c\<lparr>cl_rqst := s, cl_http := r\<rparr>))"
  by (simp add: request_in_def)

lemma header_op_Inr: "header_value (hr_headers r) n = Inr v \<Longrightarrow> header_op r n = ret v"
  by (simp add: header_op_def)

lemma process_start:
  assumes "map_of (web_handles w) h = Some c" "\<not> cl_websocket c" "http_type r \<noteq> ''POST''"
    "header_value (hr_headers r) ''Upgrade'' = Inr u"
  shows "process_rqst env h (web_upd h (\<lambda>c. c\<lparr>cl_rqst := s, cl_http := r\<rparr>) w) =
    bind_op (if u = ''websocket'' then then_op (open_websocket env h) (ret True) else process_http_rqst env h True)
      (finish_rqst env h) (request_in h s r w)"
  using assms
  by (simp add: process_rqst_def request_in_def op_simps web_upd_upd header_op_Inr)
    (simp add: bind_op_def then_op_def ret_def finish_rqst_def split: sum.splits)

lemma process_get:
  assumes "map_of (web_handles w) h = Some c" "\<not> cl_websocket c" "http_type r \<noteq> ''POST''"
    "header_value (hr_headers r) ''Upgrade'' = Inr u" "u \<noteq> ''websocket''" "env_http env = Some cb"
    "cb h True (web_log [Http_rqst h] (request_in h s r w)) = Inr ((True, close), w1)"
  shows "process_rqst env h (web_upd h (\<lambda>c. c\<lparr>cl_rqst := s, cl_http := r\<rparr>) w) = finish_rqst env h close w1"
  using assms(5-7)
  by (simp add: process_start [OF assms(1-4)])
    (simp add: process_http_rqst_def bind_op_def then_op_def web_call_eq ret_def)

lemma process_bad_upgrade:
  assumes "map_of (web_handles w) h = Some c" "\<not> cl_websocket c" "http_type r \<noteq> ''POST''"
    "header_value (hr_headers r) ''Upgrade'' = Inr ''websocket''"
    "header_value (hr_headers r) ''Host'' = Inr host" "header_value (hr_headers r) ''Sec-WebSocket-Key'' = Inr key"
    "header_value (hr_headers r) ''Connection'' = Inr connection"
    "header_value (hr_headers r) ''Sec-WebSocket-Version'' = Inr version"
    "\<not> upgrade_ok r host connection ''websocket'' version"
  shows "process_rqst env h (web_upd h (\<lambda>c. c\<lparr>cl_rqst := s, cl_http := r\<rparr>) w) = finish_rqst env h True (request_in h s r w)"
proof -
  have "open_websocket env h (request_in h s r w) = Inr ((), request_in h s r w)"
    using request_in_client [OF assms(1), of s r] assms(4-9)
    by (simp add: open_websocket_def op_simps header_op_Inr Let_def)
  then show ?thesis
    by (simp add: process_start [OF assms(1-4)]) (simp add: bind_op_def then_op_def ret_def)
qed


lemma finish_deletes:
  assumes "web_ok w" "map_of (web_handles w) h = Some c" "cl_pcb c = Some p" "\<not> cl_websocket c"
    "\<not> more_to_send (queue_acknowledge 0 (cl_queue c))" "env_close env (web_calls w) (Some p)"
  shows "\<exists>w1. finish_rqst env h True w = Inr ((), w1) \<and> map_of (web_handles w1) h = None"
  using assms(2-6) close_client_eq [OF assms(2) open_client(2) [OF assms(1-3)], of env]
  by (simp add: finish_rqst_def op_simps Let_def web_drop_def map_of_table_remove)

text \<open>The receive callback on a complete request, up to the loop.\<close>

lemma recv_request:
  assumes "map_of (web_handles w) h = Some c" "map_of (web_pcbs w) p = Some h" "cl_rqst c = []" "d \<noteq> []"
    "\<not> cl_websocket c" "whole_request env c d r"
  defines "w0 \<equiv> web_log [Tcp_recved p (length d)] (web_upd h (\<lambda>c. c\<lparr>cl_rqst := cl_rqst c @ d\<rparr>) w)"
  shows "tcp_server_recv env p (Some d) w = recv_loop env h w0"
    and "map_of (web_handles w0) h = Some (c\<lparr>cl_rqst := d\<rparr>)"
    and "recv_step env h w0 = then_op (process_rqst env h) (then_op (client_do h cl_reset_rqst) (ret True))
      (web_upd h (\<lambda>c. c\<lparr>cl_rqst := d, cl_http := r\<rparr>) w0)"
proof -
  have f: "find_pcb (Some p) w = Some h" using assms(1,2) by (simp add: find_pcb_def find_handle_def)
  show "tcp_server_recv env p (Some d) w = recv_loop env h w0"
    using assms(1,4) f by (simp add: tcp_server_recv_def op_simps w0_def)
  show c: "map_of (web_handles w0) h = Some (c\<lparr>cl_rqst := d\<rparr>)" using assms(1,3) by (simp add: w0_def)
  have "rqst_is_ready env h w0 = Inr (True, web_upd h (\<lambda>c. c\<lparr>cl_rqst := d, cl_http := r\<rparr>) w0)"
    by (rule ready_http [OF c]) (use assms(5,6) in \<open>simp_all add: whole_request_def\<close>)
  then show "recv_step env h w0 = then_op (process_rqst env h) (then_op (client_do h cl_reset_rqst) (ret True))
      (web_upd h (\<lambda>c. c\<lparr>cl_rqst := d, cl_http := r\<rparr>) w0)"
    by (rule recv_step_go [where c = "c\<lparr>cl_rqst := d, cl_http := r\<rparr>"]) (use c assms(5) in simp_all)
qed




section \<open>Properties\<close>



definition upgrade_headers :: "string list" where
  "upgrade_headers = [''GET /ws HTTP/1.1'', ''Host: pico'', ''Upgrade: websocket'', ''Connection: Upgrade'',
     ''Sec-WebSocket-Key: abc'', ''Sec-WebSocket-Version: 8'']"

definition parsed_request :: "string list \<Rightarrow> http_request" where
  "parsed_request ls = http_new\<lparr>hr_headers := ls, hr_body_offset := length (header_block ls @ CRLF), hr_body_size := 0,
     hr_body := Some (length (header_block ls @ CRLF))\<rparr>"

lemma whole_headers:
  assumes "ls \<noteq> []" "\<forall>l \<in> set ls. header_line l" "content_length ls = Inr 0" "http_type (parsed_request ls) \<noteq> ''POST''"
    and "cl_http c = http_new"
  shows "whole_request env c (header_block ls @ CRLF) (parsed_request ls)"
proof -
  have e: "header_block ls @ CRLF = header_block ls @ CRLF @ []" by simp
  have "http_parse (env_junk env) (header_block ls @ CRLF) False http_new =
      Some (Inr (True, header_block ls @ CRLF, parsed_request ls))"
    using parse_block [OF assms(1-3) _ e, of False http_new]
    by (simp add: parsed_request_def http_clear_def http_new_def)
  then show ?thesis
    using assms(4,5) by (simp add: whole_request_def) (simp add: parsed_request_def http_complete_def)
qed

lemma one_client_new:
  "web_ok one_client" "map_of (web_handles one_client) 1000 = Some (client_new plain_env 0 7 1000)"
  "cl_pcb (client_new plain_env 0 7 1000) = Some 7" "\<not> cl_websocket (client_new plain_env 0 7 1000)"
  "cl_rqst (client_new plain_env 0 7 1000) = []" "cl_http (client_new plain_env 0 7 1000) = http_new"
  "cl_queue (client_new plain_env 0 7 1000) = []" "cl_handle (client_new plain_env 0 7 1000) = 1000"
  using web_reach_ok [OF plain_env_keeps one_client_reach] by (simp_all add: one_client_maps client_new_def)


text \<open>C12: The client of a request that leaves nothing to send is deleted while the receive callback
  still uses it: when a complete request arrives for a client with an empty queue, the
  application serves it without a reply (or it is a websocket upgrade that is refused, which
  gets no reply), and lwIP closes the connection at once, the loop goes on with the pointer to
  the deleted client, since the result of the second lookup is not used.\<close>

theorem request_use_after_free:
  assumes "web_ok w" and "map_of (web_handles w) h = Some c" and "cl_pcb c = Some p"
    and "\<not> cl_websocket c" and "cl_rqst c = []" and "cl_queue c = []" and "d \<noteq> []" and "whole_request env c d r"
    and "\<forall>cs q. env_close env cs q" and "header_value (hr_headers r) ''Upgrade'' = Inr u"
    and "(u \<noteq> ''websocket'' \<and> env_http env = Some (\<lambda>h close. ret (True, close))) \<or>
      (u = ''websocket'' \<and> (\<exists>host key connection version.
         header_value (hr_headers r) ''Host'' = Inr host \<and> header_value (hr_headers r) ''Sec-WebSocket-Key'' = Inr key \<and>
         header_value (hr_headers r) ''Connection'' = Inr connection \<and>
         header_value (hr_headers r) ''Sec-WebSocket-Version'' = Inr version \<and>
         \<not> upgrade_ok r host connection u version))"
  shows "tcp_server_recv env p (Some d) w = Inl Use_After_Free"
proof -
  define w0 where "w0 = web_log [Tcp_recved p (length d)] (web_upd h (\<lambda>c. c\<lparr>cl_rqst := cl_rqst c @ d\<rparr>) w)"
  note o = open_client [OF assms(1-3)]
  note rr = recv_request [OF assms(2) o(2) assms(5,7,4,8), folded w0_def]
  have "web_ok w0" unfolding w0_def web_log_ok by (rule keeps_client_upd [OF keeps_client_intros(5) assms(1)])
  then have ok: "web_ok (request_in h d r w0)" by (rule request_in_ok)
  let ?c = "cl_activity (web_time w0) (c\<lparr>cl_rqst := d, cl_http := r\<rparr>)"
  have c: "map_of (web_handles (request_in h d r w0)) h = Some ?c" "cl_pcb ?c = Some p" "\<not> cl_websocket ?c"
    "cl_queue ?c = []"
    using request_in_client [OF rr(2), of d r] assms(3,4,6) by simp_all
  have type: "http_type r \<noteq> ''POST''" using assms(8) by (simp add: whole_request_def)
  obtain w1 where w1: "web_ok w1" "map_of (web_handles w1) h = Some ?c"
    "process_rqst env h (web_upd h (\<lambda>c. c\<lparr>cl_rqst := d, cl_http := r\<rparr>) w0) = finish_rqst env h True w1"
  proof (cases "u = ''websocket''")
    case True
    with assms(10,11) obtain host key connection version where
      "header_value (hr_headers r) ''Host'' = Inr host" "header_value (hr_headers r) ''Sec-WebSocket-Key'' = Inr key"
      "header_value (hr_headers r) ''Connection'' = Inr connection"
      "header_value (hr_headers r) ''Sec-WebSocket-Version'' = Inr version"
      "\<not> upgrade_ok r host connection ''websocket'' version" by auto
    from process_bad_upgrade [OF rr(2) _ type _ this] True assms(4,10) have
      "process_rqst env h (web_upd h (\<lambda>c. c\<lparr>cl_rqst := d, cl_http := r\<rparr>) w0) = finish_rqst env h True (request_in h d r w0)"
      by simp
    with ok c(1) show ?thesis by (rule that)
  next
    case False
    with assms(11) have "env_http env = Some (\<lambda>h close. ret (True, close))" by blast
    from process_get [OF rr(2) _ type assms(10) False this, of d True "web_log [Http_rqst h] (request_in h d r w0)"] assms(4)
    have "process_rqst env h (web_upd h (\<lambda>c. c\<lparr>cl_rqst := d, cl_http := r\<rparr>) w0) =
        finish_rqst env h True (web_log [Http_rqst h] (request_in h d r w0))" by (simp add: ret_op)
    with ok c(1) show ?thesis by (intro that) simp_all
  qed
  obtain w2 where "finish_rqst env h True w1 = Inr ((), w2)" "map_of (web_handles w2) h = None"
    using finish_deletes [OF w1(1,2) c(2,3), of env] c(4) assms(9) by (auto simp: more_to_send_def)
  with w1(3) have "recv_step env h w0 = Inl Use_After_Free"
    by (simp add: rr(3) then_op_def bind_op_def client_do_dead)
  then show ?thesis by (simp add: rr(1) recv_loop_unfold)
qed

lemma request_use_after_free_witness:
  "tcp_server_recv plain_env 7 (Some (header_block upgrade_headers @ CRLF)) one_client = Inl Use_After_Free"
proof -
  have h: "upgrade_headers \<noteq> []" "\<forall>l \<in> set upgrade_headers. header_line l" "content_length upgrade_headers = Inr 0"
    "http_type (parsed_request upgrade_headers) \<noteq> ''POST''"
    "header_value (hr_headers (parsed_request upgrade_headers)) ''Upgrade'' = Inr ''websocket''"
    "header_block upgrade_headers @ CRLF \<noteq> []"
    "header_value (hr_headers (parsed_request upgrade_headers)) ''Host'' = Inr ''pico''"
    "header_value (hr_headers (parsed_request upgrade_headers)) ''Sec-WebSocket-Key'' = Inr ''abc''"
    "header_value (hr_headers (parsed_request upgrade_headers)) ''Connection'' = Inr ''Upgrade''"
    "header_value (hr_headers (parsed_request upgrade_headers)) ''Sec-WebSocket-Version'' = Inr ''8''"
    "\<not> upgrade_ok (parsed_request upgrade_headers) ''pico'' ''Upgrade'' ''websocket'' ''8''"
    by code_simp+
  have "whole_request plain_env (client_new plain_env 0 7 1000) (header_block upgrade_headers @ CRLF) (parsed_request upgrade_headers)"
    by (rule whole_headers [OF h(1-4) one_client_new(6)])
  moreover have "\<forall>cs q. env_close plain_env cs q" by (simp add: plain_env_def)
  ultimately show ?thesis
    using request_use_after_free [OF one_client_new(1-5,7) h(6)] h(5,7-11) by blast
qed

end
