(* ===== verification/Web_Network.thy ===== *)
theory Web_Network
  imports Cpp_String "HOL-Library.List_Lexorder" "HOL-Library.Char_ord"
begin

text \<open>
  The network side of \<open>WEB\<close> (\<open>network/web.h\<close>, \<open>network/web.cpp\<close>): starting and stopping the
  listeners, joining and rejoining the WiFi network, the access point and its timer, and scans.
  It shares no state with the tables of clients.

  The driver and lwIP are parameters: the link status, address and scan state are arguments of
  the events, the results of calls are functions of the calls made before, and every call is
  recorded in order.  The application's callbacks for notices, scans and certificates do not
  call back into the object.  The minutes of an access point are small enough that
  \<open>ap_requested_ * 60 * 2\<close> does not overflow \<open>int\<close>.
\<close>

section \<open>Definitions\<close>

text \<open>The values of \<open>cyw43_tcpip_link_status\<close>.\<close>

datatype link =
    LINK_DOWN | LINK_JOIN | LINK_NOIP | LINK_UP | LINK_FAIL | LINK_NONET | LINK_BADAUTH | LINK_OTHER int

datatype net_itf = ITF_STA | ITF_AP

record scan_rqst =
  sr_client :: u32
  sr_cb :: "nat option"
  sr_data :: nat

type_synonym scan_data = "(string \<times> int) list"

datatype net_call =
    Notice int
  | Wifi_connect string string bool
  | Wifi_leave
  | Set_hostname net_itf string
  | Mdns_init
  | Mdns_add string
  | Mdns_remove
  | Mdns_announce
  | Sta_enable
  | Ap_enable string
  | Ap_disable
  | Dhcp_init
  | Dhcp_deinit
  | Scan_start
  | Scan_done nat u32 scan_data nat
  | Timer_add nat
  | Pcb_new "nat option"
  | Pcb_bind "nat option" nat bool
  | Pcb_listen "nat option" "nat option"
  | Pcb_close "nat option"
  | Tls_new "nat option"
  | Tls_free nat

record network =
  nw_http :: "nat option"
  nw_https :: "nat option"
  nw_hostname :: string
  nw_ssid :: string
  nw_pwd :: string
  nw_state :: link
  nw_addr :: nat
  nw_tls :: "nat option"
  nw_reconnect :: nat
  nw_scans :: "scan_rqst list"
  nw_ssids :: scan_data
  nw_ap_name :: string
  nw_ap_active :: int
  nw_ap_requested :: int
  nw_mdns :: bool
  nw_notify :: bool
  nw_calls :: "net_call list"

text \<open>
  \<open>ne_tls_callback\<close> is the application's certificate callback with its result; the other
  parameters are lwIP and the driver (\<open>ne_use_https\<close> is the build option).
\<close>

record net_env =
  ne_use_https :: bool
  ne_tls_callback :: "bool option"
  ne_tls_config :: "net_call list \<Rightarrow> nat option"
  ne_pcb :: "net_call list \<Rightarrow> nat option"
  ne_bind :: "net_call list \<Rightarrow> nat option \<Rightarrow> bool"
  ne_listen :: "net_call list \<Rightarrow> nat option \<Rightarrow> nat option"
  ne_connect :: "net_call list \<Rightarrow> bool"

definition net_new :: network where
  "net_new = \<lparr>nw_http = None, nw_https = None, nw_hostname = [], nw_ssid = [], nw_pwd = [], nw_state = LINK_DOWN,
     nw_addr = 0, nw_tls = None, nw_reconnect = 0, nw_scans = [], nw_ssids = [], nw_ap_name = [], nw_ap_active = 0,
     nw_ap_requested = 0, nw_mdns = False, nw_notify = False, nw_calls = []\<rparr>"

definition log_net :: "net_call list \<Rightarrow> network \<Rightarrow> network" where
  "log_net cs w = w\<lparr>nw_calls := nw_calls w @ cs\<rparr>"

definition STA_INITIALIZING :: int where "STA_INITIALIZING = 101"
definition STA_CONNECTED :: int where "STA_CONNECTED = 102"
definition STA_DISCONNECTED :: int where "STA_DISCONNECTED = 103"
definition AP_ACTIVE :: int where "AP_ACTIVE = 104"
definition AP_INACTIVE :: int where "AP_INACTIVE = 105"

definition send_notice :: "int \<Rightarrow> network \<Rightarrow> network" where
  "send_notice state w = (if nw_notify w then log_net [Notice state] w else w)"

subsection \<open>Listeners\<close>

definition HTTP_PORT :: nat where "HTTP_PORT = 80"
definition HTTPS_PORT :: nat where "HTTPS_PORT = 443"

definition start_http :: "net_env \<Rightarrow> network \<Rightarrow> bool \<times> network" where
  "start_http env w =
     (if nw_http w = None
      then (let pcb = ne_pcb env (nw_calls w);
                w1 = log_net [Pcb_new pcb] w;
                ok = ne_bind env (nw_calls w1) pcb;
                w2 = log_net [Pcb_bind pcb HTTP_PORT ok] w1
            in if \<not> ok then (False, w2)
               else (let server = ne_listen env (nw_calls w2) pcb;
                         w3 = (log_net [Pcb_listen pcb server] w2)\<lparr>nw_http := server\<rparr>
                     in if server = None
                        then (False, if pcb \<noteq> None then log_net [Pcb_close pcb] w3 else w3)
                        else (True, w3)))
      else (True, w))"

definition start_https :: "net_env \<Rightarrow> network \<Rightarrow> bool \<times> network" where
  "start_https env w =
     (if ne_use_https env \<and> nw_https w = None \<and> ne_tls_callback env = Some True
      then (let conf = ne_tls_config env (nw_calls w);
                w0 = (log_net [Tls_new conf] w)\<lparr>nw_tls := conf\<rparr>
            in case conf of
                 None \<Rightarrow> (False, w0)
               | Some cf \<Rightarrow>
                   (let pcb = ne_pcb env (nw_calls w0);
                        w1 = log_net [Pcb_new pcb] w0;
                        ok = ne_bind env (nw_calls w1) pcb;
                        w2 = log_net [Pcb_bind pcb HTTPS_PORT ok] w1
                    in if \<not> ok then (False, (log_net [Pcb_close pcb, Tls_free cf] w2)\<lparr>nw_tls := None\<rparr>)
                       else (let server = ne_listen env (nw_calls w2) pcb;
                                 w3 = (log_net [Pcb_listen pcb server] w2)\<lparr>nw_https := server\<rparr>
                             in if server = None
                                then (False, (log_net [Pcb_close pcb, Tls_free cf] w3)\<lparr>nw_tls := None\<rparr>)
                                else (True, w3))))
      else (False, w))"

definition stop_http :: "network \<Rightarrow> bool \<times> network" where
  "stop_http w =
     (if nw_http w \<noteq> None then (True, (log_net [Pcb_close (nw_http w)] w)\<lparr>nw_http := None\<rparr>) else (False, w))"

definition stop_https :: "network \<Rightarrow> bool \<times> network" where
  "stop_https w =
     (if nw_https w \<noteq> None
      then (True, (log_net [Pcb_close (nw_https w)] w)\<lparr>nw_tls := None, nw_https := None\<rparr>) else (False, w))"

definition net_init :: "net_env \<Rightarrow> network \<Rightarrow> bool \<times> network" where
  "net_init env w =
     (let w1 = log_net [Sta_enable, Mdns_init] w;
          (listening, w2) = (if ne_use_https env then start_https env w1 else (False, w1));
          w3 = (if \<not> listening then snd (start_http env w2) else w2)
      in (True, log_net [Timer_add 500] w3))"

subsection \<open>Joining a network\<close>

definition connect_to_wifi :: "net_env \<Rightarrow> string \<Rightarrow> string \<Rightarrow> string \<Rightarrow> network \<Rightarrow> bool \<times> network" where
  "connect_to_wifi env hostname ssid password w =
     (let w1 = w\<lparr>nw_hostname := hostname\<rparr>;
          w2 = (if hostname \<noteq> [] then log_net [Set_hostname ITF_STA hostname] w1 else w1);
          w3 = w2\<lparr>nw_ssid := ssid, nw_pwd := password\<rparr>
      in if ssid \<noteq> []
         then (let ok = ne_connect env (nw_calls w3) in (ok, log_net [Wifi_connect ssid password ok] w3))
         else (False, w3))"

definition update_wifi :: "net_env \<Rightarrow> string \<Rightarrow> string \<Rightarrow> string \<Rightarrow> network \<Rightarrow> bool \<times> network" where
  "update_wifi env hostname ssid password w =
     (if hostname \<noteq> nw_hostname w \<or> ssid \<noteq> nw_ssid w \<or> password \<noteq> nw_pwd w
      then connect_to_wifi env hostname ssid password (log_net [Wifi_leave] w)
      else (True,
        case nw_state w of
          LINK_JOIN \<Rightarrow> send_notice STA_INITIALIZING w
        | LINK_NOIP \<Rightarrow> send_notice STA_INITIALIZING w
        | LINK_UP \<Rightarrow> send_notice STA_CONNECTED w
        | LINK_OTHER x \<Rightarrow> w
        | _ \<Rightarrow> send_notice STA_DISCONNECTED w))"

text \<open>\<open>check_wifi\<close>: the change of the link, the retry timer and the access point timer.\<close>

definition reconnect_interval :: nat where "reconnect_interval = 300000 div 500"

definition link_change :: "link \<Rightarrow> nat \<Rightarrow> network \<Rightarrow> network" where
  "link_change sts addr w0 =
     (let w = w0\<lparr>nw_state := sts, nw_addr := addr\<rparr>
      in case sts of
           LINK_JOIN \<Rightarrow> send_notice STA_INITIALIZING w
         | LINK_NOIP \<Rightarrow> send_notice STA_INITIALIZING w
         | LINK_UP \<Rightarrow>
             (let w1 = (if nw_mdns w then log_net [Mdns_remove] w else w);
                  w2 = (log_net [Mdns_add (nw_hostname w), Mdns_announce] w1)\<lparr>nw_mdns := True\<rparr>
              in (send_notice STA_CONNECTED w2)\<lparr>nw_reconnect := 0\<rparr>)
         | LINK_BADAUTH \<Rightarrow> send_notice STA_DISCONNECTED w
         | LINK_OTHER x \<Rightarrow> w
         | _ \<Rightarrow> (send_notice STA_DISCONNECTED w)\<lparr>nw_reconnect := reconnect_interval\<rparr>)"

definition link_lost :: "link \<Rightarrow> bool" where
  "link_lost sts \<longleftrightarrow> sts = LINK_DOWN \<or> sts = LINK_FAIL \<or> sts = LINK_NONET"

definition reconnect_tick :: "net_env \<Rightarrow> network \<Rightarrow> network" where
  "reconnect_tick env w0 =
     (if nw_reconnect w0 > 0
      then (let w = w0\<lparr>nw_reconnect := nw_reconnect w0 - 1\<rparr>
            in if nw_reconnect w = 0 \<and> link_lost (nw_state w) \<and> length (nw_ssid w) > 0
               then snd (connect_to_wifi env (nw_hostname w) (nw_ssid w) (nw_pwd w) w)
               else w)
      else w0)"

subsection \<open>The access point\<close>

definition enable_ap :: "int \<Rightarrow> string \<Rightarrow> network \<Rightarrow> network" where
  "enable_ap minutes name w = w\<lparr>nw_ap_requested := minutes, nw_ap_name := name\<rparr>"

definition start_ap :: "network \<Rightarrow> network" where
  "start_ap w =
     (let w1 = (if nw_ap_active w = 0
                then log_net [Ap_enable (nw_ap_name w), Set_hostname ITF_AP (nw_ap_name w), Dhcp_init] w else w)
      in send_notice AP_ACTIVE (w1\<lparr>nw_ap_active := nw_ap_requested w1 * 60 * 2, nw_ap_requested := 0\<rparr>))"

definition stop_ap :: "network \<Rightarrow> network" where
  "stop_ap w = send_notice AP_INACTIVE (log_net [Dhcp_deinit, Ap_disable] w)"

definition ap_tick :: "network \<Rightarrow> network" where
  "ap_tick w =
     (let w1 = (if nw_ap_active w > 0
                then (let v = w\<lparr>nw_ap_active := nw_ap_active w - 1\<rparr> in if nw_ap_active v = 0 then stop_ap v else v)
                else w)
      in if nw_ap_requested w1 > 0 then start_ap w1 else w1)"

definition check_wifi :: "net_env \<Rightarrow> link \<Rightarrow> nat \<Rightarrow> network \<Rightarrow> network" where
  "check_wifi env sts addr w =
     ap_tick (reconnect_tick env
       (if sts \<noteq> nw_state w \<or> addr \<noteq> nw_addr w then link_change sts addr w else w))"

subsection \<open>Scans\<close>

definition scan_wifi :: "bool \<Rightarrow> scan_rqst \<Rightarrow> network \<Rightarrow> network" where
  "scan_wifi active r w =
     (let w1 = (if \<not> active then (log_net [Scan_start] w)\<lparr>nw_scans := []\<rparr> else w)
      in w1\<lparr>nw_scans := nw_scans w1 @ [r]\<rparr>)"

fun ssid_put :: "string \<Rightarrow> int \<Rightarrow> scan_data \<Rightarrow> scan_data" where
  "ssid_put k v [] = [(k, v)]"
| "ssid_put k v ((k1, v1) # t) =
     (if k < k1 then (k, v) # (k1, v1) # t
      else if k = k1 then (k, v) # t
      else (k1, v1) # ssid_put k v t)"

definition scan_cb :: "(string \<times> int) option \<Rightarrow> network \<Rightarrow> network" where
  "scan_cb rslt w =
     (case rslt of None \<Rightarrow> w | Some (ssid, rssi) \<Rightarrow> w\<lparr>nw_ssids := ssid_put ssid rssi (nw_ssids w)\<rparr>)"

fun scan_answers :: "scan_data \<Rightarrow> scan_rqst list \<Rightarrow> net_call list" where
  "scan_answers ssids [] = []"
| "scan_answers ssids (r # rs) =
     (case sr_cb r of None \<Rightarrow> [] | Some cb \<Rightarrow> [Scan_done cb (sr_client r) ssids (sr_data r)]) @ scan_answers ssids rs"

definition check_scan_finished :: "bool \<Rightarrow> network \<Rightarrow> network" where
  "check_scan_finished active w =
     (if length (nw_scans w) > 0 \<and> \<not> active
      then (log_net (scan_answers (nw_ssids w) (nw_scans w)) w)\<lparr>nw_ssids := [], nw_scans := []\<rparr>
      else w)"

definition timer_callback :: "net_env \<Rightarrow> link \<Rightarrow> nat \<Rightarrow> bool \<Rightarrow> network \<Rightarrow> network" where
  "timer_callback env sts addr active w = check_scan_finished active (check_wifi env sts addr w)"

section \<open>Calls of one kind\<close>

text \<open>The log is only ever extended; what a step adds is read through a filter.\<close>

definition connects :: "net_call list \<Rightarrow> (string \<times> string) list" where
  "connects cs = concat (map (\<lambda>c. case c of Wifi_connect s p ok \<Rightarrow> [(s, p)] | _ \<Rightarrow> []) cs)"

definition ap_calls :: "net_call list \<Rightarrow> string option list" where
  "ap_calls cs = concat (map (\<lambda>c. case c of Ap_enable n \<Rightarrow> [Some n] | Ap_disable \<Rightarrow> [None] | _ \<Rightarrow> []) cs)"

definition scan_replies :: "net_call list \<Rightarrow> net_call list" where
  "scan_replies cs = filter (\<lambda>c. case c of Scan_done k h d u \<Rightarrow> True | _ \<Rightarrow> False) cs"

lemma connects_simps [simp]:
  "connects [] = []" "connects (a @ b) = connects a @ connects b" "connects (Wifi_connect s p ok # cs) = (s, p) # connects cs"
  "connects (Notice i # cs) = connects cs" "connects (Mdns_add h # cs) = connects cs" "connects (Mdns_remove # cs) = connects cs"
  "connects (Mdns_announce # cs) = connects cs" "connects (Set_hostname f h # cs) = connects cs"
  "connects (Ap_enable n # cs) = connects cs" "connects (Ap_disable # cs) = connects cs"
  "connects (Dhcp_init # cs) = connects cs" "connects (Dhcp_deinit # cs) = connects cs"
  by (simp_all add: connects_def)

lemma ap_calls_simps [simp]:
  "ap_calls [] = []" "ap_calls (a @ b) = ap_calls a @ ap_calls b" "ap_calls (Wifi_connect s p ok # cs) = ap_calls cs"
  "ap_calls (Notice i # cs) = ap_calls cs" "ap_calls (Mdns_add h # cs) = ap_calls cs" "ap_calls (Mdns_remove # cs) = ap_calls cs"
  "ap_calls (Mdns_announce # cs) = ap_calls cs" "ap_calls (Set_hostname f h # cs) = ap_calls cs"
  "ap_calls (Ap_enable n # cs) = Some n # ap_calls cs" "ap_calls (Ap_disable # cs) = None # ap_calls cs"
  "ap_calls (Dhcp_init # cs) = ap_calls cs" "ap_calls (Dhcp_deinit # cs) = ap_calls cs"
  by (simp_all add: ap_calls_def)

lemma scan_answers_other [simp]: "connects (scan_answers d rs) = []" "ap_calls (scan_answers d rs) = []"
  by (induction rs) (auto simp: connects_def ap_calls_def split: option.splits)

lemma scan_answers_replies: "scan_replies (scan_answers d rs) = scan_answers d rs"
  by (induction rs) (auto simp: scan_replies_def split: option.splits)

named_theorems net_defs

lemmas net_ops [net_defs] = log_net_def send_notice_def link_change_def reconnect_tick_def start_ap_def stop_ap_def
  ap_tick_def check_wifi_def check_scan_finished_def timer_callback_def connect_to_wifi_def Let_def

text \<open>The parts of a tick: what the link part, the retry timer, the access point and the scans do.\<close>

lemma scan_part [simp]:
  "nw_state (check_scan_finished act w) = nw_state w" "nw_addr (check_scan_finished act w) = nw_addr w"
  "nw_ssid (check_scan_finished act w) = nw_ssid w" "nw_pwd (check_scan_finished act w) = nw_pwd w"
  "nw_reconnect (check_scan_finished act w) = nw_reconnect w" "nw_ap_active (check_scan_finished act w) = nw_ap_active w"
  "nw_ap_requested (check_scan_finished act w) = nw_ap_requested w" "nw_ap_name (check_scan_finished act w) = nw_ap_name w"
  "nw_hostname (check_scan_finished act w) = nw_hostname w"
  "connects (nw_calls (check_scan_finished act w)) = connects (nw_calls w)"
  "ap_calls (nw_calls (check_scan_finished act w)) = ap_calls (nw_calls w)"
  by (simp_all add: check_scan_finished_def log_net_def)

lemma ap_part [simp]:
  "nw_state (ap_tick w) = nw_state w" "nw_addr (ap_tick w) = nw_addr w" "nw_ssid (ap_tick w) = nw_ssid w"
  "nw_pwd (ap_tick w) = nw_pwd w" "nw_reconnect (ap_tick w) = nw_reconnect w" "nw_hostname (ap_tick w) = nw_hostname w"
  "connects (nw_calls (ap_tick w)) = connects (nw_calls w)"
  by (simp_all add: ap_tick_def start_ap_def stop_ap_def send_notice_def log_net_def Let_def)

lemma retry_part [simp]:
  "nw_state (reconnect_tick env w) = nw_state w" "nw_addr (reconnect_tick env w) = nw_addr w"
  "nw_ssid (reconnect_tick env w) = nw_ssid w" "nw_pwd (reconnect_tick env w) = nw_pwd w"
  "nw_ap_active (reconnect_tick env w) = nw_ap_active w" "nw_ap_requested (reconnect_tick env w) = nw_ap_requested w"
  "nw_ap_name (reconnect_tick env w) = nw_ap_name w" "nw_hostname (reconnect_tick env w) = nw_hostname w"
  "nw_reconnect (reconnect_tick env w) = nw_reconnect w - 1"
  "ap_calls (nw_calls (reconnect_tick env w)) = ap_calls (nw_calls w)"
  by (simp_all add: reconnect_tick_def connect_to_wifi_def log_net_def Let_def)

lemma retry_connects:
  "connects (nw_calls (reconnect_tick env w)) = connects (nw_calls w) @
     (if nw_reconnect w = 1 \<and> link_lost (nw_state w) \<and> nw_ssid w \<noteq> [] then [(nw_ssid w, nw_pwd w)] else [])"
  by (simp add: reconnect_tick_def connect_to_wifi_def log_net_def Let_def)

lemma link_part:
  "nw_state (link_change l a w) = l" "nw_addr (link_change l a w) = a" "nw_ssid (link_change l a w) = nw_ssid w"
  "nw_pwd (link_change l a w) = nw_pwd w" "nw_ap_active (link_change l a w) = nw_ap_active w"
  "nw_ap_requested (link_change l a w) = nw_ap_requested w" "nw_ap_name (link_change l a w) = nw_ap_name w"
  "nw_hostname (link_change l a w) = nw_hostname w"
  "connects (nw_calls (link_change l a w)) = connects (nw_calls w)"
  "ap_calls (nw_calls (link_change l a w)) = ap_calls (nw_calls w)"
  by (cases l; simp add: link_change_def send_notice_def log_net_def Let_def)+

lemma link_lost_reconnect: "link_lost l \<Longrightarrow> nw_reconnect (link_change l a w) = reconnect_interval"
  by (cases l) (simp_all add: link_lost_def link_change_def)

text \<open>A run of ticks, each with the status, address and scan state the driver reports.\<close>

fun tick :: "net_env \<Rightarrow> network \<Rightarrow> link \<times> nat \<times> bool \<Rightarrow> network" where
  "tick env w (l, a, act) = timer_callback env l a act w"

definition ticks :: "net_env \<Rightarrow> (link \<times> nat \<times> bool) list \<Rightarrow> network \<Rightarrow> network" where
  "ticks env ins w = foldl (tick env) w ins"

lemma ticks_simps [simp]: "ticks env [] w = w" "ticks env (ins @ [x]) w = tick env (ticks env ins w) x"
  by (simp_all add: ticks_def)

section \<open>Properties\<close>

definition lost_at :: "link \<Rightarrow> nat \<Rightarrow> link \<times> nat \<times> bool \<Rightarrow> bool" where
  "lost_at l a x \<longleftrightarrow> fst x = l \<and> fst (snd x) = a"

lemma lost_ticks:
  assumes "link_lost l" "nw_state w \<noteq> l \<or> nw_addr w \<noteq> a" "nw_ssid w \<noteq> []"
  shows "\<forall>x \<in> set ins. lost_at l a x \<Longrightarrow> ins \<noteq> [] \<Longrightarrow> nw_state (ticks env ins w) = l \<and> nw_addr (ticks env ins w) = a \<and>
    nw_ssid (ticks env ins w) = nw_ssid w \<and> nw_pwd (ticks env ins w) = nw_pwd w \<and>
    nw_reconnect (ticks env ins w) = reconnect_interval - length ins \<and>
    connects (nw_calls (ticks env ins w)) =
      connects (nw_calls w) @ (if reconnect_interval \<le> length ins then [(nw_ssid w, nw_pwd w)] else [])"
proof (induction ins rule: rev_induct)
  case (snoc x ins)
  obtain act where x: "x = (l, a, act)" using snoc.prems(1) by (cases x) (auto simp: lost_at_def)
  show ?case
  proof (cases "ins = []")
    case True
    have "reconnect_interval \<noteq> 1" "\<not> reconnect_interval \<le> Suc 0" by (simp_all add: reconnect_interval_def)
    then show ?thesis
      using assms(1,2) True ticks_simps(2) [of env "[]" x]
      by (auto simp: x timer_callback_def check_wifi_def link_part retry_connects link_lost_reconnect)
  next
    case False
    let ?v = "ticks env ins w"
    have v: "nw_state ?v = l" "nw_addr ?v = a" "nw_ssid ?v = nw_ssid w" "nw_pwd ?v = nw_pwd w"
      "nw_reconnect ?v = reconnect_interval - length ins"
      "connects (nw_calls ?v) = connects (nw_calls w) @ (if reconnect_interval \<le> length ins then [(nw_ssid w, nw_pwd w)] else [])"
      using snoc False by auto
    have "reconnect_interval - length ins = 1 \<longleftrightarrow> reconnect_interval = Suc (length ins)" by auto
    with v assms(1,3) show ?thesis
      by (auto simp: x timer_callback_def check_wifi_def retry_connects)
  qed
qed simp

text \<open>C8: When the link is lost, the server tries to rejoin with the stored network name and password
  after exactly 600 timer ticks (five minutes) with unchanged status, not before, and, as long as
  the status stays the same, only once: the result of the attempt is ignored and the timer is not
  set again.\<close>

theorem reconnect_once:
  assumes "link_lost l" and "nw_state w \<noteq> l \<or> nw_addr w \<noteq> a" and "nw_ssid w \<noteq> []"
    and "\<forall>x \<in> set ins. lost_at l a x"
  shows "connects (nw_calls (ticks env ins w)) =
    connects (nw_calls w) @ (if 600 \<le> length ins then [(nw_ssid w, nw_pwd w)] else [])"
proof (cases "ins = []")
  case False
  with lost_ticks [OF assms(1-3,4)] show ?thesis by (simp add: reconnect_interval_def)
qed simp

definition joined :: network where
  "joined = net_new\<lparr>nw_ssid := ''home'', nw_pwd := ''secret'', nw_state := LINK_UP, nw_addr := 5\<rparr>"

definition quiet_env :: net_env where
  "quiet_env = \<lparr>ne_use_https = False, ne_tls_callback = None, ne_tls_config = \<lambda>_. None, ne_pcb = \<lambda>_. Some 1,
     ne_bind = \<lambda>_ _. False, ne_listen = \<lambda>_ p. p, ne_connect = \<lambda>_. False\<rparr>"

lemma reconnect_once_witness:
  "connects (nw_calls (ticks quiet_env (replicate 599 (LINK_DOWN, 0, False)) joined)) = [] \<and>
   connects (nw_calls (ticks quiet_env (replicate 100000 (LINK_DOWN, 0, False)) joined)) = [(''home'', ''secret'')]"
proof -
  have h: "link_lost LINK_DOWN" "nw_state joined \<noteq> LINK_DOWN \<or> nw_addr joined \<noteq> 0" "nw_ssid joined \<noteq> []"
    "nw_calls joined = []" "nw_ssid joined = ''home''" "nw_pwd joined = ''secret''"
    by (simp_all add: link_lost_def joined_def net_new_def)
  have "\<forall>x \<in> set (replicate n (LINK_DOWN, 0, False)). lost_at LINK_DOWN 0 x" for n
    by (simp add: lost_at_def)
  from reconnect_once [OF h(1-3) this, of quiet_env] h(4-6) show ?thesis by simp
qed

lemma ap_ticks:
  assumes "nw_ap_active w = 0" "0 < m"
  shows "ins \<noteq> [] \<Longrightarrow> nw_ap_active (ticks env ins (enable_ap m name w)) = max 0 (120 * m + 1 - int (length ins)) \<and>
    nw_ap_requested (ticks env ins (enable_ap m name w)) = 0 \<and>
    ap_calls (nw_calls (ticks env ins (enable_ap m name w))) =
      ap_calls (nw_calls w) @ [Some name] @ (if 120 * m + 1 \<le> int (length ins) then [None] else [])"
proof (induction ins rule: rev_induct)
  case (snoc x ins)
  obtain l a act where x: "x = (l, a, act)" by (cases x)
  have link: "nw_ap_active (if c then link_change l a v else v) = nw_ap_active v"
    "nw_ap_requested (if c then link_change l a v else v) = nw_ap_requested v"
    "nw_ap_name (if c then link_change l a v else v) = nw_ap_name v"
    "ap_calls (nw_calls (if c then link_change l a v else v)) = ap_calls (nw_calls v)" for c v
    by (simp_all add: link_part)
  show ?case
  proof (cases "ins = []")
    case True
    with assms show ?thesis
      using ticks_simps(2) [of env "[]" x]
      by (simp add: x timer_callback_def check_wifi_def ap_tick_def start_ap_def send_notice_def log_net_def
          link enable_ap_def Let_def)
  next
    case False
    let ?v = "ticks env ins (enable_ap m name w)"
    have v: "nw_ap_active ?v = max 0 (120 * m + 1 - int (length ins))" "nw_ap_requested ?v = 0"
      "ap_calls (nw_calls ?v) = ap_calls (nw_calls w) @ [Some name] @ (if 120 * m + 1 \<le> int (length ins) then [None] else [])"
      using snoc False by auto
    show ?thesis
      unfolding ticks_simps x tick.simps timer_callback_def check_wifi_def ap_tick_def
      by (simp add: link v stop_ap_def send_notice_def log_net_def Let_def max_def)
  qed
qed simp

text \<open>The access point lasts the minutes that were asked for: after \<open>enable_ap(m)\<close> the next tick
  switches it on under its name, it is reported as active for exactly 120 m ticks of half a second,
  whatever the link and the scans do, and the tick after that switches it off, once.\<close>

theorem ap_period:
  assumes "nw_ap_active w = 0" and "0 < m" and "ins \<noteq> []"
  shows "(0 < nw_ap_active (ticks env ins (enable_ap m name w)) \<longleftrightarrow> int (length ins) \<le> 120 * m) \<and>
    ap_calls (nw_calls (ticks env ins (enable_ap m name w))) =
      ap_calls (nw_calls w) @ (if int (length ins) \<le> 120 * m then [Some name] else [Some name, None])"
  using ap_ticks [OF assms, of env name] by (auto simp: max_def)

lemma ap_period_witness:
  "0 < nw_ap_active (ticks quiet_env (replicate 3600 (LINK_DOWN, 0, False)) (enable_ap 30 ''webapp'' joined)) \<and>
   ap_calls (nw_calls (ticks quiet_env (replicate 3601 (LINK_UP, 9, True)) (enable_ap 30 ''webapp'' joined))) =
     [Some ''webapp'', None]"
proof -
  have h: "nw_ap_active joined = 0" "nw_calls joined = []" "(0 :: int) < 30" by (simp_all add: joined_def net_new_def)
  have r: "replicate 3600 (LINK_DOWN, 0 :: nat, False) \<noteq> []" "replicate 3601 (LINK_UP, 9 :: nat, True) \<noteq> []" by simp_all
  from ap_period [OF h(1,3) r(1), of quiet_env "''webapp''"] ap_period [OF h(1,3) r(2), of quiet_env "''webapp''"] h(2)
  show ?thesis by simp
qed

text \<open>The results of a scan, as a map.\<close>

lemma map_of_ssid_put: "map_of (ssid_put k v t) = (map_of t)(k \<mapsto> v)"
  by (induction k v t rule: ssid_put.induct) auto

definition scan_results :: "(string \<times> int) list \<Rightarrow> network \<Rightarrow> network" where
  "scan_results rs w = foldl (\<lambda>w r. scan_cb (Some r) w) w rs"

lemma scan_results_fields [simp]:
  "nw_scans (scan_results rs w) = nw_scans w" "nw_calls (scan_results rs w) = nw_calls w"
  by (induction rs arbitrary: w) (auto simp: scan_results_def scan_cb_def)

lemma scan_results_map: "map_of (nw_ssids (scan_results rs w)) = map_of (nw_ssids w) ++ map_of (rev rs)"
proof (induction rs rule: rev_induct)
  case (snoc r rs)
  then show ?case by (cases r) (simp add: scan_results_def scan_cb_def map_of_ssid_put map_add_def fun_eq_iff)
qed (simp add: scan_results_def)

text \<open>A scan serves the requests made while it runs, in order, once each, all with the same map
  from network name to the last strength reported for it.  A request that comes after the scan
  has ended but before the next timer tick starts another scan and drops the earlier ones: their
  callbacks are never called.\<close>

theorem scan_served:
  fixes w :: network and running :: bool and r1 r2 :: scan_rqst and rs :: "(string \<times> int) list"
  assumes "nw_scans w = []" and "nw_ssids w = []"
  defines "w1 \<equiv> scan_wifi running r2 (scan_results rs (scan_wifi False r1 w))"
  defines "w2 \<equiv> check_scan_finished False w1"
  shows "scan_replies (nw_calls w2) = scan_replies (nw_calls w) @
      scan_answers (nw_ssids w1) (if running then [r1, r2] else [r2]) \<and>
    map_of (nw_ssids w1) = map_of (rev rs) \<and> nw_scans w2 = [] \<and> nw_ssids w2 = []"
proof -
  have s: "nw_ssids w1 = nw_ssids (scan_results rs (scan_wifi False r1 w))"
    by (simp add: w1_def scan_wifi_def log_net_def Let_def)
  have m: "map_of (nw_ssids w1) = map_of (rev rs)"
    unfolding s scan_results_map by (simp add: scan_wifi_def log_net_def assms(2))
  have k: "nw_scans w1 = (if running then [r1, r2] else [r2])"
    by (simp add: w1_def scan_wifi_def log_net_def Let_def)
  have c: "scan_replies (nw_calls w1) = scan_replies (nw_calls w)"
    by (simp add: w1_def scan_wifi_def log_net_def Let_def scan_replies_def)
  have "w2 = (log_net (scan_answers (nw_ssids w1) (nw_scans w1)) w1)\<lparr>nw_ssids := [], nw_scans := []\<rparr>"
    by (simp add: w2_def check_scan_finished_def k)
  then show ?thesis
    using m k c scan_answers_replies [of "nw_ssids w1"]
    by (simp add: log_net_def scan_replies_def del: scan_answers.simps)
qed

lemma scan_served_witness:
  "scan_replies (nw_calls (check_scan_finished False (scan_wifi True \<lparr>sr_client = 1001, sr_cb = Some 3, sr_data = 0\<rparr>
     (scan_results [(''b'', -70), (''a'', -60), (''b'', -50)]
       (scan_wifi False \<lparr>sr_client = 1000, sr_cb = Some 3, sr_data = 0\<rparr> joined))))) =
     [Scan_done 3 1000 [(''a'', -60), (''b'', -50)] 0, Scan_done 3 1001 [(''a'', -60), (''b'', -50)] 0]"
proof -
  have h: "nw_scans joined = []" "nw_ssids joined = []" "nw_calls joined = []" by (simp_all add: joined_def net_new_def)
  let ?w1 = "scan_wifi True \<lparr>sr_client = 1001, sr_cb = Some 3, sr_data = 0\<rparr>
     (scan_results [(''b'', -70), (''a'', -60), (''b'', -50)]
       (scan_wifi False \<lparr>sr_client = 1000, sr_cb = Some 3, sr_data = 0\<rparr> joined))"
  have "nw_ssids ?w1 = [(''a'', -60), (''b'', -50)]" by code_simp
  with scan_served [OF h(1,2), of True "\<lparr>sr_client = 1001, sr_cb = Some 3, sr_data = 0\<rparr>"
      "[(''b'', -70), (''a'', -60), (''b'', -50)]" "\<lparr>sr_client = 1000, sr_cb = Some 3, sr_data = 0\<rparr>"] h(3)
  show ?thesis by (simp add: scan_replies_def)
qed

text \<open>What is allocated and not given back, by the calls made so far.\<close>

datatype resource = R_pcb nat | R_conf nat

fun hold :: "resource list \<Rightarrow> net_call \<Rightarrow> resource list" where
  "hold rs (Pcb_new (Some p)) = R_pcb p # rs"
| "hold rs (Pcb_listen (Some p) (Some q)) = R_pcb q # remove1 (R_pcb p) rs"
| "hold rs (Pcb_close (Some p)) = remove1 (R_pcb p) rs"
| "hold rs (Tls_new (Some c)) = R_conf c # rs"
| "hold rs (Tls_free c) = remove1 (R_conf c) rs"
| "hold rs x = rs"

definition held :: "network \<Rightarrow> resource list" where
  "held w = foldl hold [] (nw_calls w)"

lemma held_log: "held (log_net cs w) = foldl hold (held w) cs"
  by (simp add: held_def log_net_def)

lemma held_update [simp]:
  "held (w\<lparr>nw_http := x\<rparr>) = held w" "held (w\<lparr>nw_https := x\<rparr>) = held w" "held (w\<lparr>nw_tls := y\<rparr>) = held w"
  by (simp_all add: held_def)

lemma log_net_fields [simp]:
  "nw_calls (log_net cs w) = nw_calls w @ cs" "nw_http (log_net cs w) = nw_http w" "nw_https (log_net cs w) = nw_https w"
  "nw_tls (log_net cs w) = nw_tls w"
  by (simp_all add: log_net_def)

text \<open>C16: Starting a listener succeeds or leaves nothing behind, with one exception.  \<open>start_https\<close>
  on a stopped listener returns true exactly when it then listens, holding a connection and a
  TLS configuration; when a step fails, everything allocated is given back.  On a listener that
  runs it returns false and does nothing, although its documentation says that it returns true
  when listening.  \<open>start_http\<close> on a stopped listener also returns true exactly when it then
  listens, but when the port cannot be bound the new connection is neither closed nor kept.
  \<open>stop_https\<close> closes the connection and keeps the TLS configuration allocated.\<close>

theorem listener_resources:
  assumes "start_https env w = (ok1, w1)" and "start_http env w = (ok2, w2)" and "\<forall>cs. \<not> ne_bind env cs None"
  shows "(if nw_https w = None
          then ok1 = (nw_https w1 \<noteq> None) \<and>
            (if ok1 then \<exists>q c. nw_https w1 = Some q \<and> nw_tls w1 = Some c \<and> held w1 = R_pcb q # R_conf c # held w
             else held w1 = held w)
          else \<not> ok1 \<and> w1 = w) \<and>
    (if nw_http w = None
     then ok2 = (nw_http w2 \<noteq> None) \<and>
       (if ok2 then \<exists>q. nw_http w2 = Some q \<and> held w2 = R_pcb q # held w
        else held w2 =
          (case ne_pcb env (nw_calls w) of
             None \<Rightarrow> held w
           | Some p \<Rightarrow> if ne_bind env (nw_calls w @ [Pcb_new (Some p)]) (Some p) then held w else R_pcb p # held w))
     else ok2 \<and> w2 = w) \<and>
    (nw_https w = Some q \<longrightarrow> nw_https (snd (stop_https w)) = None \<and>
       held (snd (stop_https w)) = remove1 (R_pcb q) (held w))"
proof (intro conjI)
  show "if nw_https w = None
          then ok1 = (nw_https w1 \<noteq> None) \<and>
            (if ok1 then \<exists>q c. nw_https w1 = Some q \<and> nw_tls w1 = Some c \<and> held w1 = R_pcb q # R_conf c # held w
             else held w1 = held w)
          else \<not> ok1 \<and> w1 = w"
    using assms(1,3)
    by (cases "ne_tls_config env (nw_calls w)"; cases "ne_pcb env (nw_calls w @ [Tls_new (ne_tls_config env (nw_calls w))])")
      (auto simp: start_https_def Let_def held_log split: if_splits option.splits)
  show "if nw_http w = None
     then ok2 = (nw_http w2 \<noteq> None) \<and>
       (if ok2 then \<exists>q. nw_http w2 = Some q \<and> held w2 = R_pcb q # held w
        else held w2 =
          (case ne_pcb env (nw_calls w) of
             None \<Rightarrow> held w
           | Some p \<Rightarrow> if ne_bind env (nw_calls w @ [Pcb_new (Some p)]) (Some p) then held w else R_pcb p # held w))
     else ok2 \<and> w2 = w"
    using assms(2,3)
    by (cases "ne_pcb env (nw_calls w)") (auto simp: start_http_def Let_def held_log split: if_splits option.splits)
  show "nw_https w = Some q \<longrightarrow> nw_https (snd (stop_https w)) = None \<and>
       held (snd (stop_https w)) = remove1 (R_pcb q) (held w)"
    by (simp add: stop_https_def held_log)
qed

lemma listener_resources_witness:
  "fst (start_http quiet_env joined) = False \<and> held (snd (start_http quiet_env joined)) = [R_pcb 1]"
proof -
  obtain ok1 w1 ok2 w2 where s: "start_https quiet_env joined = (ok1, w1)" "start_http quiet_env joined = (ok2, w2)"
    by (metis surj_pair)
  have h: "\<forall>cs. \<not> ne_bind quiet_env cs None" "nw_http joined = None" "held joined = []" "nw_calls joined = []"
    "\<not> ne_bind quiet_env [Pcb_new (Some 1)] (Some 1)" "ne_pcb quiet_env [] = Some 1"
    by (simp_all add: quiet_env_def joined_def net_new_def held_def)
  have "\<not> ok2" using s(2) h by (auto simp: start_http_def Let_def quiet_env_def)
  with listener_resources [OF s h(1), of 0] h(2-6) s(2) show ?thesis by simp
qed

end
