(* ===== verification/Json.thy ===== *)
theory Json
  imports Cpp_String
begin

text \<open>
  The JSON helpers: \<open>JSONMap\<close> (\<open>util/jsonmap.h\<close>, \<open>util/jsonmap.cpp\<close>), which sizes the property
  pool for the tiny-json library, loads a document and writes one from a map, and \<open>JSONString\<close>
  (\<open>util/jsonstring.h\<close>, \<open>util/jsonstring.cpp\<close>), a string that may live in the document.

  tiny-json is not part of the repository: \<open>json_create\<close> is the parameter \<open>create\<close>, which takes
  the document and the size of the pool and fails when the pool is too small.
\<close>

section \<open>Definitions\<close>

subsection \<open>JSONMap\<close>

text \<open>
  The loop of \<open>itemCount\<close>, with the previous character, \<open>quoted\<close>, \<open>depth\<close> and \<open>ret\<close>.  At a
  quote outside of quotes the code has the comparison \<open>quoted == true\<close>, which changes nothing.
\<close>

definition QUOT :: char where "QUOT = CHR 0x22"
definition BACKSLASH :: char where "BACKSLASH = CHR 0x5C"

fun count_loop :: "char \<Rightarrow> string \<Rightarrow> bool \<Rightarrow> nat \<Rightarrow> nat \<Rightarrow> nat" where
  "count_loop prev [] quoted depth ret = ret"
| "count_loop prev (c # cs) quoted depth ret =
     (if depth > 0
      then if \<not> quoted \<and> (c = CHR ''{'' \<or> c = CHR ''['') then count_loop c cs quoted (depth + 1) (ret + 1)
           else if \<not> quoted \<and> (c = CHR ''}'' \<or> c = CHR '']'') then count_loop c cs quoted (depth - 1) ret
           else if \<not> quoted \<and> c = CHR '','' then count_loop c cs quoted depth (ret + 1)
           else if \<not> quoted \<and> c = QUOT then count_loop c cs quoted depth ret
           else if quoted \<and> c = QUOT
           then count_loop c cs (if prev \<noteq> BACKSLASH then False else quoted) depth ret
           else count_loop c cs quoted depth ret
      else ret)"

definition item_count :: "string \<Rightarrow> nat" where
  "item_count jsonstr =
     (case c_str jsonstr of
        [] \<Rightarrow> 0
      | c # cs \<Rightarrow> if c = CHR ''{'' \<or> c = CHR ''['' then count_loop c cs False 1 2 else 0)"

text \<open>
  The object: the data buffer, and the array of properties, which is null or holds what
  \<open>json_create\<close> made of it (nothing, if the call failed).  The library parses in place, so it
  returns the changed buffer with its properties.
\<close>

record 'j json_map =
  jm_json :: "'j option option"
  jm_data :: "string option"

type_synonym 'j json_lib = "string \<Rightarrow> nat \<Rightarrow> ('j \<times> string) option"

definition jm_new :: "'j json_map" where
  "jm_new = \<lparr>jm_json = None, jm_data = None\<rparr>"

definition jm_clear :: "'j json_map \<Rightarrow> 'j json_map" where
  "jm_clear m = m\<lparr>jm_data := None, jm_json := None\<rparr>"

definition jm_created :: "string \<Rightarrow> ('j \<times> string) option \<Rightarrow> 'j json_map \<Rightarrow> 'j json_map" where
  "jm_created str r m =
     (case r of
        Some (j, buf) \<Rightarrow> m\<lparr>jm_data := Some buf, jm_json := Some (Some j)\<rparr>
      | None \<Rightarrow> m\<lparr>jm_data := Some str, jm_json := Some None\<rparr>)"

definition jm_load :: "'j json_lib \<Rightarrow> string \<Rightarrow> 'j json_map \<Rightarrow> bool \<times> 'j json_map" where
  "jm_load create str m =
     (let jsz = item_count str + 1; json = create str jsz
      in if json \<noteq> None then (True, jm_created str json m)
         else (False, jm_created ''{}'' (create ''{}'' jsz) m))"

definition jm_load_string :: "'j json_lib \<Rightarrow> string \<Rightarrow> 'j json_map \<Rightarrow> bool \<times> 'j json_map" where
  "jm_load_string create str m = jm_load create (c_str str) (jm_clear m)"

text \<open>The file system: the contents of a file, or no such file.\<close>

definition jm_load_file :: "'j json_lib \<Rightarrow> string option \<Rightarrow> 'j json_map \<Rightarrow> bool \<times> 'j json_map" where
  "jm_load_file create file m =
     (case file of
        Some contents \<Rightarrow> jm_load create (c_str contents) (jm_clear m)
      | None \<Rightarrow> (False, snd (jm_load create ''{}'' (jm_clear m))))"

text \<open>
  Properties are looked up by the library, \<open>get\<close>, in the array as it is; the value functions
  differ in the getter of the library that is applied to the property.
\<close>

definition jm_find :: "('j option option \<Rightarrow> string \<Rightarrow> 'p option) \<Rightarrow> 'j json_map \<Rightarrow> string \<Rightarrow> 'p option" where
  "jm_find get m name = get (jm_json m) name"

definition jm_has :: "('j option option \<Rightarrow> string \<Rightarrow> 'p option) \<Rightarrow> 'j json_map \<Rightarrow> string \<Rightarrow> bool" where
  "jm_has get m name \<longleftrightarrow> jm_find get m name \<noteq> None"

definition jm_value :: "('j option option \<Rightarrow> string \<Rightarrow> 'p option) \<Rightarrow> ('p \<Rightarrow> 'v) \<Rightarrow> 'j json_map \<Rightarrow> string \<Rightarrow> 'v \<Rightarrow> 'v" where
  "jm_value get getter m name defval =
     (case jm_find get m name of Some prop \<Rightarrow> getter prop | None \<Rightarrow> defval)"

text \<open>\<open>fromMap\<close>; the map is a list in the order of its keys.\<close>

fun map_items :: "string \<Rightarrow> (string \<times> string) list \<Rightarrow> string" where
  "map_items sep [] = []"
| "map_items sep ((k, v) # r) =
     sep @ k @ [QUOT] @ '':'' @ [QUOT] @ v @ [QUOT] @ map_items ('','' @ [QUOT]) r"

definition from_map :: "(string \<times> string) list \<Rightarrow> bool \<times> string" where
  "from_map m = (if length m > 0 then (True, map_items (''{'' @ [QUOT]) m @ ''}'') else (False, []))"

subsection \<open>JSONString\<close>

text \<open>
  The pointer is null, points into the document (at an offset), or owns an array on the heap.
\<close>

datatype js_pointer = Js_null | Js_doc nat | Js_heap string

record json_string =
  js_ptr :: js_pointer
  js_len :: int

definition js_empty :: json_string where
  "js_empty = \<lparr>js_ptr = Js_null, js_len = 0\<rparr>"

definition js_size :: "nat \<Rightarrow> nat" where
  "js_size ll = (ll + 32) div 32 * 32"

text \<open>
  The constructor copies as many bytes as the new array has; \<open>src\<close> is the memory object the
  argument points into, from there on (\<open>blank_\<close> for a null pointer), and reading behind it has
  no result.
\<close>

definition js_new :: "string option \<Rightarrow> json_string option" where
  "js_new src =
     (let mem = (case src of None \<Rightarrow> [NUL] | Some m \<Rightarrow> m);
          n = js_size (length (c_str mem))
      in if n \<le> length mem then Some \<lparr>js_ptr = Js_heap (take n mem), js_len = int n\<rparr> else None)"

definition js_clear :: "json_string \<Rightarrow> json_string" where
  "js_clear s = s\<lparr>js_ptr := Js_null, js_len := 0\<rparr>"

text \<open>\<open>str()\<close>\<close>

definition js_str :: "string \<Rightarrow> json_string \<Rightarrow> string" where
  "js_str doc s =
     (case js_ptr s of Js_null \<Rightarrow> [] | Js_doc off \<Rightarrow> c_str (drop off doc) | Js_heap buf \<Rightarrow> c_str buf)"

text \<open>
  Copy assignment; an array is copied, a pointer into the document is shared.  When an object is
  assigned to itself, \<open>other\<close> is the object that has just been cleared.
\<close>

definition js_assign_other :: "bool \<Rightarrow> json_string \<Rightarrow> json_string \<Rightarrow> json_string" where
  "js_assign_other same other0 s =
     (let s1 = js_clear s; other = (if same then s1 else other0)
      in if js_len other > 0
         then s1\<lparr>js_ptr := (case js_ptr other of Js_heap buf \<Rightarrow> Js_heap (take (nat (js_len other)) buf) | q \<Rightarrow> q),
                js_len := js_len other\<rparr>
         else s1\<lparr>js_ptr := js_ptr other, js_len := js_len other\<rparr>)"

text \<open>Assignment of a property; \<open>value\<close> is the offset of its text, unless it is an array or object.\<close>

definition js_assign_json :: "string \<Rightarrow> nat option \<Rightarrow> json_string \<Rightarrow> json_string" where
  "js_assign_json doc value s =
     (case value of
        None \<Rightarrow> js_clear s
      | Some off \<Rightarrow> \<lparr>js_ptr = Js_doc off, js_len = - (int (length (c_str (drop off doc))) + 1)\<rparr>)"

text \<open>Assignment of a string: in place if it fits, else a new array.\<close>

definition js_assign :: "string \<Rightarrow> string \<Rightarrow> json_string \<Rightarrow> string \<times> json_string" where
  "js_assign str doc s0 =
     (let ll = int (length (c_str str));
          (doc1, s1) =
            (if js_len s0 < 0
             then (if ll < - js_len s0
                   then (case js_ptr s0 of
                           Js_doc off \<Rightarrow> (write_at doc off (strncpy str (nat (- js_len s0))), s0)
                         | _ \<Rightarrow> (doc, s0))
                   else (doc, js_clear s0))
             else (doc, s0));
          s2 =
            (if js_len s1 > 0
             then (if ll < js_len s1 then s1\<lparr>js_ptr := Js_heap (strncpy str (nat (js_len s1)))\<rparr> else js_clear s1)
             else s1)
      in (doc1,
          if js_len s2 = 0 \<and> ll > 0
          then (let n = js_size (nat ll) in \<lparr>js_ptr = Js_heap (strncpy str n), js_len = int n\<rparr>)
          else s2))"

section \<open>Counting items\<close>

text \<open>Documents as trees; a scalar is its text.\<close>

datatype jtree = Scalar string | Obj "(string \<times> jtree) list" | Arr "jtree list"

fun commas :: "string list \<Rightarrow> string" where
  "commas [] = []"
| "commas [x] = x"
| "commas (x # y # r) = x @ '','' @ commas (y # r)"

definition member_text :: "string \<Rightarrow> string \<Rightarrow> string" where
  "member_text k v = [QUOT] @ k @ [QUOT] @ '':'' @ v"

fun render :: "jtree \<Rightarrow> string" where
  "render (Scalar s) = s"
| "render (Obj ms) = ''{'' @ commas (map (\<lambda>m. member_text (fst m) (render (snd m))) ms) @ ''}''"
| "render (Arr ts) = ''['' @ commas (map render ts) @ '']''"

text \<open>The nodes of a tree; the count of the program has one more for every empty container.\<close>

fun nodes :: "jtree \<Rightarrow> nat" where
  "nodes (Scalar s) = 1"
| "nodes (Obj ms) = 1 + sum_list (map (\<lambda>m. nodes (snd m)) ms)"
| "nodes (Arr ts) = 1 + sum_list (map nodes ts)"

fun counted :: "jtree \<Rightarrow> nat" where
  "counted (Scalar s) = 1"
| "counted (Obj ms) = (if ms = [] then 2 else 1 + sum_list (map (\<lambda>m. counted (snd m)) ms))"
| "counted (Arr ts) = (if ts = [] then 2 else 1 + sum_list (map counted ts))"

definition plain :: "string \<Rightarrow> bool" where
  "plain s \<longleftrightarrow> (\<forall>c \<in> set s. c \<notin> set ''{}[],'' \<and> c \<noteq> NUL)"

fun plain_tree :: "jtree \<Rightarrow> bool" where
  "plain_tree (Scalar s) = plain s"
| "plain_tree (Obj ms) = (\<forall>m \<in> set ms. plain (fst m) \<and> plain_tree (snd m))"
| "plain_tree (Arr ts) = (\<forall>t \<in> set ts. plain_tree t)"

lemma count_prev: "count_loop p s False d r = count_loop q s False d r"
  by (cases s) simp_all

lemma count_plain:
  "plain s \<Longrightarrow> count_loop p (s @ rest) False (Suc d) r = count_loop p rest False (Suc d) r"
proof (induction s arbitrary: p)
  case (Cons c cs)
  have "count_loop p ((c # cs) @ rest) False (Suc d) r = count_loop c (cs @ rest) False (Suc d) r"
    using Cons.prems by (auto simp: plain_def)
  also have "\<dots> = count_loop p rest False (Suc d) r"
    using Cons.IH [of c] Cons.prems count_prev by (auto simp: plain_def)
  finally show ?case .
qed simp

lemma nodes_positive [simp]: "0 < nodes t" "0 < counted t"
  by (cases t; simp)+

lemma nodes_counted: "nodes t \<le> counted t"
  by (induction t rule: nodes.induct) (auto intro!: sum_list_mono)

text \<open>A list of parts, each of which adds \<open>f x - 1\<close>.\<close>

lemma count_commas:
  assumes "\<And>x p r rest. x \<in> set xs \<Longrightarrow>
    count_loop p (g x @ rest) False (Suc d) r = count_loop p rest False (Suc d) (r + (f x - 1))"
    and "\<And>x. x \<in> set xs \<Longrightarrow> 0 < (f x :: nat)" and "xs \<noteq> []"
  shows "count_loop p (commas (map g xs) @ rest) False (Suc d) r =
    count_loop p rest False (Suc d) (r + (sum_list (map f xs) - 1))"
  using assms
proof (induction xs arbitrary: p r)
  case (Cons x xs)
  show ?case
  proof (cases xs)
    case Nil
    with Cons.prems(1) [of x] show ?thesis by simp
  next
    case (Cons y ys)
    have "count_loop p (commas (map g (x # xs)) @ rest) False (Suc d) r =
        count_loop p ('','' @ commas (map g xs) @ rest) False (Suc d) (r + (f x - 1))"
      using Cons.prems(1) [of x p "'','' @ commas (map g xs) @ rest" r] Cons by simp
    also have "\<dots> = count_loop (CHR '','') (commas (map g xs) @ rest) False (Suc d) (r + f x)"
      using Cons.prems(2) [of x] by simp
    also have "\<dots> = count_loop p rest False (Suc d) (r + f x + (sum_list (map f xs) - 1))"
      using Cons.IH [of "CHR '',''" "r + f x"] Cons.prems Cons count_prev by auto
    also have "r + f x + (sum_list (map f xs) - 1) = r + (sum_list (map f (x # xs)) - 1)"
      using Cons.prems(2) [of y] Cons by simp
    finally show ?thesis .
  qed
qed simp

text \<open>The inside of a container, at the depth it has, from what holds for its members.\<close>

lemma sum_positive: "(\<And>x. x \<in> set xs \<Longrightarrow> 0 < f x) \<Longrightarrow> xs \<noteq> [] \<Longrightarrow> 0 < (sum_list (map f xs) :: nat)"
  by (cases xs) simp_all

lemma counted_Obj: "r + (counted (Obj ms) - 1) = Suc (r + (sum_list (map (\<lambda>m. counted (snd m)) ms) - 1))"
  using sum_positive [of ms "\<lambda>m. counted (snd m)"] by (cases "ms = []") simp_all

lemma counted_Arr: "r + (counted (Arr ts) - 1) = Suc (r + (sum_list (map counted ts) - 1))"
  using sum_positive [of ts counted] by (cases "ts = []") simp_all

lemma count_members:
  assumes "\<And>m p rest r. m \<in> set ms \<Longrightarrow> plain_tree (snd m) \<Longrightarrow>
      count_loop p (render (snd m) @ rest) False (Suc d) r = count_loop p rest False (Suc d) (r + (counted (snd m) - 1))"
    and "plain_tree (Obj ms)"
  shows "count_loop p (commas (map (\<lambda>m. member_text (fst m) (render (snd m))) ms) @ rest) False (Suc d) r =
    count_loop p rest False (Suc d) (r + (sum_list (map (\<lambda>m. counted (snd m)) ms) - 1))"
proof (cases "ms = []")
  case False
  show ?thesis
  proof (rule count_commas [OF _ _ False])
    fix m p r rest assume m: "m \<in> set ms"
    have "plain ([QUOT] @ fst m @ [QUOT] @ '':'')"
      using assms(2) m by (auto simp: plain_def QUOT_def NUL_def)
    from count_plain [OF this, of p "render (snd m) @ rest"] assms(1) [OF m, of p rest r] assms(2) m
    show "count_loop p (member_text (fst m) (render (snd m)) @ rest) False (Suc d) r =
        count_loop p rest False (Suc d) (r + (counted (snd m) - 1))"
      by (simp add: member_text_def)
  qed simp
qed simp

lemma count_elements:
  assumes "\<And>t p rest r. t \<in> set ts \<Longrightarrow> plain_tree t \<Longrightarrow>
      count_loop p (render t @ rest) False (Suc d) r = count_loop p rest False (Suc d) (r + (counted t - 1))"
    and "plain_tree (Arr ts)"
  shows "count_loop p (commas (map render ts) @ rest) False (Suc d) r =
    count_loop p rest False (Suc d) (r + (sum_list (map counted ts) - 1))"
proof (cases "ts = []")
  case False
  show ?thesis by (rule count_commas [OF _ _ False]) (use assms in simp_all)
qed simp

lemma count_tree:
  "plain_tree t \<Longrightarrow> count_loop p (render t @ rest) False (Suc d) r = count_loop p rest False (Suc d) (r + (counted t - 1))"
proof (induction t arbitrary: p rest d r rule: render.induct)
  case (1 s)
  then show ?case by (simp add: count_plain)
next
  case (2 ms)
  have "count_loop p (render (Obj ms) @ rest) False (Suc d) r =
      count_loop (CHR ''{'') (commas (map (\<lambda>m. member_text (fst m) (render (snd m))) ms) @ ''}'' @ rest)
        False (Suc (Suc d)) (Suc r)" by simp
  also have "\<dots> = count_loop (CHR ''{'') (''}'' @ rest) False (Suc (Suc d))
      (Suc r + (sum_list (map (\<lambda>m. counted (snd m)) ms) - 1))"
    by (rule count_members) (use 2 in simp_all)
  also have "\<dots> = count_loop p rest False (Suc d) (r + (counted (Obj ms) - 1))"
    unfolding counted_Obj using count_prev by simp
  finally show ?case .
next
  case (3 ts)
  have "count_loop p (render (Arr ts) @ rest) False (Suc d) r =
      count_loop (CHR ''['') (commas (map render ts) @ '']'' @ rest) False (Suc (Suc d)) (Suc r)" by simp
  also have "\<dots> = count_loop (CHR ''['') ('']'' @ rest) False (Suc (Suc d))
      (Suc r + (sum_list (map counted ts) - 1))"
    by (rule count_elements) (use 3 in simp_all)
  also have "\<dots> = count_loop p rest False (Suc d) (r + (counted (Arr ts) - 1))"
    unfolding counted_Arr using count_prev by simp
  finally show ?case .
qed

lemma count_end: "count_loop p cs q 0 r = r"
  by (cases cs) simp_all

section \<open>Strings\<close>

text \<open>The representation: the length tells where the characters are.\<close>

definition js_ok :: "string \<Rightarrow> json_string \<Rightarrow> bool" where
  "js_ok doc s \<longleftrightarrow>
     (case js_ptr s of
        Js_null \<Rightarrow> js_len s = 0
      | Js_doc off \<Rightarrow> js_len s < 0 \<and> off + nat (- js_len s) \<le> length doc
      | Js_heap buf \<Rightarrow> js_len s = int (length buf) \<and> buf \<noteq> [])"

lemma c_str_strncpy: "NUL \<notin> set s \<Longrightarrow> length s < n \<Longrightarrow> c_str (strncpy s n @ r) = s"
proof -
  assume a: "NUL \<notin> set s" "length s < n"
  then obtain k where "n = Suc (length s + k)" using less_imp_Suc_add by blast
  with a show ?thesis by (simp add: strncpy_def c_str_append_NUL)
qed

lemma js_size_bound: "n < js_size n"
proof -
  have "n < (n + 32) div 32 * 32"
    using div_mult_mod_eq [of "n + 32" 32] mod_less_divisor [of 32 "n + 32"] by linarith
  then show ?thesis by (simp add: js_size_def)
qed

lemma js_assign_doc:
  assumes "js_ok doc s" "js_ptr s = Js_doc off" "NUL \<notin> set str" "int (length str) < - js_len s"
  shows "js_assign str doc s = (write_at doc off (strncpy str (nat (- js_len s))), s)"
    and "js_str (write_at doc off (strncpy str (nat (- js_len s)))) s = str"
    and "js_ok (write_at doc off (strncpy str (nat (- js_len s)))) s"
proof -
  have l: "js_len s < 0" "off + nat (- js_len s) \<le> length doc" using assms(1,2) by (simp_all add: js_ok_def)
  show "js_assign str doc s = (write_at doc off (strncpy str (nat (- js_len s))), s)"
    using assms(2-4) l by (simp add: js_assign_def Let_def)
  have "length str < nat (- js_len s)" using assms(4) by linarith
  then show "js_str (write_at doc off (strncpy str (nat (- js_len s)))) s = str"
    using assms(2,3) l by (simp add: js_str_def write_at_def c_str_strncpy)
  show "js_ok (write_at doc off (strncpy str (nat (- js_len s)))) s"
    using assms(2) l by (simp add: js_ok_def)
qed

lemma js_assign_null:
  assumes "js_ptr s = Js_null" "js_len s = 0" "NUL \<notin> set str"
  shows "js_assign str doc s =
    (doc, if str = [] then s
          else \<lparr>js_ptr = Js_heap (strncpy str (js_size (length str))), js_len = int (js_size (length str))\<rparr>)"
  using assms by (simp add: js_assign_def Let_def)

lemma js_assign_clears:
  assumes "js_len s < 0 \<and> - js_len s \<le> int (length str) \<or> 0 < js_len s \<and> js_len s \<le> int (length str)"
    and "NUL \<notin> set str"
  shows "js_assign str doc s = js_assign str doc (js_clear s)"
  using assms by (auto simp: js_assign_def js_clear_def Let_def)

lemma js_null_result:
  assumes "js_ptr s = Js_null" "js_len s = 0" "NUL \<notin> set str"
  shows "fst (js_assign str doc s) = doc \<and> js_str doc (snd (js_assign str doc s)) = str \<and>
    js_ok doc (snd (js_assign str doc s))"
proof -
  have "c_str (strncpy str (js_size (length str))) = str"
    using c_str_strncpy [OF assms(3) js_size_bound, of "[]"] by simp
  moreover have "strncpy str (js_size (length str)) \<noteq> []"
    using js_size_bound [of "length str"] by (simp flip: length_0_conv)
  ultimately show ?thesis
    unfolding js_assign_null [OF assms] using assms by (simp add: js_str_def js_ok_def)
qed

lemma js_assign_heap:
  assumes "js_ok doc s" "js_len s \<ge> 0 \<or> \<not> int (length str) < - js_len s" "NUL \<notin> set str"
  shows "fst (js_assign str doc s) = doc \<and> js_str doc (snd (js_assign str doc s)) = str \<and>
    js_ok doc (snd (js_assign str doc s))"
proof (cases "js_len s > 0 \<and> int (length str) < js_len s")
  case True
  then obtain buf where b: "js_ptr s = Js_heap buf" "js_len s = int (length buf)" "length str < length buf"
    using assms(1) by (auto simp: js_ok_def split: js_pointer.splits)
  have "js_assign str doc s = (doc, s\<lparr>js_ptr := Js_heap (strncpy str (length buf))\<rparr>)"
    using b(1,2) assms(3) True by (simp add: js_assign_def Let_def)
  moreover have "c_str (strncpy str (length buf)) = str"
    using c_str_strncpy [OF assms(3) b(3), of "[]"] by simp
  moreover have "strncpy str (length buf) \<noteq> []" using b(3) by (simp flip: length_0_conv)
  ultimately show ?thesis using b by (simp add: js_str_def js_ok_def)
next
  case False
  show ?thesis
  proof (cases "js_len s = 0")
    case True
    then have "js_ptr s = Js_null" using assms(1) by (auto simp: js_ok_def split: js_pointer.splits)
    then show ?thesis using True assms(3) by (rule js_null_result)
  next
    case nz: False
    then have "js_assign str doc s = js_assign str doc (js_clear s)"
      using False assms(2,3) by (intro js_assign_clears) linarith+
    then show ?thesis using js_null_result [of "js_clear s" str doc] assms(3) by (simp add: js_clear_def)
  qed
qed

section \<open>Properties\<close>

definition container :: "jtree \<Rightarrow> bool" where
  "container t \<longleftrightarrow> (case t of Scalar s \<Rightarrow> False | _ \<Rightarrow> True)"

lemma plain_no_NUL: "plain s \<Longrightarrow> NUL \<notin> set s"
  by (auto simp: plain_def)

lemma commas_NUL: "\<forall>x \<in> set xs. NUL \<notin> set x \<Longrightarrow> NUL \<notin> set (commas xs)"
  by (induction xs rule: commas.induct) (auto simp: NUL_def)

lemma render_NUL: "plain_tree t \<Longrightarrow> NUL \<notin> set (render t)"
proof (induction t rule: render.induct)
  case (1 s)
  then show ?case by (simp add: plain_no_NUL)
next
  case (2 ms)
  have "NUL \<notin> set (commas (map (\<lambda>m. member_text (fst m) (render (snd m))) ms))"
    by (rule commas_NUL) (use 2 plain_no_NUL in \<open>fastforce simp: member_text_def NUL_def QUOT_def\<close>)
  then show ?case by (simp add: NUL_def)
next
  case (3 ts)
  have "NUL \<notin> set (commas (map render ts))" by (rule commas_NUL) (use 3 in auto)
  then show ?case by (simp add: NUL_def)
qed

text \<open>The outermost container is counted by the initial value of \<open>ret\<close>.\<close>

lemma item_count_tree:
  assumes "plain_tree t" "container t"
  shows "item_count (render t) = counted t"
proof (cases t)
  case (Obj ms)
  have c: "c_str (render t) = render t" using render_NUL [OF assms(1)] by simp
  have "item_count (render t) =
      count_loop (CHR ''{'') (commas (map (\<lambda>m. member_text (fst m) (render (snd m))) ms) @ ''}'') False (Suc 0) 2"
    unfolding item_count_def c using Obj count_prev by simp
  also have "\<dots> = count_loop (CHR ''{'') ''}'' False (Suc 0) (2 + (sum_list (map (\<lambda>m. counted (snd m)) ms) - 1))"
    by (rule count_members) (use count_tree assms(1) Obj in simp_all)
  also have "\<dots> = 1 + (counted (Obj ms) - 1)" unfolding counted_Obj by (simp add: count_end)
  finally show ?thesis using Obj nodes_positive(2) [of t] by simp
next
  case (Arr ts)
  have c: "c_str (render t) = render t" using render_NUL [OF assms(1)] by simp
  have "item_count (render t) = count_loop (CHR ''['') (commas (map render ts) @ '']'') False (Suc 0) 2"
    unfolding item_count_def c using Arr count_prev by simp
  also have "\<dots> = count_loop (CHR ''['') '']'' False (Suc 0) (2 + (sum_list (map counted ts) - 1))"
    by (rule count_elements) (use count_tree assms(1) Arr in simp_all)
  also have "\<dots> = 1 + (counted (Arr ts) - 1)" unfolding counted_Arr by (simp add: count_end)
  finally show ?thesis using Arr nodes_positive(2) [of t] by simp
qed (use assms(2) in \<open>simp add: container_def\<close>)

text \<open>C40: \<open>itemCount\<close> sizes the pool: for every document whose keys and scalars have no brackets,
  braces or commas it counts each node once, and one more for each empty container, so
  \<open>loadString\<close> loads the document whenever \<open>json_create\<close> succeeds with a property for every
  node.\<close>

theorem json_fits:
  assumes "plain_tree t" "container t"
    and "\<forall>n > nodes t. create (render t) n = Some (j, buf)"
  shows "item_count (render t) = counted t \<and> nodes t \<le> item_count (render t) \<and>
    jm_load_string create (render t) m = (True, m\<lparr>jm_json := Some (Some j), jm_data := Some buf\<rparr>)"
proof -
  have c: "item_count (render t) = counted t" by (rule item_count_tree [OF assms(1,2)])
  have "create (render t) (item_count (render t) + 1) = Some (j, buf)"
    using assms(3) nodes_counted [of t] c by simp
  then show ?thesis
    using c nodes_counted [of t] render_NUL [OF assms(1)]
    by (simp add: jm_load_string_def jm_load_def jm_created_def jm_clear_def)
qed

definition small_lib :: "nat \<Rightarrow> unit json_lib" where
  "small_lib k doc n = (if n < k then None else Some ((), doc))"

theorem json_fits_witness:
  "fst (jm_load_string (small_lib 5)
     (render (Obj [(''a'', Scalar ''1''), (''b'', Arr [Scalar ''2'', Obj []])])) jm_new)"
  using json_fits [of "Obj [(''a'', Scalar ''1''), (''b'', Arr [Scalar ''2'', Obj []])]" "small_lib 5" "()"
      "render (Obj [(''a'', Scalar ''1''), (''b'', Arr [Scalar ''2'', Obj []])])" jm_new]
  by (simp add: plain_def container_def small_lib_def NUL_def)

text \<open>\<open>itemCount\<close> never notices that it is inside a string: a brace in a value ends the count,
  and a document with more members is refused for want of properties, although the library
  could load it.\<close>

theorem json_brace_refused:
  assumes "\<forall>n \<le> 3. create ([CHR ''{''] @ member_text ''a'' [QUOT, CHR ''}'', QUOT] @ rest) n = None"
    and "NUL \<notin> set rest"
  shows "item_count ([CHR ''{''] @ member_text ''a'' [QUOT, CHR ''}'', QUOT] @ rest) = 2 \<and>
    \<not> fst (jm_load_string create ([CHR ''{''] @ member_text ''a'' [QUOT, CHR ''}'', QUOT] @ rest) m)"
proof -
  let ?doc = "[CHR ''{''] @ member_text ''a'' [QUOT, CHR ''}'', QUOT] @ rest"
  have c: "c_str ?doc = ?doc"
    using assms(2) by (simp add: member_text_def QUOT_def NUL_def)
  have two: "item_count ?doc = 2"
    unfolding item_count_def c by (simp add: member_text_def QUOT_def count_end)
  moreover have "create ?doc 3 = None" using assms(1) by simp
  ultimately show ?thesis unfolding jm_load_string_def c by (simp add: jm_load_def)
qed

theorem json_brace_refused_witness:
  "\<not> fst (jm_load_string (small_lib 4)
     ([CHR ''{''] @ member_text ''a'' [QUOT, CHR ''}'', QUOT] @
      '','' @ member_text ''b'' ''1'' @ '','' @ member_text ''c'' ''2'' @ ''}'') jm_new)"
  using json_brace_refused [of "small_lib 4" "'','' @ member_text ''b'' ''1'' @ '','' @ member_text ''c'' ''2'' @ ''}''" jm_new]
  by (simp add: small_lib_def member_text_def QUOT_def NUL_def)

text \<open>assigning a string makes the object read as that string and keeps its pointer and length
  valid, whatever it held; the document changes only when the string fits in the place of the
  property's text, and then within that place only.\<close>

theorem json_string_assigned:
  assumes "js_ok doc s" "NUL \<notin> set str" "js_assign str doc s = (doc', s')"
  shows "js_str doc' s' = str \<and> js_ok doc' s' \<and> length doc' = length doc \<and>
    (case js_ptr s of
       Js_doc off \<Rightarrow>
         if int (length str) < - js_len s
         then s' = s \<and> take off doc' = take off doc \<and>
           drop (off + nat (- js_len s)) doc' = drop (off + nat (- js_len s)) doc
         else doc' = doc
     | _ \<Rightarrow> doc' = doc)"
proof (cases "\<exists>off. js_ptr s = Js_doc off \<and> int (length str) < - js_len s")
  case True
  then obtain off where off: "js_ptr s = Js_doc off" "int (length str) < - js_len s" by blast
  have bound: "off + nat (- js_len s) \<le> length doc" using assms(1) off(1) by (simp add: js_ok_def)
  have l: "length (strncpy str (nat (- js_len s))) = nat (- js_len s)" by simp
  have "doc' = write_at doc off (strncpy str (nat (- js_len s)))" "s' = s"
    using js_assign_doc(1) [OF assms(1) off(1) assms(2) off(2)] assms(3) by simp_all
  then show ?thesis
    using js_assign_doc(2,3) [OF assms(1) off(1) assms(2) off(2)] off bound l
    by (simp add: write_at_def)
next
  case False
  have "js_len s \<ge> 0 \<or> \<not> int (length str) < - js_len s"
    using False assms(1) by (auto simp: js_ok_def split: js_pointer.splits)
  from js_assign_heap [OF assms(1) this assms(2)] show ?thesis
    using False assms(3) by (auto split: js_pointer.splits)
qed

theorem json_string_assigned_witness:
  "js_str (fst (js_assign ''on'' (''{a:off'' @ [NUL] @ ''}'') \<lparr>js_ptr = Js_doc 3, js_len = -4\<rparr>))
     (snd (js_assign ''on'' (''{a:off'' @ [NUL] @ ''}'') \<lparr>js_ptr = Js_doc 3, js_len = -4\<rparr>)) = ''on''"
  by (rule json_string_assigned [where doc = "''{a:off'' @ [NUL] @ ''}''" and
        s = "\<lparr>js_ptr = Js_doc 3, js_len = -4\<rparr>", THEN conjunct1])
    (simp_all add: js_ok_def NUL_def)

end
