(* ===== verification/File_Logger.thy ===== *)
theory File_Logger
  imports Cpp_String
begin

text \<open>
  \<open>Logger\<close> and \<open>FileLogger\<close> (\<open>util/logger.h\<close>, \<open>util/logger.cpp\<close>, \<open>util/file_logger.h\<close>,
  \<open>util/file_logger.cpp\<close>): a log file that is cut to its last lines when it grows too long.

  The files are a map from names to contents.  What the file system may refuse is a parameter
  (\<open>log_env\<close>), as are the clock, which is read into \<open>now\<close>, and \<open>strftime\<close>.  A message is given
  formatted.  Writing to a log that could be opened succeeds.
\<close>

section \<open>Definitions\<close>

subsection \<open>Reading lines\<close>

text \<open>
  The number of characters \<open>fgets\<close> reads for a buffer of \<open>k + 1\<close> bytes, and the pieces a loop of
  such reads with the buffers of 133 bytes finds.
\<close>

fun fgets_len :: "nat \<Rightarrow> string \<Rightarrow> nat" where
  "fgets_len 0 s = 0"
| "fgets_len (Suc k) [] = 0"
| "fgets_len (Suc k) (c # cs) = (if c = LF then 1 else Suc (fgets_len k cs))"

definition LINEBUF :: nat where "LINEBUF = 133"

function file_lines :: "string \<Rightarrow> string list" where
  "file_lines s =
     (if s = [] then [] else take (fgets_len (LINEBUF - 1) s) s # file_lines (drop (fgets_len (LINEBUF - 1) s) s))"
  by auto

lemma fgets_len_positive: "s \<noteq> [] \<Longrightarrow> 0 < fgets_len (LINEBUF - 1) s"
  by (cases s) (auto simp: LINEBUF_def numeral_eq_Suc)

termination file_lines
  by (relation "measure length") (use fgets_len_positive in auto)

declare file_lines.simps [simp del]

subsection \<open>The logger\<close>

record file_log =
  fl_name :: string
  fl_max :: u32
  fl_trimmed :: u32
  fl_count :: u32
  fl_stamp :: int
  fl_debug :: int
  fl_files :: "string \<rightharpoonup> string"
  fl_console :: string

text \<open>
  Whether \<open>fopen\<close> for appending, for reading an existing file and for the temporary file
  succeeds, whether \<open>fprintf\<close> of a line and \<open>fclose\<close> of the temporary file do, and the text of a
  time.
\<close>

record log_env =
  le_append :: bool
  le_read :: bool
  le_tmp :: bool
  le_put :: "string \<Rightarrow> bool"
  le_close :: bool
  le_stamp :: "int \<Rightarrow> string"

definition TMP :: string where "TMP = ''tmp.tmp''"

definition open_read :: "log_env \<Rightarrow> file_log \<Rightarrow> string option" where
  "open_read env l = (if le_read env then fl_files l (fl_name l) else None)"

definition console :: "string \<Rightarrow> file_log \<Rightarrow> file_log" where
  "console s l = l\<lparr>fl_console := fl_console l @ s\<rparr>"

definition is_debug :: "int \<Rightarrow> file_log \<Rightarrow> bool" where
  "is_debug level l \<longleftrightarrow> level \<le> fl_debug l"

definition set_debug :: "int \<Rightarrow> file_log \<Rightarrow> file_log" where
  "set_debug level l = l\<lparr>fl_debug := level\<rparr>"

definition count_lines :: "log_env \<Rightarrow> file_log \<Rightarrow> file_log" where
  "count_lines env l =
     l\<lparr>fl_count := (case open_read env l of None \<Rightarrow> 0 | Some s \<Rightarrow> of_nat (length (file_lines s)))\<rparr>"

definition file_logger_new :: "log_env \<Rightarrow> string \<Rightarrow> u32 \<Rightarrow> u32 \<Rightarrow> (string \<rightharpoonup> string) \<Rightarrow> file_log" where
  "file_logger_new env filename max_lines trimmed_lines files =
     (let m = (if max_lines < 500 then 500 else max_lines);
          t = (if trimmed_lines > m - 200 then m - 200 else trimmed_lines)
      in count_lines env
           \<lparr>fl_name = c_str filename, fl_max = m, fl_trimmed = t, fl_count = 0, fl_stamp = 0, fl_debug = 0,
            fl_files = files, fl_console = []\<rparr>)"

definition stamp_due :: "int \<Rightarrow> file_log \<Rightarrow> bool" where
  "stamp_due now l \<longleftrightarrow> fl_stamp l \<noteq> 0 \<and> now - fl_stamp l > 15 * 60"

definition stamp_line :: "log_env \<Rightarrow> int \<Rightarrow> string" where
  "stamp_line env now = le_stamp env now @ [LF]"

text \<open>Appending to the log; the file is made when it does not exist.\<close>

definition append_log :: "string \<Rightarrow> file_log \<Rightarrow> file_log" where
  "append_log s l =
     l\<lparr>fl_files := (fl_files l)(fl_name l \<mapsto> (case fl_files l (fl_name l) of None \<Rightarrow> s | Some old \<Rightarrow> old @ s))\<rparr>"

definition count_LF :: "string \<Rightarrow> nat" where
  "count_LF s = length (filter (\<lambda>c. c = LF) s)"

definition vprint :: "log_env \<Rightarrow> int \<Rightarrow> string \<Rightarrow> file_log \<Rightarrow> int \<times> file_log" where
  "vprint env now msg l0 =
     (let l1 = (if stamp_due now l0 then console (stamp_line env now) l0 else l0);
          l2 = console msg l1
      in (int (length msg),
          if le_append env
          then (let l3 = (if stamp_due now l2
                          then (append_log (stamp_line env now) l2)\<lparr>fl_count := fl_count l2 + 1, fl_stamp := now\<rparr> else l2);
                    l4 = append_log msg l3
                in l4\<lparr>fl_count := fl_count l4 + of_nat (count_LF msg)\<rparr>)
          else l2))"

subsection \<open>Finding lines\<close>

text \<open>
  \<open>find_line\<close> returns the position behind a number of file_lines; the loop counter is unsigned, and a
  position starts at 0.
\<close>

fun skip_lines :: "nat \<Rightarrow> string list \<Rightarrow> nat \<Rightarrow> nat" where
  "skip_lines (Suc n) (p # ps) pos = skip_lines n ps (pos + length p)"
| "skip_lines n ps pos = pos"

definition find_line :: "log_env \<Rightarrow> int \<Rightarrow> nat \<Rightarrow> file_log \<Rightarrow> nat" where
  "find_line env line from l =
     (case open_read env l of
        None \<Rightarrow> 0
      | Some s \<Rightarrow>
          (let n = unat (word_of_int line :: u32); ps = file_lines (drop from s)
           in if n = 0 \<or> ps = [] then 0 else skip_lines n ps from))"

text \<open>\<open>find_tail\<close> keeps a queue of positions; the front of an empty queue has no value.\<close>

fun tail_loop :: "u32 \<Rightarrow> string list \<Rightarrow> nat \<Rightarrow> nat list \<Rightarrow> nat list" where
  "tail_loop full [] pos ptrs = ptrs"
| "tail_loop full (p # ps) pos ptrs =
     tail_loop full ps (pos + length p)
       ((if of_nat (length ptrs) = full then tl ptrs else ptrs) @ [pos + length p])"

definition find_tail :: "log_env \<Rightarrow> int \<Rightarrow> file_log \<Rightarrow> nat option" where
  "find_tail env lines l =
     (case open_read env l of
        None \<Rightarrow> None
      | Some s \<Rightarrow> Some (hd (tail_loop (word_of_int (lines + 1)) (file_lines s) 0 [0])))"

subsection \<open>Trimming and printing\<close>

text \<open>The lines copied to the temporary file, the result of the writes and the number of lines.\<close>

fun copy_lines :: "log_env \<Rightarrow> string list \<Rightarrow> bool \<times> string \<times> nat" where
  "copy_lines env [] = (True, [], 0)"
| "copy_lines env (p # ps) =
     (let (ok, out, n) = copy_lines env ps
      in if le_put env (c_str p) then (ok, c_str p @ out, Suc n) else (False, out, Suc n))"

definition trim_message :: "u32 \<Rightarrow> nat \<Rightarrow> string" where
  "trim_message n m =
     ''Reduced log file from '' @ decimal (unat n) @ '' to '' @ decimal m @ '' lines'' @ [LF]"

text \<open>\<open>remove\<close> of the log and \<open>rename\<close> of the temporary file, which does nothing if there is none.\<close>

definition replace_file :: "string \<Rightarrow> (string \<rightharpoonup> string) \<Rightarrow> (string \<rightharpoonup> string)" where
  "replace_file name files =
     (let f = files(name := None)
      in case f TMP of None \<Rightarrow> f | Some s \<Rightarrow> (f(TMP := None))(name \<mapsto> s))"

definition trim_file :: "log_env \<Rightarrow> file_log \<Rightarrow> (bool \<times> file_log) option" where
  "trim_file env l =
     (case find_tail env (sint (fl_trimmed l)) l of
        None \<Rightarrow> None
      | Some pos \<Rightarrow>
          Some (if pos > 0
            then (case open_read env l of
                    None \<Rightarrow> (True, l)
                  | Some s \<Rightarrow>
                      (let (ret, l1, nl) =
                         (if le_tmp env
                          then (let (ok, out, n) = copy_lines env (file_lines (drop pos s))
                                in (ok \<and> le_close env, l\<lparr>fl_files := (fl_files l)(TMP \<mapsto> out)\<rparr>, n))
                          else (True, l, 0))
                       in (ret,
                           if ret
                           then (console (trim_message (fl_count l1) nl) l1)
                                  \<lparr>fl_files := replace_file (fl_name l1) (fl_files l1), fl_count := of_nat nl\<rparr>
                           else l1)))
            else (True, l)))"

definition trim_if_long :: "log_env \<Rightarrow> int \<times> file_log \<Rightarrow> (int \<times> file_log) option" where
  "trim_if_long env r =
     (if fl_count (snd r) > fl_max (snd r)
      then map_option (\<lambda>t. (fst r, snd t)) (trim_file env (snd r)) else Some r)"

definition log_print :: "log_env \<Rightarrow> int \<Rightarrow> string \<Rightarrow> file_log \<Rightarrow> (int \<times> file_log) option" where
  "log_print env now msg l = trim_if_long env (vprint env now msg l)"

definition print_debug :: "log_env \<Rightarrow> int \<Rightarrow> int \<Rightarrow> string \<Rightarrow> file_log \<Rightarrow> (int \<times> file_log) option" where
  "print_debug env level now msg l =
     (if is_debug level l then trim_if_long env (vprint env now msg l) else Some (0, l))"

definition print_error :: "log_env \<Rightarrow> int \<Rightarrow> string \<Rightarrow> file_log \<Rightarrow> int \<times> file_log" where
  "print_error env now msg l = vprint env now msg l"

definition print_timestamp :: "log_env \<Rightarrow> int \<Rightarrow> file_log \<Rightarrow> file_log" where
  "print_timestamp env now l =
     (if fl_stamp l \<noteq> 0
      then (let l1 = console (stamp_line env now) l
            in if le_append env
               then (append_log (stamp_line env now) l1)\<lparr>fl_count := fl_count l1 + 1, fl_stamp := now\<rparr> else l1)
      else l)"

definition initialize_timestamps :: "log_env \<Rightarrow> int \<Rightarrow> int \<Rightarrow> file_log \<Rightarrow> (int \<times> file_log) option" where
  "initialize_timestamps env now now2 l =
     log_print env now2 (''Time initialized at '' @ le_stamp env now @ [LF]) (l\<lparr>fl_stamp := now\<rparr>)"

section \<open>Pieces\<close>

lemma file_lines_Nil [simp]: "file_lines [] = []"
  by (subst file_lines.simps) simp

lemma fgets_len_bound: "fgets_len k s \<le> length s"
  by (induction k s rule: fgets_len.induct) auto

lemma file_lines_concat [simp]: "concat (file_lines s) = s"
proof (induction s rule: file_lines.induct)
  case (1 s)
  then show ?case by (subst file_lines.simps) simp
qed

lemma file_lines_nonempty: "p \<in> set (file_lines s) \<Longrightarrow> p \<noteq> []"
proof (induction s rule: file_lines.induct)
  case (1 s)
  from 1(2) have "s \<noteq> []" by auto
  with 1 fgets_len_positive [of s] show ?case by (subst (asm) (2) file_lines.simps) auto
qed

text \<open>A text that ends a line does not change how the text behind it is read.\<close>

lemma fgets_len_append: "a \<noteq> [] \<Longrightarrow> last a = LF \<Longrightarrow> fgets_len k (a @ b) = fgets_len k a"
proof (induction k a rule: fgets_len.induct)
  case (3 k c cs)
  then show ?case by (cases "cs = []") auto
qed auto

lemma last_drop_LF: "last a = LF \<Longrightarrow> n < length a \<Longrightarrow> last (drop n a) = LF"
  by simp

lemma file_lines_append: "a = [] \<or> last a = LF \<Longrightarrow> file_lines (a @ b) = file_lines a @ file_lines b"
proof (induction a rule: file_lines.induct)
  case (1 a)
  show ?case
  proof (cases "a = []")
    case False
    let ?n = "fgets_len (LINEBUF - 1) a"
    have n: "fgets_len (LINEBUF - 1) (a @ b) = ?n" using 1(2) False by (simp add: fgets_len_append)
    have b: "?n \<le> length a" by (rule fgets_len_bound)
    have "drop ?n a = [] \<or> last (drop ?n a) = LF" using 1(2) False by (cases "?n < length a") auto
    from 1(1) [OF False this]
    have "file_lines (drop ?n a @ b) = file_lines (drop ?n a) @ file_lines b" .
    then have "file_lines (a @ b) = take ?n a # file_lines (drop ?n a) @ file_lines b"
      using False b by (subst file_lines.simps) (simp add: n [unfolded One_nat_def])
    moreover have "file_lines a = take ?n a # file_lines (drop ?n a)" using False by (subst file_lines.simps) simp
    ultimately show ?thesis by simp
  qed simp
qed

text \<open>Pieces read again from a line's beginning.\<close>

lemma file_lines_drop: "file_lines (concat (drop k (file_lines s))) = drop k (file_lines s)"
proof (induction s arbitrary: k rule: file_lines.induct)
  case (1 s)
  show ?case
  proof (cases "s = [] \<or> k = 0")
    case False
    then obtain j where k: "k = Suc j" by (cases k) auto
    from False have "drop k (file_lines s) = drop j (file_lines (drop (fgets_len (LINEBUF - 1) s) s))"
      by (subst file_lines.simps) (simp add: k)
    with 1 False show ?thesis by simp
  qed auto
qed

text \<open>Texts of whole lines that fit the buffer.\<close>

definition whole_lines :: "string \<Rightarrow> bool" where
  "whole_lines s \<longleftrightarrow> (\<forall>p \<in> set (file_lines s). last p = LF) \<and> NUL \<notin> set s"




lemma whole_lines_Nil [simp]: "whole_lines []"
  by (simp add: whole_lines_def)






section \<open>Positions of lines\<close>

fun offsets :: "nat \<Rightarrow> string list \<Rightarrow> nat list" where
  "offsets pos [] = []"
| "offsets pos (p # ps) = (pos + length p) # offsets (pos + length p) ps"

lemma length_offsets [simp]: "length (offsets pos ps) = length ps"
  by (induction pos ps rule: offsets.induct) simp_all

lemma nth_offsets: "j \<le> length ps \<Longrightarrow> (pos # offsets pos ps) ! j = pos + length (concat (take j ps))"
proof (induction ps arbitrary: pos j)
  case (Cons p ps)
  then show ?case by (cases j) auto
qed simp

lemma tail_loop_queue:
  assumes "length ptrs \<le> Suc n" "ptrs \<noteq> []" "Suc n < 2 ^ 32"
  shows "tail_loop (of_nat (Suc n)) ps pos ptrs =
    drop (length ptrs + length ps - Suc n) (ptrs @ offsets pos ps)"
  using assms
proof (induction ps arbitrary: pos ptrs)
  case (Cons p ps)
  have eq: "of_nat (length ptrs) = (of_nat (Suc n) :: u32) \<longleftrightarrow> length ptrs = Suc n"
  proof
    assume "of_nat (length ptrs) = (of_nat (Suc n) :: u32)"
    then have "unat (of_nat (length ptrs) :: u32) = unat (of_nat (Suc n) :: u32)" by simp
    then show "length ptrs = Suc n"
      using Cons.prems by (simp add: unat_of_nat take_bit_nat_eq_self_iff del: of_nat_Suc)
  qed simp
  show ?case
  proof (cases "length ptrs = Suc n")
    case True
    have "length (tl ptrs @ [pos + length p]) = Suc n" using True by simp
    with Cons.IH [of "tl ptrs @ [pos + length p]" "pos + length p"] Cons.prems(2,3) True eq
    show ?thesis by (cases ptrs) (simp_all del: of_nat_Suc)
  next
    case False
    then have "length (ptrs @ [pos + length p]) \<le> Suc n" using Cons.prems(1) by simp
    with Cons.IH [of "ptrs @ [pos + length p]" "pos + length p"] Cons.prems(3) False eq
    show ?thesis by (simp del: of_nat_Suc)
  qed
qed simp

lemma find_tail_position:
  assumes "open_read env l = Some s" "Suc n < 2 ^ 31"
  shows "find_tail env (int n) l = Some (length (concat (take (length (file_lines s) - n) (file_lines s))))"
proof -
  let ?ps = "file_lines s"
  have w: "word_of_int (int n + 1) = (of_nat (Suc n) :: u32)" by simp
  have "tail_loop (of_nat (Suc n)) ?ps 0 [0] = drop (length ?ps - n) (0 # offsets 0 ?ps)"
    using tail_loop_queue [of "[0]" n ?ps 0] assms(2) by simp
  moreover have "hd (drop (length ?ps - n) (0 # offsets 0 ?ps)) = length (concat (take (length ?ps - n) ?ps))"
    using nth_offsets [of "length ?ps - n" ?ps 0] by (simp add: hd_drop_conv_nth)
  ultimately show ?thesis using assms(1) unfolding find_tail_def w by simp
qed

lemma drop_file_lines: "drop (length (concat (take k (file_lines s)))) s = concat (drop k (file_lines s))"
proof -
  have "s = concat (take k (file_lines s)) @ concat (drop k (file_lines s))"
    by (metis append_take_drop_id concat_append file_lines_concat)
  then show ?thesis by (metis append_eq_conv_conj)
qed

lemma skip_lines_position: "skip_lines n ps pos = pos + length (concat (take n ps))"
  by (induction n ps pos rule: skip_lines.induct) auto

section \<open>Trimming\<close>


lemma beginning_nonempty:
  assumes "0 < k" "file_lines s \<noteq> []"
  shows "0 < length (concat (take k (file_lines s)))"
proof -
  obtain p ps where ps: "take k (file_lines s) = p # ps" using assms by (cases "take k (file_lines s)") auto
  then have "p \<in> set (file_lines s)" by (metis in_set_takeD list.set_intros(1))
  then show ?thesis using file_lines_nonempty ps by auto
qed


lemma copy_lines_result: "copy_lines env ps = (ok, out, n) \<Longrightarrow> ok = (\<forall>p \<in> set ps. le_put env (c_str p)) \<and> n = length ps"
  by (induction ps arbitrary: ok out n) (auto simp: Let_def split: prod.splits if_splits)


section \<open>Printing\<close>





lemma fgets_len_line: "LF \<notin> set a \<Longrightarrow> length a < k \<Longrightarrow> fgets_len k (a @ LF # b) = Suc (length a)"
proof (induction a arbitrary: k)
  case Nil
  then show ?case by (cases k) auto
next
  case (Cons c a)
  then show ?case by (cases k) auto
qed

lemma file_lines_line:
  assumes "LF \<notin> set a" "length a < 132"
  shows "file_lines (a @ [LF]) = [a @ [LF]]"
proof -
  have "fgets_len (LINEBUF - Suc 0) (a @ [LF]) = Suc (length a)"
    using fgets_len_line [of a 132 "[]"] assms by (simp add: LINEBUF_def)
  then show ?thesis by (subst file_lines.simps) simp
qed






section \<open>Properties\<close>




definition calm_env :: "log_env" where
  "calm_env = \<lparr>le_append = True, le_read = True, le_tmp = True, le_put = (\<lambda>s. True), le_close = True,
     le_stamp = (\<lambda>t. ''time'')\<rparr>"


text \<open>C14: Trimming when something fails.  If a line cannot be written to the temporary file, or the
  file cannot be closed, \<open>trim_file\<close> returns false and leaves log and line count as they are.
  If the temporary file cannot be opened at all, it returns true, and the log is removed: its
  whole text is lost.\<close>

theorem trim_file_failures:
  assumes "le_read env" "fl_files l (fl_name l) = Some s" "fl_name l \<noteq> TMP"
    and "unat (fl_trimmed l) < 2 ^ 31 - 1" "unat (fl_trimmed l) < length (file_lines s)"
  defines "tail \<equiv> drop (length (file_lines s) - unat (fl_trimmed l)) (file_lines s)"
  shows "(le_tmp env \<and> (\<not> le_close env \<or> (\<exists>p \<in> set tail. \<not> le_put env (c_str p))) \<longrightarrow>
      (\<exists>l'. trim_file env l = Some (False, l') \<and> fl_files l' (fl_name l) = Some s \<and> fl_count l' = fl_count l)) \<and>
    (\<not> le_tmp env \<and> fl_files l TMP = None \<longrightarrow>
      (\<exists>l'. trim_file env l = Some (True, l') \<and> fl_files l' (fl_name l) = None \<and> fl_count l' = 0))"
proof -
  let ?k = "length (file_lines s) - unat (fl_trimmed l)"
  define pos where "pos = length (concat (take ?k (file_lines s)))"
  have o: "open_read env l = Some s" using assms(1,2) by (simp add: open_read_def)
  have "sint (fl_trimmed l) = int (unat (fl_trimmed l))" by (rule sint_unat) (use assms(4) in simp)
  then have ft: "find_tail env (sint (fl_trimmed l)) l = Some pos"
    using find_tail_position [OF o, of "unat (fl_trimmed l)"] assms(4) by (simp add: pos_def)
  have pos: "0 < pos" unfolding pos_def by (rule beginning_nonempty) (use assms(5) in auto)
  have d: "file_lines (drop pos s) = tail" unfolding pos_def drop_file_lines tail_def by (rule file_lines_drop)
  obtain ok out n where c: "copy_lines env tail = (ok, out, n)" by (cases "copy_lines env tail")
  have ok: "ok = (\<forall>p \<in> set tail. le_put env (c_str p))" using copy_lines_result [OF c] by simp
  show ?thesis
    using pos assms(2,3)
    by (auto simp: trim_file_def ft o d c ok Let_def replace_file_def console_def)
qed

theorem trim_file_failures_witness:
  "\<exists>l'. trim_file (calm_env\<lparr>le_tmp := False\<rparr>)
      (file_logger_new calm_env ''log'' 500 0 [''log'' \<mapsto> ''one'' @ [LF]]) = Some (True, l') \<and>
    fl_files l' ''log'' = None"
proof -
  define l where "l = file_logger_new calm_env ''log'' 500 0 [''log'' \<mapsto> ''one'' @ [LF]]"
  have l: "fl_name l = ''log''" "fl_files l = [''log'' \<mapsto> ''one'' @ [LF]]" "fl_trimmed l = 0"
    by (simp_all add: l_def file_logger_new_def count_lines_def c_str_def NUL_def)
  have "le_read (calm_env\<lparr>le_tmp := False\<rparr>)" "\<not> le_tmp (calm_env\<lparr>le_tmp := False\<rparr>)" by (simp_all add: calm_env_def)
  moreover have "file_lines (''one'' @ [LF]) = [''one'' @ [LF]]" by (rule file_lines_line) (simp_all add: LF_def)
  ultimately show ?thesis
    unfolding l_def [symmetric]
    using trim_file_failures [of "calm_env\<lparr>le_tmp := False\<rparr>" l "''one'' @ [LF]"] by (auto simp: l TMP_def)
qed

text \<open>\<open>find_line\<close> and \<open>find_tail\<close> cut the file where a reader of lines does: behind the position
  of \<open>find_line(n)\<close> lie all lines but the first \<open>n\<close>, behind that of \<open>find_tail(n)\<close> the last \<open>n\<close>
  and, read from there, the lines come out as in the whole file.\<close>

theorem log_positions:
  assumes "open_read env l = Some s" "0 < n" "Suc n < 2 ^ 31"
  shows "file_lines (drop (find_line env (int n) 0 l) s) = drop n (file_lines s) \<and>
    (\<exists>pos. find_tail env (int n) l = Some pos \<and> file_lines (drop pos s) = drop (length (file_lines s) - n) (file_lines s))"
proof -
  have u: "unat (word_of_int (int n) :: u32) = n" using assms(3) by (simp add: unat_of_nat take_bit_nat_eq_self_iff)
  have f: "find_line env (int n) 0 l = length (concat (take n (file_lines s)))"
    unfolding find_line_def u using assms(1,2) by (simp add: skip_lines_position Let_def)
  have "drop (find_line env (int n) 0 l) s = concat (drop n (file_lines s))" unfolding f by (rule drop_file_lines)
  then show ?thesis
    using find_tail_position [OF assms(1,3)] by (simp add: file_lines_drop drop_file_lines)
qed

theorem log_positions_witness:
  "find_line calm_env 1 0 (file_logger_new calm_env ''log'' 500 0 [''log'' \<mapsto> ''one'' @ [LF] @ ''two'' @ [LF]]) = 4 \<and>
   file_lines (drop 4 (''one'' @ [LF] @ ''two'' @ [LF])) = [''two'' @ [LF]]"
proof -
  let ?l = "file_logger_new calm_env ''log'' 500 0 [''log'' \<mapsto> ''one'' @ [LF] @ ''two'' @ [LF]]"
  have l: "open_read calm_env ?l = Some ((''one'' @ [LF]) @ ''two'' @ [LF])"
    by (simp add: file_logger_new_def count_lines_def open_read_def calm_env_def c_str_def NUL_def)
  have one: "file_lines (''one'' @ [LF]) = [''one'' @ [LF]]" "file_lines (''two'' @ [LF]) = [''two'' @ [LF]]"
    by (rule file_lines_line; simp add: LF_def)+
  have p: "file_lines ((''one'' @ [LF]) @ ''two'' @ [LF]) = [''one'' @ [LF], ''two'' @ [LF]]"
    by (subst file_lines_append) (simp_all only: one, simp_all)
  have f: "find_line calm_env 1 0 ?l = 4" using l p by (simp add: find_line_def numeral_eq_Suc)
  have "file_lines (drop (find_line calm_env (int 1) 0 ?l) ((''one'' @ [LF]) @ ''two'' @ [LF])) = [''two'' @ [LF]]"
    using log_positions [OF l, of 1] unfolding p by simp
  with f show ?thesis by simp
qed

end
