(* ===== verification/Led.thy ===== *)
theory Led
  imports Cpp_String
begin

text \<open>
  \<open>LED\<close> (\<open>util/led.h\<close>, \<open>util/led.cpp\<close>): a light that is steady or shows a bit pattern, one bit
  per period of an alarm.

  \<open>board\<close> is the pin of the on-board LED, or \<open>None\<close> where it hangs on the wireless chip (the
  build option \<open>CYW43_WL_GPIO_LED_PIN\<close>).  The alarm pool is a parameter, as for the infrared
  classes.  What C++ leaves undefined has no result.
\<close>

unbundle bit_operations_syntax

section \<open>Definitions\<close>

datatype LED_call =
    LED_gpio_init u32
  | LED_gpio_deinit u32
  | LED_add_alarm int int
  | LED_cancel_alarm int

record LED =
  ld_gpio :: u32
  ld_period :: u32
  ld_pattern :: u32
  ld_bits :: u32
  ld_index :: u32
  ld_flasher :: int
  ld_on :: bool
  ld_calls :: "LED_call list"

type_synonym LED_pool = "LED_call list \<Rightarrow> int"

definition NO_GPIO :: u32 where "NO_GPIO = -1"

definition LED_emit :: "LED_call \<Rightarrow> LED \<Rightarrow> LED" where
  "LED_emit c s = s\<lparr>ld_calls := ld_calls s @ [c]\<rparr>"

text \<open>Without the wireless chip there is nothing behind \<open>NO_GPIO\<close>.\<close>

definition LED_get_led :: "u32 option \<Rightarrow> LED \<Rightarrow> bool" where
  "LED_get_led board s = (if ld_gpio s = NO_GPIO then board = None \<and> ld_on s else ld_on s)"

definition LED_set_led :: "u32 option \<Rightarrow> bool \<Rightarrow> LED \<Rightarrow> LED" where
  "LED_set_led board state s =
     (if ld_gpio s = NO_GPIO then (if board = None then s\<lparr>ld_on := state\<rparr> else s) else s\<lparr>ld_on := state\<rparr>)"

definition LED_fresh :: "u32 \<Rightarrow> LED" where
  "LED_fresh gpio = \<lparr>ld_gpio = gpio, ld_period = 0, ld_pattern = 1, ld_bits = 2, ld_index = 0,
     ld_flasher = -1, ld_on = False, ld_calls = []\<rparr>"

definition LED_new :: "u32 option \<Rightarrow> u32 \<Rightarrow> bool \<Rightarrow> LED" where
  "LED_new board gpio state = LED_set_led board state (LED_emit (LED_gpio_init gpio) (LED_fresh gpio))"

text \<open>\<open>strtoul\<close> with base 10.\<close>

definition strtoul :: "string \<Rightarrow> u32" where
  "strtoul str =
     (let t = dropWhile (\<lambda>c. c = CHR '' '' \<or> (9 \<le> (of_char c :: nat) \<and> (of_char c :: nat) \<le> 13)) (c_str str);
          neg = (t \<noteq> [] \<and> hd t = CHR ''-'');
          n = read_digits (if t \<noteq> [] \<and> (hd t = CHR ''-'' \<or> hd t = CHR ''+'') then tl t else t)
      in if n \<ge> 2 ^ 32 then -1 else if neg then - of_nat n else of_nat n)"

definition LED_new_named :: "u32 option \<Rightarrow> string \<Rightarrow> bool \<Rightarrow> LED" where
  "LED_new_named board name state =
     LED_set_led board state
       (if strcasecmp_eq name ''led''
        then (case board of
                None \<Rightarrow> LED_fresh NO_GPIO
              | Some pin \<Rightarrow> LED_emit (LED_gpio_init pin) (LED_fresh pin))
        else LED_emit (LED_gpio_init (strtoul name)) (LED_fresh (strtoul name)))"

definition LED_destroy :: "LED \<Rightarrow> LED" where
  "LED_destroy s = (if ld_gpio s \<noteq> NO_GPIO then LED_emit (LED_gpio_deinit (ld_gpio s)) s else s)"

text \<open>A shift by the width of the word or more is undefined.\<close>

definition LED_check_flash :: "u32 option \<Rightarrow> LED \<Rightarrow> (bool \<times> LED) option" where
  "LED_check_flash board s =
     (let sh = unat (32 - ld_bits s)
      in if sh \<ge> 32 then None
         else (let mask = drop_bit sh (-1); pat = ld_pattern s AND mask
               in Some (if pat = 0 then (False, LED_set_led board False s)
                        else if pat = mask then (False, LED_set_led board True s)
                        else (True, s))))"

definition LED_set_flash :: "u32 option \<Rightarrow> LED_pool \<Rightarrow> u32 \<Rightarrow> LED \<Rightarrow> (bool \<times> LED) option" where
  "LED_set_flash board pool period s0 =
     (let s1 = s0\<lparr>ld_period := period\<rparr>;
          s2 = (if ld_index s1 \<ge> ld_bits s1 then s1\<lparr>ld_index := 0\<rparr> else s1)
      in case LED_check_flash board s2 of
           None \<Rightarrow> None
         | Some (check, s) \<Rightarrow>
             Some (if check \<and> ld_period s \<noteq> 0 \<and> ld_period s > ld_bits s
               then (True,
                 if ld_flasher s = -1
                 then (let id = pool (ld_calls s)
                       in (LED_emit (LED_add_alarm (uint (ld_period s div ld_bits s)) id) s)\<lparr>ld_flasher := id\<rparr>)
                 else s)
               else (False,
                 if ld_flasher s \<noteq> -1
                 then (LED_emit (LED_cancel_alarm (ld_flasher s)) s)\<lparr>ld_flasher := -1\<rparr>
                 else s)))"

definition LED_set_flash_pattern :: "u32 option \<Rightarrow> LED_pool \<Rightarrow> u32 \<Rightarrow> u32 \<Rightarrow> LED \<Rightarrow> (bool \<times> LED) option" where
  "LED_set_flash_pattern board pool pattern bits s =
     LED_set_flash board pool (ld_period s) (s\<lparr>ld_pattern := pattern, ld_bits := bits\<rparr>)"

definition LED_set_flash_period :: "u32 \<Rightarrow> LED \<Rightarrow> LED" where
  "LED_set_flash_period period s = s\<lparr>ld_period := period\<rparr>"

definition LED_set_state :: "u32 option \<Rightarrow> bool \<Rightarrow> LED \<Rightarrow> LED" where
  "LED_set_state board state s = LED_set_led board state (s\<lparr>ld_period := 0\<rparr>)"

definition LED_do_timer :: "u32 option \<Rightarrow> LED \<Rightarrow> (int \<times> LED) option" where
  "LED_do_timer board s =
     (if ld_period s > 0
      then (if ld_bits s = 0 \<or> unat (ld_index s) \<ge> 32 then None
            else (let ret = uint (ld_period s div ld_bits s);
                      s1 = LED_set_led board ((ld_pattern s AND push_bit (unat (ld_index s)) 1) \<noteq> 0) s;
                      s2 = s1\<lparr>ld_index := ld_index s1 + 1\<rparr>;
                      s3 = (if ld_index s2 \<ge> ld_bits s2 then s2\<lparr>ld_index := 0\<rparr> else s2)
                  in Some (ret, if ret = 0 then s3\<lparr>ld_flasher := -1\<rparr> else s3)))
      else Some (0, s\<lparr>ld_flasher := -1\<rparr>))"

text \<open>The value returned to the alarm pool, negative for a delay from the time the alarm was due.\<close>

definition LED_timer_cb :: "u32 option \<Rightarrow> LED \<Rightarrow> (int \<times> LED) option" where
  "LED_timer_cb board s = map_option (\<lambda>r. (fst r * -1000, snd r)) (LED_do_timer board s)"

section \<open>The pattern\<close>

text \<open>The first \<open>n\<close> callbacks: what each shows and returns.\<close>

fun LED_ticks :: "u32 option \<Rightarrow> nat \<Rightarrow> LED \<Rightarrow> ((bool \<times> int) list \<times> LED) option" where
  "LED_ticks board 0 s = Some ([], s)"
| "LED_ticks board (Suc n) s =
     (case LED_timer_cb board s of
        None \<Rightarrow> None
      | Some (d, s1) \<Rightarrow>
          map_option (\<lambda>r. ((LED_get_led board s1, d) # fst r, snd r)) (LED_ticks board n s1))"

text \<open>A pin that exists, and a pattern of one to 32 bits.\<close>

definition LED_wired :: "u32 option \<Rightarrow> LED \<Rightarrow> bool" where
  "LED_wired board s \<longleftrightarrow> ld_gpio s = NO_GPIO \<longrightarrow> board = None"

lemma LED_set_get:
  "LED_wired board s \<Longrightarrow> LED_set_led board v s = s\<lparr>ld_on := v\<rparr>"
  "LED_wired board s \<Longrightarrow> LED_get_led board s = ld_on s"
  by (auto simp: LED_set_led_def LED_get_led_def LED_wired_def)

lemma pattern_bit: "(p AND push_bit n 1 \<noteq> 0) = bit p n" if "n < 32" for p :: u32
proof
  assume "bit p n"
  then have "bit (p AND push_bit n 1) n" using that by (simp add: bit_simps)
  then show "p AND push_bit n 1 \<noteq> 0" by auto
next
  assume "p AND push_bit n 1 \<noteq> 0"
  then obtain i where "bit (p AND push_bit n 1) i" by (metis bit_0_eq bot_apply bot_bool_def bit_eq_iff)
  then show "bit p n" by (auto simp: bit_simps)
qed

lemma mask_bits:
  assumes "0 < unat b" "unat (b :: u32) \<le> 32"
  shows "unat (32 - b) = 32 - unat b" and "drop_bit (32 - unat b) (-1 :: u32) = mask (unat b)"
proof -
  have "b \<le> 32" using assms(2) by (simp add: word_le_nat_alt)
  then show "unat (32 - b) = 32 - unat b" by (simp add: unat_sub)
  show "drop_bit (32 - unat b) (-1 :: u32) = mask (unat b)"
    by (rule bit_word_eqI) (use assms in \<open>auto simp: bit_simps\<close>)
qed

text \<open>One callback advances the index, cyclically.\<close>

lemma LED_timer_step:
  assumes "LED_wired board s" "0 < unat (ld_bits s)" "unat (ld_bits s) \<le> 32"
    and "unat (ld_index s) < unat (ld_bits s)" "ld_bits s < ld_period s"
  shows "LED_timer_cb board s =
    Some (- 1000 * int (unat (ld_period s) div unat (ld_bits s)),
      s\<lparr>ld_on := bit (ld_pattern s) (unat (ld_index s)),
        ld_index := of_nat ((unat (ld_index s) + 1) mod unat (ld_bits s))\<rparr>)"
proof -
  let ?i = "unat (ld_index s)" and ?b = "unat (ld_bits s)"
  have p: "0 < ld_period s" using assms(5) by (simp add: word_less_nat_alt)
  have q: "uint (ld_period s div ld_bits s) = int (unat (ld_period s) div ?b)"
    by (simp add: uint_div zdiv_int)
  have "?b \<le> unat (ld_period s)" using assms(5) by (simp add: word_less_nat_alt)
  then have nz: "0 < unat (ld_period s) div ?b" using assms(2) by (simp add: div_greater_zero_iff)
  have u: "unat (ld_index s + 1) = ?i + 1"
    using assms(3,4) by (simp add: unat_plus_if')
  have ix: "(if ld_index s + 1 \<ge> ld_bits s then 0 else ld_index s + 1) = of_nat ((?i + 1) mod ?b)"
  proof (cases "?i + 1 = ?b")
    case True
    then show ?thesis using u by (simp add: word_le_nat_alt)
  next
    case False
    then have "?i + 1 < ?b" using assms(4) by simp
    then show ?thesis using u by (simp add: word_le_nat_alt)
  qed
  have "ld_bits s \<noteq> 0" "\<not> 32 \<le> ?i" using assms(2-4) by auto
  then have "LED_do_timer board s = Some (int (unat (ld_period s) div ?b),
      s\<lparr>ld_on := bit (ld_pattern s) ?i, ld_index := of_nat ((?i + 1) mod ?b)\<rparr>)"
    using p nz ix pattern_bit [of ?i "ld_pattern s"] assms(1)
    by (auto simp: LED_do_timer_def LED_set_get Let_def q)
  then show ?thesis by (simp add: LED_timer_cb_def)
qed

lemma LED_ticks_pattern:
  assumes "LED_wired board s" "0 < unat (ld_bits s)" "unat (ld_bits s) \<le> 32"
    and "unat (ld_index s) < unat (ld_bits s)" "ld_bits s < ld_period s"
  shows "\<exists>t. LED_ticks board n s =
      Some (map (\<lambda>i. (bit (ld_pattern s) ((unat (ld_index s) + i) mod unat (ld_bits s)),
                     - 1000 * int (unat (ld_period s) div unat (ld_bits s)))) [0..<n], t) \<and>
    ld_flasher t = ld_flasher s \<and> ld_calls t = ld_calls s"
  using assms
proof (induction n arbitrary: s)
  case (Suc n)
  let ?i = "unat (ld_index s)" and ?b = "unat (ld_bits s)"
  define s1 where "s1 = s\<lparr>ld_on := bit (ld_pattern s) ?i, ld_index := of_nat ((?i + 1) mod ?b)\<rparr>"
  have lt: "(?i + 1) mod ?b < ?b" using Suc.prems(2) by simp
  then have u: "unat (ld_index s1) = (?i + 1) mod ?b"
    using Suc.prems(3) by (simp add: s1_def unat_of_nat take_bit_nat_eq_self_iff)
  have w: "LED_wired board s1" using Suc.prems(1) by (simp add: LED_wired_def s1_def)
  obtain t where t: "LED_ticks board n s1 =
      Some (map (\<lambda>i. (bit (ld_pattern s) ((unat (ld_index s1) + i) mod ?b),
                     - 1000 * int (unat (ld_period s) div ?b))) [0..<n], t)"
    "ld_flasher t = ld_flasher s" "ld_calls t = ld_calls s"
    using Suc.IH [OF w] Suc.prems lt u by (auto simp: s1_def)
  have step: "LED_timer_cb board s = Some (- 1000 * int (unat (ld_period s) div ?b), s1)"
    unfolding s1_def by (rule LED_timer_step [OF Suc.prems])
  have "LED_ticks board (Suc n) s =
      Some ((bit (ld_pattern s) ?i, - 1000 * int (unat (ld_period s) div ?b)) #
        map (\<lambda>i. (bit (ld_pattern s) (((?i + 1) mod ?b + i) mod ?b),
                 - 1000 * int (unat (ld_period s) div ?b))) [0..<n], t)"
    using step t(1) LED_set_get(2) [OF w] by (simp add: u) (simp add: s1_def)
  also have "\<dots> = Some (map (\<lambda>i. (bit (ld_pattern s) ((?i + i) mod ?b),
      - 1000 * int (unat (ld_period s) div ?b))) [0..<Suc n], t)"
    using Suc.prems(4) by (simp add: upt_conv_Cons map_Suc_upt [symmetric] mod_simps del: upt_Suc)
  finally show ?case using t(2,3) by blast
qed simp

section \<open>Properties\<close>

lemma LED_check_flash_eq:
  assumes "LED_wired board s" "0 < unat (ld_bits s)" "unat (ld_bits s) \<le> 32"
  shows "LED_check_flash board s =
    Some (if take_bit (unat (ld_bits s)) (ld_pattern s) = 0 then (False, s\<lparr>ld_on := False\<rparr>)
          else if take_bit (unat (ld_bits s)) (ld_pattern s) = mask (unat (ld_bits s)) then (False, s\<lparr>ld_on := True\<rparr>)
          else (True, s))"
  using mask_bits [OF assms(2,3)] LED_set_get(1) [OF assms(1)] assms(2,3)
  by (simp add: LED_check_flash_def Let_def flip: take_bit_eq_mask)

text \<open>C28: A pattern of up to 32 bits that is not constant flashes: \<open>setFlashPattern\<close> starts the alarm
  unless it runs, one bit per period divided by the number of bits, and the callbacks show the
  bits of the pattern in order, lowest first, over and over, at equal intervals.  It returns
  true whatever the alarm pool answered.\<close>

theorem LED_flashes:
  assumes "LED_wired board s" "0 < unat bits" "unat bits \<le> 32" "bits < ld_period s"
    and "take_bit (unat bits) pattern \<noteq> 0" "take_bit (unat bits) pattern \<noteq> mask (unat bits)"
  defines "i0 \<equiv> if unat (ld_index s) < unat bits then unat (ld_index s) else 0"
    and "step \<equiv> int (unat (ld_period s) div unat bits)"
  shows "\<exists>s1. LED_set_flash_pattern board pool pattern bits s = Some (True, s1) \<and>
    ld_flasher s1 = (if ld_flasher s = -1 then pool (ld_calls s) else ld_flasher s) \<and>
    ld_calls s1 = ld_calls s @ (if ld_flasher s = -1 then [LED_add_alarm step (pool (ld_calls s))] else []) \<and>
    (\<forall>n. \<exists>t. LED_ticks board n s1 =
      Some (map (\<lambda>i. (bit pattern ((i0 + i) mod unat bits), - 1000 * step)) [0..<n], t))"
proof -
  define s2 where "s2 = s\<lparr>ld_pattern := pattern, ld_bits := bits, ld_index := of_nat i0\<rparr>"
  have i0: "i0 < unat bits" using assms(2) by (simp add: i0_def)
  have u: "unat (ld_index s2) = i0"
    using i0 assms(3) by (simp add: s2_def unat_of_nat take_bit_nat_eq_self_iff)
  have w: "LED_wired board s2" using assms(1) by (simp add: LED_wired_def s2_def)
  have c: "LED_check_flash board s2 = Some (True, s2)"
    using LED_check_flash_eq [OF w] assms(2,3,5,6) by (simp add: s2_def)
  have pos: "ld_period s \<noteq> 0" using assms(4) by auto
  have idx: "(if ld_index s \<ge> bits then s\<lparr>ld_pattern := pattern, ld_bits := bits, ld_index := 0\<rparr>
              else s\<lparr>ld_pattern := pattern, ld_bits := bits\<rparr>) = s2"
    by (simp add: s2_def i0_def word_le_nat_alt not_le)
  have q: "uint (ld_period s div bits) = step" by (simp add: step_def uint_div zdiv_int)
  define s1 where "s1 = (if ld_flasher s = -1
      then (LED_emit (LED_add_alarm step (pool (ld_calls s))) s2)\<lparr>ld_flasher := pool (ld_calls s)\<rparr> else s2)"
  have r: "LED_set_flash_pattern board pool pattern bits s = Some (True, s1)"
    using c idx pos assms(4)
    by (auto simp: LED_set_flash_pattern_def LED_set_flash_def Let_def s1_def s2_def q split: if_splits)
  have t: "\<exists>t. LED_ticks board n s1 =
      Some (map (\<lambda>i. (bit pattern ((i0 + i) mod unat bits), - 1000 * step)) [0..<n], t)" for n
    using LED_ticks_pattern [of board s1 n] w u i0 assms(2-4)
    by (auto simp: s1_def LED_emit_def LED_wired_def step_def s2_def)
  show ?thesis
    using r t by (intro exI [of _ s1]) (auto simp: s1_def s2_def LED_emit_def)
qed

theorem LED_flashes_witness:
  "\<exists>s1. LED_set_flash_pattern None (\<lambda>cs. 1) 5 4 (LED_set_flash_period 1000 (LED_new None 15 False)) = Some (True, s1) \<and>
     map_option fst (LED_ticks None 5 s1) = Some [(True, -250000), (False, -250000), (True, -250000), (False, -250000), (True, -250000)]"
proof -
  let ?s = "LED_set_flash_period 1000 (LED_new None 15 False)"
  have s: "ld_period ?s = 1000" "ld_index ?s = 0" "LED_wired None ?s"
    by (simp_all add: LED_set_flash_period_def LED_new_def LED_set_led_def LED_emit_def LED_fresh_def NO_GPIO_def LED_wired_def)
  have t: "take_bit 4 (5 :: u32) = 5" "mask 4 = (15 :: u32)" by (simp_all add: take_bit_eq_mod mask_eq_exp_minus_1)
  from LED_flashes [OF s(3), of 4 5 "\<lambda>cs. 1"] obtain s1 where
    r: "LED_set_flash_pattern None (\<lambda>cs. 1) 5 4 ?s = Some (True, s1)" and
    n: "\<And>n. \<exists>t. LED_ticks None n s1 = Some (map (\<lambda>i. (bit (5 :: u32) ((0 + i) mod 4), - 1000 * 250)) [0..<n], t)"
    by (auto simp: s t)
  have "bit (5 :: u32) 0" "\<not> bit (5 :: u32) (Suc 0)" "bit (5 :: u32) 2" "\<not> bit (5 :: u32) 3"
    by (simp_all add: bit_numeral_rec)
  with r n [of 5] show ?thesis by (auto simp: upt_rec)
qed

text \<open>A steady light: a pattern of zeros, or of ones, leaves the LED off, or on, and no alarm
  pending, and \<open>setState\<close> sets the LED at once; when an alarm is pending then, its next callback
  leaves the LED alone and is the last.\<close>

theorem LED_steady:
  assumes "LED_wired board s" "0 < unat bits" "unat bits \<le> 32"
    and "take_bit (unat bits) pattern = (if on then mask (unat bits) else 0)"
  shows "(\<exists>s1. LED_set_flash_pattern board pool pattern bits s = Some (False, s1) \<and>
      LED_get_led board s1 = on \<and> ld_flasher s1 = -1 \<and>
      ld_calls s1 = ld_calls s @ (if ld_flasher s = -1 then [] else [LED_cancel_alarm (ld_flasher s)])) \<and>
    LED_get_led board (LED_set_state board on s) = on \<and>
    (\<exists>s2. LED_timer_cb board (LED_set_state board on s) = Some (0, s2) \<and> LED_get_led board s2 = on \<and> ld_flasher s2 = -1)"
proof -
  have m: "mask (unat bits) \<noteq> (0 :: u32)" using assms(2,3) by (simp add: mask_eq_0_iff)
  define s2 where "s2 = (if ld_index s \<ge> bits then s\<lparr>ld_pattern := pattern, ld_bits := bits, ld_index := 0\<rparr>
              else s\<lparr>ld_pattern := pattern, ld_bits := bits\<rparr>)"
  have f: "ld_pattern s2 = pattern" "ld_bits s2 = bits" "ld_flasher s2 = ld_flasher s" "ld_calls s2 = ld_calls s"
    by (simp_all add: s2_def)
  have w: "LED_wired board s2" using assms(1) by (simp add: LED_wired_def s2_def)
  have c: "LED_check_flash board s2 = Some (False, s2\<lparr>ld_on := on\<rparr>)"
    using LED_check_flash_eq [OF w] assms(2-4) m f by simp
  have "LED_set_flash_pattern board pool pattern bits s =
      Some (False, if ld_flasher s \<noteq> -1
        then (LED_emit (LED_cancel_alarm (ld_flasher s)) (s2\<lparr>ld_on := on\<rparr>))\<lparr>ld_flasher := -1\<rparr> else s2\<lparr>ld_on := on\<rparr>)"
    using c f by (simp add: LED_set_flash_pattern_def LED_set_flash_def Let_def s2_def [symmetric])
  then show ?thesis
    using w f LED_set_get(1) [OF assms(1)] assms(1)
    by (auto simp: LED_get_led_def LED_wired_def LED_emit_def LED_set_state_def LED_timer_cb_def LED_do_timer_def LED_set_led_def)
qed

theorem LED_steady_witness:
  "\<exists>s1. LED_set_flash_pattern None (\<lambda>cs. 1) 7 3 (LED_new None 15 False) = Some (False, s1) \<and> LED_get_led None s1"
proof -
  have "LED_wired None (LED_new None 15 False)"
    by (simp add: LED_new_def LED_set_led_def LED_emit_def LED_fresh_def NO_GPIO_def LED_wired_def)
  moreover have "take_bit 3 (7 :: u32) = mask 3" by (simp add: take_bit_eq_mod mask_eq_exp_minus_1)
  ultimately show ?thesis using LED_steady [of None "LED_new None 15 False" 3 7 True "\<lambda>cs. 1"] by auto
qed

end
