(* ===== verification/Dbg_Flag.thy ===== *)
theory Dbg_Flag
  imports Cpp_String
begin

text \<open>
  \<open>DBGFlag\<close> (\<open>util/dbgflag.h\<close>, \<open>util/dbgflag.cpp\<close>): debug flags that are set from the console, and
  the time printed with log output.

  The characters available are an argument of the callback, as is the clock; what is printed is
  recorded.
\<close>

unbundle bit_operations_syntax

section \<open>Definitions\<close>

datatype dbg_output = Dbg_set u32 | Dbg_added u32 u32 | Dbg_removed u32 u32 | Dbg_invalid char

record dbg_flags =
  df_start :: u64
  df_flags :: u32
  df_bufptr :: u16
  df_buf :: string
  df_enabled :: bool
  df_output :: "dbg_output list"

text \<open>The static members; \<open>buf_\<close> has 32 bytes.\<close>

definition DBG_BUF :: nat where "DBG_BUF = 32"

definition dbg_init :: dbg_flags where
  "dbg_init = \<lparr>df_start = 0, df_flags = 0, df_bufptr = 0, df_buf = replicate DBG_BUF NUL,
     df_enabled = False, df_output = []\<rparr>"

definition dbg_enable :: "u64 \<Rightarrow> u32 \<Rightarrow> dbg_flags \<Rightarrow> dbg_flags" where
  "dbg_enable now init_flags d =
     d\<lparr>df_start := now, df_flags := init_flags, df_bufptr := 0, df_enabled := True\<rparr>"

definition dbg_disable :: "dbg_flags \<Rightarrow> dbg_flags" where
  "dbg_disable d = d\<lparr>df_flags := 0, df_bufptr := 0, df_enabled := False\<rparr>"

definition dbg_is_set :: "u32 \<Rightarrow> dbg_flags \<Rightarrow> bool" where
  "dbg_is_set msk d \<longleftrightarrow> msk AND df_flags d \<noteq> 0"

text \<open>The digits of the \<open>switch\<close>, after \<open>tolower\<close>.\<close>

definition dbg_digit :: "char \<Rightarrow> u32 option" where
  "dbg_digit c =
     (let n = of_char c :: nat
      in if 48 \<le> n \<and> n \<le> 57 then Some (of_nat (n - 48))
         else if 97 \<le> n \<and> n \<le> 102 then Some (of_nat (n - 97 + 10))
         else None)"

text \<open>The loop over the buffer: the mask, or the character that is no digit.\<close>

fun dbg_mask :: "string \<Rightarrow> u32 \<Rightarrow> char + u32" where
  "dbg_mask [] msk = Inr msk"
| "dbg_mask (c # cs) msk =
     (case dbg_digit (to_lower c) of
        Some v \<Rightarrow> dbg_mask cs (push_bit 4 msk OR v)
      | None \<Rightarrow> Inl (to_lower c))"

definition dbg_return :: "dbg_flags \<Rightarrow> dbg_flags" where
  "dbg_return d =
     (let line = take (unat (df_bufptr d)) (df_buf d);
          (cmdch, rest) =
            (if hd line = CHR ''='' \<or> hd line = CHR ''+'' \<or> hd line = CHR ''-'' then (hd line, tl line)
             else (CHR ''='', line));
          d1 =
            (if df_bufptr d > 0
             then (case dbg_mask rest 0 of
                     Inl c \<Rightarrow> d\<lparr>df_output := df_output d @ [Dbg_invalid c]\<rparr>
                   | Inr msk \<Rightarrow>
                       if cmdch = CHR ''='' then d\<lparr>df_flags := msk, df_output := df_output d @ [Dbg_set msk]\<rparr>
                       else if cmdch = CHR ''+''
                       then (let f = df_flags d OR msk in d\<lparr>df_flags := f, df_output := df_output d @ [Dbg_added msk f]\<rparr>)
                       else (let f = df_flags d AND NOT msk in d\<lparr>df_flags := f, df_output := df_output d @ [Dbg_removed msk f]\<rparr>))
             else d)
      in d1\<lparr>df_bufptr := 0\<rparr>)"

definition BACKSPACE :: char where "BACKSPACE = CHR 0x08"

definition dbg_char :: "char \<Rightarrow> dbg_flags \<Rightarrow> dbg_flags" where
  "dbg_char ch d =
     (if ch = CR then dbg_return d
      else if ch = BACKSPACE then (if df_bufptr d > 0 then d\<lparr>df_bufptr := df_bufptr d - 1\<rparr> else d)
      else if unat (df_bufptr d) < DBG_BUF
      then d\<lparr>df_buf := (df_buf d)[unat (df_bufptr d) := ch], df_bufptr := df_bufptr d + 1\<rparr>
      else d)"

fun dbg_char_avail :: "string \<Rightarrow> dbg_flags \<Rightarrow> dbg_flags" where
  "dbg_char_avail [] d = d"
| "dbg_char_avail (ch # chs) d = dbg_char_avail chs (dbg_char ch d)"

text \<open>\<open>logTime\<close>: hours, minutes and seconds; the seconds since the start are taken modulo \<open>2^32\<close>.\<close>

definition dbg_log_time :: "u64 \<Rightarrow> dbg_flags \<Rightarrow> u32 \<times> u32 \<times> u32" where
  "dbg_log_time time d =
     (let now = ucast ((time - df_start d + 500000) div 1000000) :: u32
      in (now div 3600, now mod 3600 div 60, now mod 60))"

definition dbg_reset_start_time :: "u64 \<Rightarrow> dbg_flags \<Rightarrow> dbg_flags" where
  "dbg_reset_start_time now d = d\<lparr>df_start := now\<rparr>"

section \<open>The commands\<close>

text \<open>
  What a line means: a sign and a hexadecimal number.  The number is the ordinary one, of any
  length; \<open>edited\<close> is the line a sequence of keys leaves.
\<close>

definition hex_digit :: "char \<Rightarrow> bool" where
  "hex_digit c \<longleftrightarrow>
     (let n = of_char c :: nat in 48 \<le> n \<and> n \<le> 57 \<or> 65 \<le> n \<and> n \<le> 70 \<or> 97 \<le> n \<and> n \<le> 102)"

definition hex_digit_value :: "char \<Rightarrow> nat" where
  "hex_digit_value c =
     (let n = of_char c :: nat in if n \<le> 57 then n - 48 else if n \<le> 70 then n - 55 else n - 87)"

definition hex_number :: "string \<Rightarrow> nat" where
  "hex_number s = foldl (\<lambda>n c. 16 * n + hex_digit_value c) 0 s"

definition signed_line :: "string \<Rightarrow> bool" where
  "signed_line s \<longleftrightarrow> s \<noteq> [] \<and> hd s \<in> set ''=+-''"

definition command :: "string \<Rightarrow> u32 \<Rightarrow> u32" where
  "command s f =
     (let digits = (if signed_line s then tl s else s); n = of_nat (hex_number digits)
      in if s = [] \<or> (\<exists>c \<in> set digits. \<not> hex_digit c) then f
         else if signed_line s \<and> hd s = CHR ''+'' then f OR n
         else if signed_line s \<and> hd s = CHR ''-'' then f AND NOT n
         else n)"

definition edit :: "char \<Rightarrow> string \<Rightarrow> string" where
  "edit c s = (if c = BACKSPACE then butlast s else if length s < DBG_BUF then s @ [c] else s)"

definition edited :: "string \<Rightarrow> string \<Rightarrow> string" where
  "edited keys s = fold edit keys s"

lemma dbg_digit_hex: "dbg_digit (to_lower c) = (if hex_digit c then Some (of_nat (hex_digit_value c)) else None)"
proof -
  define n where "n = (of_char c :: nat)"
  have lower: "of_char (to_lower c) = (if 65 \<le> n \<and> n \<le> 90 then n + 32 else n)"
    by (simp add: to_lower_def n_def Let_def)
  have "n + 32 - 97 + 10 = n - 55" if "65 \<le> n" using that by simp
  moreover have "n - 97 + 10 = n - 87" if "97 \<le> n" using that by simp
  ultimately show ?thesis
    unfolding dbg_digit_def lower hex_digit_def hex_digit_value_def n_def [symmetric] Let_def
    by (auto split: if_splits)
qed

lemma hex_digit_value_bound: "hex_digit c \<Longrightarrow> hex_digit_value c < 16"
  by (auto simp: hex_digit_def hex_digit_value_def Let_def)

lemma push_or:
  fixes w :: u32
  assumes "v < 16"
  shows "push_bit 4 w OR of_nat v = 16 * w + of_nat v"
proof -
  have v: "\<not> bit v i" if "4 \<le> i" for i
  proof -
    have "take_bit 4 v = v" using assms by (simp add: take_bit_nat_eq_self_iff)
    then have "bit v i = bit (take_bit 4 v) i" by simp
    then show ?thesis using that by (simp add: bit_take_bit_iff)
  qed
  have "push_bit 4 w AND of_nat v = 0"
    by (rule bit_word_eqI) (use v in \<open>auto simp: bit_simps\<close>)
  then have "push_bit 4 w OR of_nat v = push_bit 4 w + of_nat v"
    by (rule disjunctive_add_eq_or [symmetric])
  then show ?thesis by (simp add: push_bit_eq_mult mult.commute)
qed

lemma dbg_mask_number:
  "\<forall>c \<in> set s. hex_digit c \<Longrightarrow>
    dbg_mask s (of_nat n) = Inr (of_nat (foldl (\<lambda>n c. 16 * n + hex_digit_value c) n s))"
proof (induction s arbitrary: n)
  case (Cons c s)
  have "push_bit 4 (of_nat n :: u32) OR of_nat (hex_digit_value c) = of_nat (16 * n + hex_digit_value c)"
    using push_or [OF hex_digit_value_bound, of c "of_nat n"] Cons.prems by simp
  then show ?case
    using Cons.IH [of "16 * n + hex_digit_value c"] Cons.prems by (simp add: dbg_digit_hex)
qed simp

lemma dbg_mask_bad: "\<exists>c \<in> set s. \<not> hex_digit c \<Longrightarrow> \<exists>c. dbg_mask s m = Inl c"
  by (induction s arbitrary: m) (auto simp: dbg_digit_hex)

section \<open>Properties\<close>

text \<open>The line typed so far.\<close>

definition dbg_line :: "dbg_flags \<Rightarrow> string" where
  "dbg_line d = take (unat (df_bufptr d)) (df_buf d)"

definition dbg_ok :: "dbg_flags \<Rightarrow> bool" where
  "dbg_ok d \<longleftrightarrow> length (df_buf d) = DBG_BUF \<and> unat (df_bufptr d) \<le> DBG_BUF"

lemma dbg_char_edit:
  assumes "dbg_ok d" "c \<noteq> CR"
  shows "dbg_ok (dbg_char c d) \<and> dbg_line (dbg_char c d) = edit c (dbg_line d) \<and>
    df_flags (dbg_char c d) = df_flags d \<and> df_output (dbg_char c d) = df_output d"
proof -
  let ?n = "unat (df_bufptr d)"
  have n: "?n \<le> 32" "length (df_buf d) = 32" using assms(1) by (simp_all add: dbg_ok_def DBG_BUF_def)
  consider "c = BACKSPACE" "df_bufptr d = 0" | "c = BACKSPACE" "0 < df_bufptr d" |
    "c \<noteq> BACKSPACE" "?n < 32" | "c \<noteq> BACKSPACE" "?n = 32"
    using n(1) word_gt_0 [of "df_bufptr d"] by (cases "c = BACKSPACE"; cases "?n < 32") auto
  then show ?thesis
  proof cases
    case 1
    then show ?thesis using assms by (simp add: dbg_char_def dbg_line_def edit_def)
  next
    case 2
    then have "unat (df_bufptr d - 1) = ?n - 1" by (simp add: unat_minus_one)
    with 2 assms n show ?thesis
      by (auto simp: dbg_char_def dbg_line_def edit_def dbg_ok_def butlast_take DBG_BUF_def)
  next
    case 3
    have "unat (df_bufptr d + 1) = Suc ?n" using 3(2) by (simp add: unat_plus_if')
    with 3 assms n show ?thesis
      by (simp add: dbg_char_def dbg_line_def edit_def dbg_ok_def DBG_BUF_def take_Suc_conv_app_nth)
  next
    case 4
    with assms n show ?thesis by (simp add: dbg_char_def dbg_line_def edit_def DBG_BUF_def)
  qed
qed

lemma dbg_keys:
  assumes "dbg_ok d" "CR \<notin> set keys"
  shows "dbg_ok (dbg_char_avail keys d) \<and> dbg_line (dbg_char_avail keys d) = edited keys (dbg_line d) \<and>
    df_flags (dbg_char_avail keys d) = df_flags d"
  using assms
proof (induction keys arbitrary: d)
  case (Cons c keys)
  have c: "c \<noteq> CR" "CR \<notin> set keys" using Cons.prems(2) by auto
  show ?case using dbg_char_edit [OF Cons.prems(1) c(1)] Cons.IH [of "dbg_char c d"] c(2) by (simp add: edited_def)
qed (simp add: edited_def)

lemma dbg_char_avail_append: "dbg_char_avail (a @ b) d = dbg_char_avail b (dbg_char_avail a d)"
  by (induction a arbitrary: d) simp_all

lemma dbg_return_command:
  assumes "dbg_ok d"
  shows "df_flags (dbg_return d) = command (dbg_line d) (df_flags d) \<and> df_bufptr (dbg_return d) = 0 \<and> dbg_ok (dbg_return d)"
proof -
  let ?s = "dbg_line d"
  let ?r = "if signed_line ?s then tl ?s else ?s"
  have e: "?s = [] \<longleftrightarrow> df_bufptr d = 0"
    using assms by (auto simp: dbg_line_def dbg_ok_def DBG_BUF_def unat_eq_0)
  have sgn: "signed_line ?s \<longleftrightarrow> ?s \<noteq> [] \<and> (hd ?s = CHR ''='' \<or> hd ?s = CHR ''+'' \<or> hd ?s = CHR ''-'')"
    by (auto simp: signed_line_def)
  consider "?s = []" | "?s \<noteq> []" "\<exists>c \<in> set ?r. \<not> hex_digit c" | "?s \<noteq> []" "\<forall>c \<in> set ?r. hex_digit c" by blast
  then show ?thesis
  proof cases
    case 1
    then show ?thesis
      using e assms by (simp add: dbg_return_def Let_def command_def dbg_ok_def split: prod.splits)
  next
    case 2
    obtain c where "dbg_mask ?r 0 = Inl c" using dbg_mask_bad [OF 2(2)] by blast
    then show ?thesis
      using 2 e sgn assms word_gt_0 [of "df_bufptr d"]
      by (auto simp: dbg_return_def Let_def command_def dbg_ok_def dbg_line_def [symmetric])
  next
    case 3
    have m: "dbg_mask ?r 0 = Inr (of_nat (hex_number ?r))"
      using dbg_mask_number [of ?r 0] 3(2) by (simp add: hex_number_def)
    show ?thesis
      using 3 m e sgn assms word_gt_0 [of "df_bufptr d"]
      by (auto simp: dbg_return_def Let_def command_def dbg_ok_def dbg_line_def [symmetric])
  qed
qed

text \<open>C30: Typing at the console works as documented: after any keys, with corrections by backspace,
  and a return, the flags are set to, joined with or cleared of the number whose hexadecimal
  digits were typed, modulo \<open>2^32\<close> and in either case; a line with any other character leaves
  them as they were, and the buffer is never written out of bounds.\<close>

theorem dbg_commands:
  assumes "dbg_ok d" "df_bufptr d = 0" "CR \<notin> set keys"
  shows "df_flags (dbg_char_avail (keys @ [CR]) d) = command (edited keys []) (df_flags d) \<and>
    df_bufptr (dbg_char_avail (keys @ [CR]) d) = 0 \<and> dbg_ok (dbg_char_avail (keys @ [CR]) d)"
proof -
  have "dbg_line d = []" using assms(2) by (simp add: dbg_line_def)
  then show ?thesis
    using dbg_keys [OF assms(1,3)] dbg_return_command [of "dbg_char_avail keys d"]
    by (simp add: dbg_char_avail_append dbg_char_def)
qed

theorem dbg_commands_witness:
  "df_flags (dbg_char_avail (''+1g'' @ [BACKSPACE] @ ''F'' @ [CR]) (dbg_enable 0 0x100 dbg_init)) = 0x11F"
proof -
  let ?d = "dbg_enable 0 0x100 dbg_init"
  have d: "dbg_ok ?d" "df_bufptr ?d = 0" "df_flags ?d = 0x100"
    by (simp_all add: dbg_ok_def dbg_enable_def dbg_init_def DBG_BUF_def)
  have k: "CR \<notin> set (''+1g'' @ [BACKSPACE] @ ''F'')" by (simp add: CR_def BACKSPACE_def)
  have "edited (''+1g'' @ [BACKSPACE] @ ''F'') [] = ''+1F''" by code_simp
  moreover have "command ''+1F'' 0x100 = 0x11F" by code_simp
  ultimately show ?thesis using dbg_commands [OF d(1,2) k] d(3) by simp
qed

end
