(* ===== verification/Sound.thy ===== *)
theory Sound
  imports Prelude "HOL-Library.While_Combinator"
begin

text \<open>
  \<open>Sound\<close> (\<open>util/sound.h\<close>, \<open>util/sound.cpp\<close>): samples, tones and beeps, put out by the wrap
  interrupt of a PWM slice.

  Floating-point numbers are an abstract type \<open>'f\<close> here, the expressions the code computes with them
  an argument (\<open>sound_env\<close>), as is the wrap value a frequency gives the PWM: what is played and when
  it ends does not depend on them.  \<open>Sound_Floats\<close> puts in the code's expressions and the PWM.
\<close>

section \<open>Definitions\<close>

datatype 'f sound_call =
    Set_level u16
  | Set_duty 'f
  | Set_frequency u32
  | Irq_enable bool
  | Irq_clear
  | Irq_handler bool
  | Slice_irq bool

record 'f sound =
  so_data :: "u8 list"
  so_datasz :: u32
  so_sample_rate :: u32
  so_idx :: u32
  so_scale :: u16
  so_volume :: 'f
  so_repeat :: u8
  so_loop :: bool
  so_count :: u32
  so_tone_f :: 'f
  so_tone_v :: 'f
  so_tone_p :: u32
  so_irq :: bool
  so_freq :: u32
  so_calls :: "'f sound_call list"

text \<open>
  \<open>se_scale high low volume\<close> is the scale of \<open>scale()\<close>, if it has one, \<open>se_sine v f i\<close> the duty cycle at step
  \<open>i\<close> of a tone, \<open>se_unit\<close> the test of a volume.
\<close>

record 'f sound_env =
  se_zero :: 'f
  se_half :: 'f
  se_one :: 'f
  se_volume :: "u8 \<Rightarrow> 'f"
  se_scale :: "u8 \<Rightarrow> u8 \<Rightarrow> 'f \<Rightarrow> u16 option"
  se_step :: "u32 \<Rightarrow> u32 \<Rightarrow> 'f"
  se_sine :: "'f \<Rightarrow> 'f \<Rightarrow> u32 \<Rightarrow> 'f"
  se_unit :: "'f \<Rightarrow> bool"
  se_wrap :: "u32 \<Rightarrow> u16"

definition so_emit :: "'f sound_call \<Rightarrow> 'f sound \<Rightarrow> 'f sound" where
  "so_emit c s = s\<lparr>so_calls := so_calls s @ [c]\<rparr>"

definition so_set_irq :: "bool \<Rightarrow> 'f sound \<Rightarrow> 'f sound" where
  "so_set_irq on s = (so_emit (Irq_enable on) s)\<lparr>so_irq := on\<rparr>"

definition so_set_frequency :: "u32 \<Rightarrow> 'f sound \<Rightarrow> 'f sound" where
  "so_set_frequency f s = (so_emit (Set_frequency f) s)\<lparr>so_freq := f\<rparr>"

definition sound_new :: "'f sound_env \<Rightarrow> 'f sound" where
  "sound_new env =
     \<lparr>so_data = [], so_datasz = 0, so_sample_rate = 22050, so_idx = 0, so_scale = 0, so_volume = se_one env,
      so_repeat = 0, so_loop = False, so_count = 0, so_tone_f = se_zero env, so_tone_v = se_one env,
      so_tone_p = 0, so_irq = False, so_freq = 0, so_calls = []\<rparr>"

definition sound_start :: "'f sound \<Rightarrow> 'f sound" where
  "sound_start s = so_emit (Slice_irq True) (so_emit (Irq_handler True) (so_set_frequency (so_sample_rate s) s))"

text \<open>\<open>stop\<close> deletes the object; what is left are its calls.\<close>

definition sound_stop :: "'f sound \<Rightarrow> 'f sound_call list" where
  "sound_stop s = so_calls (so_emit (Irq_handler False) (so_set_irq False (so_emit (Slice_irq False) s)))"

text \<open>The extremes of the samples, from the second to the last but one.\<close>

definition sound_high :: "u8 list \<Rightarrow> u32 \<Rightarrow> u8" where
  "sound_high data n = fold (\<lambda>i h. if data ! i > h then data ! i else h) [1..<unat (n - 1)] (data ! 0)"

definition sound_low :: "u8 list \<Rightarrow> u32 \<Rightarrow> u8" where
  "sound_low data n = fold (\<lambda>i l. if data ! i < l then data ! i else l) [1..<unat (n - 1)] (data ! 0)"

definition sound_scale :: "'f sound_env \<Rightarrow> 'f sound \<Rightarrow> 'f sound option" where
  "sound_scale env s =
     map_option (\<lambda>x. s\<lparr>so_scale := x\<rparr>)
       (if so_datasz s > 0
        then se_scale env (sound_high (so_data s) (so_datasz s)) (sound_low (so_data s) (so_datasz s)) (so_volume s)
        else Some 0)"

definition set_volume :: "'f sound_env \<Rightarrow> u8 \<Rightarrow> 'f sound \<Rightarrow> 'f sound option" where
  "set_volume env v s = sound_scale env (s\<lparr>so_volume := se_volume env v\<rparr>)"

definition stop_playing :: "bool \<Rightarrow> 'f sound \<Rightarrow> 'f sound" where
  "stop_playing immediate s =
     (let s1 = s\<lparr>so_repeat := 0, so_loop := False\<rparr>
      in if immediate then s1\<lparr>so_idx := so_datasz s1, so_count := 0\<rparr> else s1)"

definition play_once :: "u8 \<Rightarrow> 'f sound \<Rightarrow> 'f sound" where
  "play_once rpt s =
     (if \<not> so_irq s then so_set_irq True (s\<lparr>so_idx := 0, so_repeat := rpt\<rparr>)
      else if so_repeat s < 8 then s\<lparr>so_repeat := so_repeat s + rpt\<rparr>
      else s)"

definition start_playing :: "'f sound \<Rightarrow> 'f sound" where
  "start_playing s = so_set_irq True (s\<lparr>so_loop := True\<rparr>)"

text \<open>The level of a sample: an \<open>int\<close>, multiplied and divided as \<open>uint32_t\<close>, stored in 16 bits.\<close>

definition sample_level :: "'f sound_env \<Rightarrow> 'f sound \<Rightarrow> u8 \<Rightarrow> u16" where
  "sample_level env s x =
     ucast ((word_of_int ((uint x - 0x80) * uint (so_scale s) + 0x4000) * ucast (se_wrap env (so_freq s)) :: u32) div 0x8000)"

text \<open>The interrupt.\<close>

definition next_pulse :: "'f sound_env \<Rightarrow> 'f sound \<Rightarrow> 'f sound" where
  "next_pulse env s0 =
     (let s = so_emit Irq_clear s0
      in if so_count s = 0
         then (if so_idx s < so_datasz s
               then (so_emit (Set_level (sample_level env s (so_data s ! unat (so_idx s)))) s)\<lparr>so_idx := so_idx s + 1\<rparr>
               else (let s1 = (if so_repeat s > 0 then s\<lparr>so_repeat := so_repeat s - 1\<rparr> else s)
                     in if so_loop s1 \<or> so_repeat s1 > 0 then s1\<lparr>so_idx := 0\<rparr>
                        else so_set_irq False (so_emit (Set_duty (se_zero env)) s1)))
         else (let s1 = s\<lparr>so_count := so_count s - 1\<rparr>
               in if so_count s1 > 0
                  then (if sint (so_tone_p s1) > 0
                        then (so_emit (Set_duty (se_sine env (so_tone_v s1) (so_tone_f s1) (so_idx s1 mod so_tone_p s1))) s1)
                               \<lparr>so_idx := so_idx s1 + 1\<rparr>
                        else s1)
                  else (let s2 = so_emit (Set_duty (se_zero env))
                               (so_set_frequency (so_sample_rate s1) (s1\<lparr>so_tone_p := 0, so_idx := 0\<rparr>))
                        in if \<not> so_loop s2 \<and> so_repeat s2 = 0 then so_set_irq False s2 else s2)))"

text \<open>\<open>wait\<close> without a timeout: interrupts come until one switches the interrupt off.\<close>

definition sound_wait :: "'f sound_env \<Rightarrow> 'f sound \<Rightarrow> 'f sound option" where
  "sound_wait env s = while_option so_irq (next_pulse env) s"

text \<open>
  \<open>wait(timeout)\<close>: before each look at the interrupt and the clock some interrupts are served; a
  look is their number and the time read.
\<close>

fun serve :: "'f sound_env \<Rightarrow> nat \<Rightarrow> 'f sound \<Rightarrow> 'f sound" where
  "serve env 0 s = s"
| "serve env (Suc k) s = (if so_irq s then serve env k (next_pulse env s) else s)"

fun wait_polls :: "'f sound_env \<Rightarrow> u64 \<Rightarrow> (nat \<times> u64) list \<Rightarrow> 'f sound \<Rightarrow> 'f sound" where
  "wait_polls env end_time [] s = s"
| "wait_polls env end_time ((k, now) # ps) s =
     (let s1 = serve env k s in if so_irq s1 \<and> now < end_time then wait_polls env end_time ps s1 else s1)"

definition sound_wait_for :: "'f sound_env \<Rightarrow> u32 \<Rightarrow> u64 \<Rightarrow> (nat \<times> u64) list \<Rightarrow> 'f sound \<Rightarrow> 'f sound" where
  "sound_wait_for env timeout now polls s =
     wait_polls env (if timeout > 0 then now + ucast (timeout * 1000) else 0xffffffffffffffff) polls s"

text \<open>No result if the wait does not end, \<open>Some None\<close> if the scale has no value.\<close>

definition set_sound_data ::
  "'f sound_env \<Rightarrow> u8 list \<Rightarrow> u32 \<Rightarrow> u32 \<Rightarrow> 'f sound \<Rightarrow> 'f sound option option" where
  "set_sound_data env data siz sample_rate s =
     map_option (\<lambda>s1. sound_scale env (s1\<lparr>so_data := data, so_datasz := siz\<rparr>)) (sound_wait env (stop_playing False s))"

definition tone :: "'f sound_env \<Rightarrow> u32 \<Rightarrow> u32 \<Rightarrow> 'f \<Rightarrow> 'f sound \<Rightarrow> 'f sound option" where
  "tone env freq msec vol s =
     (if freq > 0 \<and> msec > 0 \<and> se_unit env vol
      then map_option (\<lambda>s1. so_set_irq True
             (s1\<lparr>so_tone_f := se_step env freq (so_sample_rate s1), so_tone_v := vol,
                 so_tone_p := so_sample_rate s1 div freq, so_count := msec * so_sample_rate s1 div 1000, so_idx := 0\<rparr>))
             (sound_wait env (stop_playing False s))
      else Some s)"

definition beep :: "'f sound_env \<Rightarrow> u32 \<Rightarrow> u32 \<Rightarrow> 'f sound \<Rightarrow> 'f sound option" where
  "beep env freq msec s =
     (if freq > 0 \<and> msec > 0
      then map_option (\<lambda>s1. so_set_irq True
             ((so_emit (Set_duty (se_half env)) (so_set_frequency freq s1))\<lparr>so_count := msec * freq div 1000\<rparr>))
             (sound_wait env (stop_playing False s))
      else Some s)"

section \<open>What is put out\<close>

text \<open>The levels set, and the number of interrupts served.\<close>

fun levels :: "'f sound_call list \<Rightarrow> u16 list" where
  "levels [] = []"
| "levels (Set_level l # cs) = l # levels cs"
| "levels (c # cs) = levels cs"

definition interrupts :: "'f sound_call list \<Rightarrow> nat" where
  "interrupts cs = length (filter (\<lambda>c. c = Irq_clear) cs)"

lemma levels_append [simp]: "levels (a @ b) = levels a @ levels b"
  by (induction a rule: levels.induct) simp_all

lemma interrupts_simps [simp]:
  "interrupts [] = 0" "interrupts (Irq_clear # cs) = Suc (interrupts cs)"
  "interrupts (Set_level l # cs) = interrupts cs" "interrupts (Set_duty d # cs) = interrupts cs"
  "interrupts (Set_frequency f # cs) = interrupts cs" "interrupts (Irq_enable on # cs) = interrupts cs"
  "interrupts (a @ b) = interrupts a + interrupts b"
  by (simp_all add: interrupts_def)

lemma wait_step: "so_irq s \<Longrightarrow> sound_wait env s = sound_wait env (next_pulse env s)"
  unfolding sound_wait_def by (subst while_option_unfold) simp

lemma wait_off: "\<not> so_irq s \<Longrightarrow> sound_wait env s = Some s"
  unfolding sound_wait_def by (subst while_option_unfold) simp

text \<open>The samples from the index to the end.\<close>

definition to_play :: "'f sound \<Rightarrow> u8 list" where
  "to_play s = drop (unat (so_idx s)) (take (unat (so_datasz s)) (so_data s))"

definition sample_calls :: "'f sound_env \<Rightarrow> 'f sound \<Rightarrow> u8 list \<Rightarrow> 'f sound_call list" where
  "sample_calls env s xs = concat (map (\<lambda>x. [Irq_clear, Set_level (sample_level env s x)]) xs)"

lemma sample_calls_simps [simp]:
  "sample_calls env s [] = []"
  "sample_calls env s (x # xs) = [Irq_clear, Set_level (sample_level env s x)] @ sample_calls env s xs"
  "levels (sample_calls env s xs) = map (sample_level env s) xs"
  "interrupts (sample_calls env s xs) = length xs"
  by (induction xs) (simp_all add: sample_calls_def)

lemma next_pulse_sample:
  assumes "so_count s = 0" "so_idx s < so_datasz s"
  shows "next_pulse env s = s\<lparr>so_idx := so_idx s + 1,
    so_calls := so_calls s @ [Irq_clear, Set_level (sample_level env s (so_data s ! unat (so_idx s)))]\<rparr>"
  using assms by (simp add: next_pulse_def so_emit_def sample_level_def Let_def)

lemma wait_samples:
  assumes "so_irq s" "so_count s = 0" "so_idx s \<le> so_datasz s" "unat (so_datasz s) \<le> length (so_data s)"
  shows "sound_wait env s = sound_wait env (s\<lparr>so_idx := so_datasz s, so_calls := so_calls s @ sample_calls env s (to_play s)\<rparr>)"
  using assms
proof (induction "unat (so_datasz s) - unat (so_idx s)" arbitrary: s)
  case 0
  then have i: "so_idx s = so_datasz s" by (simp add: word_le_nat_alt flip: word_unat_eq_iff)
  then have "s\<lparr>so_idx := so_datasz s, so_calls := so_calls s @ sample_calls env s (to_play s)\<rparr> = s"
    by (cases s) (simp add: to_play_def)
  then show ?case by simp
next
  case (Suc k)
  let ?i = "unat (so_idx s)"
  have lt: "?i < unat (so_datasz s)" using Suc.hyps(2) by simp
  then have l: "so_idx s < so_datasz s" by (simp add: word_less_nat_alt)
  have "?i + 1 < 2 ^ 32" using lt unsigned_less [of "so_datasz s", where ?'a = nat] by simp
  then have u: "unat (so_idx s + 1) = Suc ?i" by (simp add: unat_plus_if')
  define t where "t = s\<lparr>so_idx := so_idx s + 1,
    so_calls := so_calls s @ [Irq_clear, Set_level (sample_level env s (so_data s ! ?i))]\<rparr>"
  have p: "to_play s = so_data s ! ?i # to_play t"
    using lt Suc.prems(4) u by (simp add: to_play_def t_def Cons_nth_drop_Suc [symmetric])
  have lev: "sample_calls env t xs = sample_calls env s xs" for xs
    by (simp add: sample_calls_def sample_level_def t_def)
  have "sound_wait env s = sound_wait env t"
    using wait_step [OF Suc.prems(1)] next_pulse_sample [OF Suc.prems(2) l] by (simp add: t_def)
  also have "\<dots> = sound_wait env (t\<lparr>so_idx := so_datasz t, so_calls := so_calls t @ sample_calls env t (to_play t)\<rparr>)"
    by (rule Suc.hyps(1)) (use Suc.hyps(2) Suc.prems lt u in \<open>simp_all add: t_def word_le_nat_alt\<close>)
  also have "\<dots> = sound_wait env (s\<lparr>so_idx := so_datasz s, so_calls := so_calls s @ sample_calls env s (to_play s)\<rparr>)"
    by (simp add: p lev) (simp add: t_def)
  finally show ?case .
qed

text \<open>The end of the samples: the next round, or the end.\<close>

lemma wait_round:
  assumes "so_irq s" "so_count s = 0" "\<not> so_idx s < so_datasz s" "\<not> so_loop s"
  shows "sound_wait env s =
    (if 1 < so_repeat s
     then sound_wait env (s\<lparr>so_repeat := so_repeat s - 1, so_idx := 0, so_calls := so_calls s @ [Irq_clear]\<rparr>)
     else Some (s\<lparr>so_repeat := 0, so_irq := False,
            so_calls := so_calls s @ [Irq_clear, Set_duty (se_zero env), Irq_enable False]\<rparr>))"
proof -
  consider "so_repeat s = 0" | "so_repeat s = 1" | "1 < so_repeat s"
    by (metis linorder_neqE word_gt_0 word_le_less_eq word_less_1 order_less_imp_le not_less)
  then show ?thesis
  proof cases
    case 3
    then have "0 < so_repeat s" "0 < so_repeat s - 1"
      by (simp_all add: word_less_nat_alt unat_sub word_le_nat_alt)
    with 3 assms have "next_pulse env s = s\<lparr>so_repeat := so_repeat s - 1, so_idx := 0, so_calls := so_calls s @ [Irq_clear]\<rparr>"
      by (cases s) (simp add: next_pulse_def so_emit_def Let_def)
    with 3 assms(1) wait_step [of s env] show ?thesis by simp
  next
    case 2
    with assms have "next_pulse env s = s\<lparr>so_repeat := 0, so_irq := False,
        so_calls := so_calls s @ [Irq_clear, Set_duty (se_zero env), Irq_enable False]\<rparr>"
      by (cases s) (simp add: next_pulse_def so_emit_def so_set_irq_def Let_def)
    with 2 assms(1) wait_step [of s env] show ?thesis by (simp add: wait_off)
  next
    case 1
    with assms have "next_pulse env s = s\<lparr>so_repeat := 0, so_irq := False,
        so_calls := so_calls s @ [Irq_clear, Set_duty (se_zero env), Irq_enable False]\<rparr>"
      by (cases s) (simp add: next_pulse_def so_emit_def so_set_irq_def Let_def)
    with 1 assms(1) wait_step [of s env] show ?thesis by (simp add: wait_off)
  qed
qed



text \<open>A countdown.\<close>

lemma wait_count:
  assumes "so_irq s" "0 < so_count s" "\<not> so_loop s" "so_repeat s = 0"
  shows "\<exists>t. sound_wait env s = Some t \<and> \<not> so_irq t \<and> so_freq t = so_sample_rate s \<and> so_count t = 0 \<and>
    levels (so_calls t) = levels (so_calls s) \<and>
    interrupts (so_calls t) = interrupts (so_calls s) + unat (so_count s)"
  using assms
proof (induction "unat (so_count s)" arbitrary: s rule: less_induct)
  case less
  note p = less.prems
  have "0 < unat (so_count s)" using p(2) by (simp add: word_less_nat_alt)
  then have m: "unat (so_count s - 1) = unat (so_count s) - 1" "0 < unat (so_count s)" "so_count s \<noteq> 0"
    by (auto simp: unat_pred)
  show ?case
  proof (cases "0 < so_count s - 1")
    case False
    then have "so_count s - 1 = 0" by (simp add: word_gt_0)
    then have one: "so_count s = 1" by simp
    let ?t = "next_pulse env s"
    have t: "\<not> so_irq ?t \<and> so_freq ?t = so_sample_rate s \<and> so_count ?t = 0 \<and>
        so_calls ?t = so_calls s @ [Irq_clear, Set_frequency (so_sample_rate s), Set_duty (se_zero env), Irq_enable False]"
      using p one by (simp add: next_pulse_def so_emit_def so_set_frequency_def so_set_irq_def Let_def)
    then have "sound_wait env s = Some ?t" using wait_step [OF p(1), of env] wait_off [of ?t env] by simp
    with t one show ?thesis by simp
  next
    case True
    let ?t = "next_pulse env s"
    have t: "so_irq ?t \<and> so_count ?t = so_count s - 1 \<and> \<not> so_loop ?t \<and> so_repeat ?t = 0 \<and>
        so_sample_rate ?t = so_sample_rate s \<and> levels (so_calls ?t) = levels (so_calls s) \<and>
        interrupts (so_calls ?t) = Suc (interrupts (so_calls s))"
      using p True m(3) by (simp add: next_pulse_def so_emit_def Let_def)
    obtain u where "sound_wait env ?t = Some u \<and> \<not> so_irq u \<and> so_freq u = so_sample_rate ?t \<and> so_count u = 0 \<and>
        levels (so_calls u) = levels (so_calls ?t) \<and> interrupts (so_calls u) = interrupts (so_calls ?t) + unat (so_count ?t)"
      using less.hyps [of ?t] t m True by auto
    then show ?thesis using wait_step [OF p(1), of env] t m by auto
  qed
qed

section \<open>Properties\<close>


definition click :: "nat sound_env" where
  "click = \<lparr>se_zero = 0, se_half = 1, se_one = 2, se_volume = unat, se_scale = (\<lambda>h l v. Some 0x80), se_step = (\<lambda>f r. 0),
     se_sine = (\<lambda>v f i. 0), se_unit = (\<lambda>v. True), se_wrap = (\<lambda>f. 0x8000)\<rparr>"

definition clicking :: "nat sound" where
  "clicking = (sound_new click)\<lparr>so_data := [0x80, 0x90], so_datasz := 2, so_scale := 0x80\<rparr>"


text \<open>After \<open>stopPlaying\<close> the interrupt is switched off after finitely many interrupts.\<close>

lemma stop_wait:
  assumes "unat (so_datasz s) \<le> length (so_data s)" "\<not> so_loop s" "so_repeat s = 0"
  shows "\<exists>t. sound_wait env s = Some t \<and> \<not> so_irq t"
proof -
  consider "\<not> so_irq s" | "so_irq s" "0 < so_count s" | "so_irq s" "so_count s = 0" "\<not> so_idx s < so_datasz s" |
    "so_irq s" "so_count s = 0" "so_idx s < so_datasz s"
    by (cases "so_count s = 0") (auto simp: word_gt_0)
  then show ?thesis
  proof cases
    case 1
    then show ?thesis by (simp add: wait_off)
  next
    case 2
    then show ?thesis using wait_count [of s env] assms by blast
  next
    case 3
    then show ?thesis using wait_round [of s env] assms by simp
  next
    case 4
    define q where "q = s\<lparr>so_idx := so_datasz s, so_calls := so_calls s @ sample_calls env s (to_play s)\<rparr>"
    have "sound_wait env s = sound_wait env q" unfolding q_def by (rule wait_samples) (use 4 assms in auto)
    moreover have "\<exists>t. sound_wait env q = Some t \<and> \<not> so_irq t"
      using wait_round [of q env] 4 assms by (simp add: q_def)
    ultimately show ?thesis by simp
  qed
qed

text \<open>C21: Whatever is playing, looping or sounding, \<open>stopPlaying\<close> ends it: waiting for the end
  returns, with the interrupt off.  So \<open>setSoundData\<close>, \<open>tone\<close> and \<open>beep\<close>, which wait for the end
  of what plays first, always return.\<close>

theorem sound_returns:
  assumes "unat (so_datasz s) \<le> length (so_data s)"
  shows "(\<exists>t. sound_wait env (stop_playing immediate s) = Some t \<and> \<not> so_irq t) \<and>
    set_sound_data env data siz rate s \<noteq> None \<and> tone env freq msec vol s \<noteq> None \<and> beep env freq msec s \<noteq> None"
proof -
  have w: "\<exists>t. sound_wait env (stop_playing b s) = Some t \<and> \<not> so_irq t" for b
    by (rule stop_wait) (use assms in \<open>auto simp: stop_playing_def Let_def\<close>)
  then have "sound_wait env (stop_playing False s) \<noteq> None" by (metis option.distinct(1))
  with w show ?thesis by (auto simp: set_sound_data_def tone_def beep_def)
qed

theorem sound_returns_witness:
  "beep click 1000 50 (start_playing clicking) \<noteq> None"
proof -
  have "unat (so_datasz (start_playing clicking)) \<le> length (so_data (start_playing clicking))"
    by (simp add: start_playing_def so_set_irq_def so_emit_def clicking_def)
  then show ?thesis using sound_returns [of "start_playing clicking" click] by blast
qed

text \<open>A beep of at least one period sounds for \<open>msec * freq / 1000\<close> interrupts and then gives the
  PWM its sample rate back.  A shorter one plays what is left of the samples instead, at the
  frequency of the beep, and leaves the PWM at that frequency.\<close>

theorem beep_length:
  assumes "\<not> so_irq s" "0 < freq" "0 < msec" "unat freq * unat msec < 2 ^ 32"
    and "so_count s = 0" "so_idx s \<le> so_datasz s" "unat (so_datasz s) \<le> length (so_data s)"
  defines "n \<equiv> unat msec * unat freq div 1000"
  shows "\<exists>b t. beep env freq msec s = Some b \<and> sound_wait env b = Some t \<and> \<not> so_irq t \<and>
    (if 0 < n
     then interrupts (so_calls t) = interrupts (so_calls s) + n \<and> levels (so_calls t) = levels (so_calls s) \<and>
       so_freq t = so_sample_rate s
     else levels (so_calls t) = levels (so_calls s) @ map (sample_level env (s\<lparr>so_freq := freq\<rparr>)) (to_play s) \<and>
       so_freq t = freq)"
proof -
  define b where "b = so_set_irq True
      ((so_emit (Set_duty (se_half env)) (so_set_frequency freq (stop_playing False s)))\<lparr>so_count := msec * freq div 1000\<rparr>)"
  have beep: "beep env freq msec s = Some b"
    using assms(1-3) wait_off [of "stop_playing False s" env] by (simp add: beep_def b_def stop_playing_def)
  have m: "unat (msec * freq) = unat msec * unat freq"
    using assms(4) by (simp add: unat_word_ariths take_bit_nat_eq_self_iff mult.commute flip: take_bit_eq_mod)
  have c: "unat (so_count b) = n"
    by (simp add: b_def so_set_irq_def so_emit_def n_def unat_div m)
  have f: "so_irq b" "\<not> so_loop b" "so_repeat b = 0" "so_freq b = freq" "so_sample_rate b = so_sample_rate s"
    "levels (so_calls b) = levels (so_calls s)" "interrupts (so_calls b) = interrupts (so_calls s)"
    "so_idx b = so_idx s" "so_datasz b = so_datasz s" "so_data b = so_data s" "so_scale b = so_scale s"
    by (simp_all add: b_def so_set_irq_def so_set_frequency_def so_emit_def stop_playing_def)
  show ?thesis
  proof (cases "0 < n")
    case True
    then have "0 < so_count b" using c by (auto simp: word_less_nat_alt)
    then show ?thesis using wait_count [of b env] beep f c True by auto
  next
    case False
    then have z: "so_count b = 0" using c by (simp add: unat_eq_0)
    define q where "q = b\<lparr>so_idx := so_datasz b, so_calls := so_calls b @ sample_calls env b (to_play b)\<rparr>"
    have w: "sound_wait env b = sound_wait env q"
      unfolding q_def by (rule wait_samples) (use f z assms(6,7) in simp_all)
    have "to_play b = to_play s" using f by (simp add: to_play_def)
    moreover have "sample_level env b = sample_level env (s\<lparr>so_freq := freq\<rparr>)"
      using f by (simp add: sample_level_def fun_eq_iff)
    ultimately show ?thesis
      using False beep w wait_round [of q env] f z by (simp add: q_def)
  qed
qed

theorem beep_length_witness:
  "\<exists>b t. beep click 100 5 clicking = Some b \<and> sound_wait click b = Some t \<and>
     levels (so_calls t) = [0x4000, 0x4800] \<and> so_freq t = 100"
proof -
  have h: "\<not> so_irq clicking" "so_count clicking = 0" "so_idx clicking \<le> so_datasz clicking"
    "unat (so_datasz clicking) \<le> length (so_data clicking)" "so_calls clicking = []" "to_play clicking = [0x80, 0x90]"
    by (simp_all add: clicking_def sound_new_def to_play_def)
  have "sample_level click (clicking\<lparr>so_freq := 100\<rparr>) 0x80 = 0x4000" "sample_level click (clicking\<lparr>so_freq := 100\<rparr>) 0x90 = 0x4800"
    by code_simp+
  with beep_length [OF h(1), of 100 5 click] h(2-6) show ?thesis by auto
qed

text \<open>A timed wait only looks on: what is left to play when it gives up goes on to the same end.  It
  gives up at the first look at or after the deadline, whatever would come later.\<close>

lemma serve_wait: "sound_wait env (serve env k s) = sound_wait env s"
  by (induction env k s rule: serve.induct) (simp_all add: wait_step)

lemma polls_wait: "sound_wait env (wait_polls env e ps s) = sound_wait env s"
  by (induction env e ps s rule: wait_polls.induct) (simp_all add: Let_def serve_wait)

lemma polls_late:
  "\<exists>(k, now) \<in> set ps. e \<le> now \<Longrightarrow> wait_polls env e (ps @ qs) s = wait_polls env e ps s"
  by (induction env e ps s rule: wait_polls.induct) (auto simp: Let_def)

theorem timed_wait:
  assumes "0 < timeout" "unat timeout * 1000 < 2 ^ 32" "unat now + unat timeout * 1000 < 2 ^ 64"
    and "(k, t) \<in> set polls" "unat now + unat timeout * 1000 \<le> unat t"
  shows "sound_wait_for env timeout now (polls @ later) s = sound_wait_for env timeout now polls s"
    and "sound_wait env (sound_wait_for env timeout now polls s) = sound_wait env s"
proof -
  have "unat (timeout * 1000) = unat timeout * 1000"
    using assms(2) by (simp add: unat_word_ariths take_bit_nat_eq_self_iff flip: take_bit_eq_mod)
  then have "unat (ucast (timeout * 1000) :: u64) = unat timeout * 1000"
    using assms(2) by (simp add: unsigned_ucast_eq take_bit_nat_eq_self)
  then have "unat (now + ucast (timeout * 1000)) = unat now + unat timeout * 1000"
    using assms(3) by (simp add: unat_plus_if')
  then have "now + ucast (timeout * 1000) \<le> t" using assms(5) by (simp add: word_le_nat_alt)
  then show "sound_wait_for env timeout now (polls @ later) s = sound_wait_for env timeout now polls s"
    using assms(1,4) polls_late [of polls "now + ucast (timeout * 1000)" env later s]
    by (auto simp: sound_wait_for_def)
qed (simp add: sound_wait_for_def polls_wait)

lemma timed_wait_witness:
  "sound_wait_for click 1 50 ([(2, 60), (0, 2000)] @ [(9, 3000)]) (play_once 1 clicking) =
     sound_wait_for click 1 50 [(2, 60), (0, 2000)] (play_once 1 clicking)"
  by (rule timed_wait(1) [of 1 50 0 2000]) simp_all

section \<open>Levels\<close>

text \<open>With a scale of at most 128 no sample leaves the range of the PWM: silence is the middle, and
  every level is the sample's, scaled, without any wrap-around.\<close>

lemma scaled_sample:
  fixes x k :: int
  assumes "0 \<le> x" "x < 256" "0 \<le> k" "k \<le> 128"
  shows "0 \<le> (x - 128) * k + 16384" "(x - 128) * k + 16384 \<le> 32768"
proof -
  have "(-128) * k \<le> (x - 128) * k" using assms by (intro mult_right_mono) simp_all
  then show "0 \<le> (x - 128) * k + 16384" using assms by linarith
  have "(x - 128) * k \<le> 127 * k" using assms by (intro mult_right_mono) simp_all
  then show "(x - 128) * k + 16384 \<le> 32768" using assms by linarith
qed

lemma level_quotient:
  fixes w :: u32
  assumes "uint w = n" "0 \<le> n" "n div 32768 < 65536"
  shows "uint (ucast (w div 0x8000) :: u16) = n div 32768"
proof -
  have "0 \<le> n div 32768" using assms(2) by (simp add: pos_imp_zdiv_nonneg_iff)
  then show ?thesis using assms by (simp add: unsigned_ucast_eq uint_div take_bit_int_eq_self)
qed

lemma level_in_range:
  fixes env :: "'f sound_env"
  assumes "so_scale s \<le> 128"
  defines "W \<equiv> uint (se_wrap env (so_freq s))"
  shows "uint (sample_level env s x) = ((uint x - 128) * uint (so_scale s) + 16384) * W div 32768 \<and>
    uint (sample_level env s x) \<le> W"
proof -
  define k v where "k = uint (so_scale s)" and "v = (uint x - 128) * k + 16384"
  have "uint x < 256" using uint_lt2p [of x] by simp
  moreover have "k \<le> 128" using assms(1) by (simp add: k_def word_le_def)
  ultimately have v: "0 \<le> v" "v \<le> 32768" unfolding v_def k_def by (simp_all add: scaled_sample)
  have W: "0 \<le> W" "W < 65536" using uint_lt2p [of "se_wrap env (so_freq s)"] by (simp_all add: W_def)
  have vW: "0 \<le> v * W" "v * W \<le> 32768 * W" using v W by (simp_all add: mult_right_mono)
  have uw: "uint (ucast (se_wrap env (so_freq s)) :: u32) = W"
    using W by (simp add: unsigned_ucast_eq W_def take_bit_int_eq_self)
  have m: "uint (word_of_int v * ucast (se_wrap env (so_freq s)) :: u32) = v * W"
    using vW W by (simp add: uint_word_ariths uint_word_of_int uw mod_mult_left_eq mod_mult_right_eq)
  have d: "0 \<le> v * W div 32768" "v * W div 32768 \<le> W" using vW by (simp_all add: pos_imp_zdiv_nonneg_iff)
  have "v * W div 32768 < 65536" using d W by linarith
  with level_quotient [OF m vW(1)] have "uint (sample_level env s x) = v * W div 32768"
    by (simp only: sample_level_def v_def k_def)
  then show ?thesis using d by (simp_all add: v_def k_def)
qed

end
