(* ===== verification/Dhcp.thy ===== *)
theory Dhcp
  imports Prelude "HOL-Library.Sublist"
begin

text \<open>
  The DHCP server of the access point (\<open>network/dhcpserver.h\<close>, \<open>network/dhcpserver.c\<close>).

  A message is the list of its bytes; the structure \<open>dhcp_msg_t\<close> has 548 of them, and \<open>junk\<close> is
  what the local variable held before the packet was copied into it.  Addresses are lists of four
  bytes in network order.  The millisecond clock is read once for a packet.  A read behind the end
  of the structure has no result.
\<close>

unbundle bit_operations_syntax

section \<open>Definitions\<close>

definition DHCPDISCOVER :: u8 where "DHCPDISCOVER = 1"
definition DHCPOFFER :: u8 where "DHCPOFFER = 2"
definition DHCPREQUEST :: u8 where "DHCPREQUEST = 3"
definition DHCPACK :: u8 where "DHCPACK = 5"

definition OPT_SUBNET_MASK :: u8 where "OPT_SUBNET_MASK = 1"
definition OPT_ROUTER :: u8 where "OPT_ROUTER = 3"
definition OPT_DNS :: u8 where "OPT_DNS = 6"
definition OPT_REQUESTED_IP :: u8 where "OPT_REQUESTED_IP = 50"
definition OPT_LEASE_TIME :: u8 where "OPT_LEASE_TIME = 51"
definition OPT_MSG_TYPE :: u8 where "OPT_MSG_TYPE = 53"
definition OPT_SERVER_ID :: u8 where "OPT_SERVER_ID = 54"
definition OPT_END :: u8 where "OPT_END = 255"

definition DEFAULT_LEASE_TIME_S :: u32 where "DEFAULT_LEASE_TIME_S = 24 * 60 * 60"
definition DHCPS_BASE_IP :: u8 where "DHCPS_BASE_IP = 16"
definition DHCPS_MAX_IP :: nat where "DHCPS_MAX_IP = 8"

text \<open>Offsets in \<open>dhcp_msg_t\<close>, and its size.\<close>

definition OFF_YIADDR :: nat where "OFF_YIADDR = 16"
definition OFF_CHADDR :: nat where "OFF_CHADDR = 28"
definition OFF_OPTIONS :: nat where "OFF_OPTIONS = 236"
definition MSG_SIZE :: nat where "MSG_SIZE = 548"
definition DHCP_MIN_SIZE :: nat where "DHCP_MIN_SIZE = 240 + 3"

record dhcp_lease =
  dl_mac :: "u8 list"
  dl_expiry :: u16

datatype dhcp_call =
    Udp_new "nat option"
  | Udp_bind nat
  | Udp_send "u8 list"
  | Udp_remove nat

record dhcp_server =
  ds_ip :: "u8 list"
  ds_nm :: "u8 list"
  ds_lease :: "dhcp_lease list"
  ds_udp :: "nat option"
  ds_calls :: "dhcp_call list"

definition NO_MAC :: "u8 list" where "NO_MAC = replicate 6 0"

definition no_lease :: dhcp_lease where
  "no_lease = \<lparr>dl_mac = NO_MAC, dl_expiry = 0\<rparr>"

text \<open>\<open>udp_new\<close> may fail; then the server has no socket and never hears a packet.\<close>

definition dhcp_server_init :: "nat option \<Rightarrow> u8 list \<Rightarrow> u8 list \<Rightarrow> dhcp_server \<Rightarrow> dhcp_server" where
  "dhcp_server_init udp ip nm d =
     d\<lparr>ds_ip := ip, ds_nm := nm, ds_lease := replicate DHCPS_MAX_IP no_lease, ds_udp := udp,
       ds_calls := ds_calls d @ [Udp_new udp] @ (if udp = None then [] else [Udp_bind 67])\<rparr>"

definition dhcp_server_deinit :: "dhcp_server \<Rightarrow> dhcp_server" where
  "dhcp_server_deinit d =
     (case ds_udp d of None \<Rightarrow> d | Some u \<Rightarrow> d\<lparr>ds_udp := None, ds_calls := ds_calls d @ [Udp_remove u]\<rparr>)"

subsection \<open>Options\<close>

text \<open>
  \<open>opt_find\<close>; the position of the option, if there is one.  \<open>opt\<close> is the memory from the first
  option to the end of the structure.
\<close>

function opt_find_from :: "u8 list \<Rightarrow> u8 \<Rightarrow> nat \<Rightarrow> nat option option" where
  "opt_find_from opt cmd i =
     (if i < 308
      then (if i \<ge> length opt then None
            else if opt ! i = OPT_END then Some None
            else if opt ! i = cmd then Some (Some i)
            else if i + 1 \<ge> length opt then None
            else opt_find_from opt cmd (i + 2 + unat (opt ! (i + 1))))
      else Some None)"
  by auto
termination by (relation "measure (\<lambda>(opt, cmd, i). 308 - i)") auto

declare opt_find_from.simps [simp del]

definition opt_find :: "u8 list \<Rightarrow> u8 \<Rightarrow> nat option option" where
  "opt_find opt cmd = opt_find_from opt cmd 0"

definition opt_write_n :: "u8 \<Rightarrow> u8 list \<Rightarrow> u8 list" where
  "opt_write_n cmd data = cmd # of_nat (length data) # data"

definition opt_write_u8 :: "u8 \<Rightarrow> u8 \<Rightarrow> u8 list" where
  "opt_write_u8 cmd val = [cmd, 1, val]"

definition opt_write_u32 :: "u8 \<Rightarrow> u32 \<Rightarrow> u8 list" where
  "opt_write_u32 cmd val =
     [cmd, 4, ucast (drop_bit 24 val), ucast (drop_bit 16 val), ucast (drop_bit 8 val), ucast val]"

subsection \<open>Leases\<close>

definition lease_expired :: "u32 \<Rightarrow> dhcp_lease \<Rightarrow> bool" where
  "lease_expired now l \<longleftrightarrow> sint ((push_bit 16 (ucast (dl_expiry l)) OR 0xffff) - now :: u32) < 0"

definition lease_expiry :: "u32 \<Rightarrow> u16" where
  "lease_expiry now = ucast (drop_bit 16 (now + DEFAULT_LEASE_TIME_S * 1000))"

text \<open>The loop of \<open>DHCPDISCOVER\<close>: the index found so far, and the leases.\<close>

fun discover_loop :: "u8 list \<Rightarrow> u32 \<Rightarrow> nat \<Rightarrow> nat \<Rightarrow> dhcp_lease list \<Rightarrow> nat \<times> dhcp_lease list" where
  "discover_loop mac now i yi [] = (yi, [])"
| "discover_loop mac now i yi (l # ls) =
     (if dl_mac l = mac then (i, l # ls)
      else if yi = DHCPS_MAX_IP
      then (let yi1 = (if dl_mac l = NO_MAC then i else yi);
                (yi2, l2) = (if lease_expired now l then (i, l\<lparr>dl_mac := NO_MAC\<rparr>) else (yi1, l));
                (r, ls2) = discover_loop mac now (i + 1) yi2 ls
            in (r, l2 # ls2))
      else (let (r, ls2) = discover_loop mac now (i + 1) yi ls in (r, l # ls2)))"

definition dhcp_reply :: "dhcp_server \<Rightarrow> u8 list \<Rightarrow> u8 \<Rightarrow> nat \<Rightarrow> u8 list" where
  "dhcp_reply d msg msgtype yi =
     (let m1 = write_at msg 0 [DHCPOFFER];
          m2 = write_at m1 OFF_YIADDR (ds_ip d);
          m3 = write_at m2 (OFF_YIADDR + 3) [DHCPS_BASE_IP + of_nat yi];
          opts = opt_write_u8 OPT_MSG_TYPE msgtype @ opt_write_n OPT_SERVER_ID (ds_ip d) @
            opt_write_n OPT_SUBNET_MASK (ds_nm d) @ opt_write_n OPT_ROUTER (ds_ip d) @
            opt_write_n OPT_DNS (ds_ip d) @ opt_write_u32 OPT_LEASE_TIME DEFAULT_LEASE_TIME_S @ [OPT_END]
      in take (OFF_OPTIONS + 4) m3 @ opts)"

definition dhcp_send :: "u8 list \<Rightarrow> dhcp_server \<Rightarrow> dhcp_server" where
  "dhcp_send msg d = d\<lparr>ds_calls := ds_calls d @ [Udp_send msg]\<rparr>"

definition dhcp_discover :: "u8 list \<Rightarrow> u32 \<Rightarrow> dhcp_server \<Rightarrow> dhcp_server" where
  "dhcp_discover msg now d =
     (let (yi, ls) = discover_loop (take 6 (drop OFF_CHADDR msg)) now 0 DHCPS_MAX_IP (ds_lease d);
          d1 = d\<lparr>ds_lease := ls\<rparr>
      in if yi = DHCPS_MAX_IP then d1 else dhcp_send (dhcp_reply d1 msg DHCPOFFER yi) d1)"

text \<open>The lease and the acknowledgement.\<close>

definition dhcp_grant :: "u8 list \<Rightarrow> u32 \<Rightarrow> nat \<Rightarrow> dhcp_server \<Rightarrow> dhcp_server" where
  "dhcp_grant msg now yi d =
     (let mac = take 6 (drop OFF_CHADDR msg);
          d1 = d\<lparr>ds_lease := (ds_lease d)[yi := \<lparr>dl_mac = mac, dl_expiry = lease_expiry now\<rparr>]\<rparr>
      in dhcp_send (dhcp_reply d1 msg DHCPACK yi) d1)"

definition dhcp_request :: "u8 list \<Rightarrow> u32 \<Rightarrow> dhcp_server \<Rightarrow> dhcp_server option" where
  "dhcp_request msg now d =
     (let opt = drop (OFF_OPTIONS + 4) msg; mac = take 6 (drop OFF_CHADDR msg)
      in case opt_find opt OPT_REQUESTED_IP of
           None \<Rightarrow> None
         | Some None \<Rightarrow> Some d
         | Some (Some o1) \<Rightarrow>
             if o1 + 4 \<ge> length opt then None
             else if take 3 (drop (o1 + 2) opt) \<noteq> take 3 (ds_ip d) then Some d
             else if o1 + 5 \<ge> length opt then None
             else (let yi = unat (opt ! (o1 + 5) - DHCPS_BASE_IP)
                   in if yi \<ge> DHCPS_MAX_IP then Some d
                      else (let l = ds_lease d ! yi
                            in if dl_mac l = mac \<or> dl_mac l = NO_MAC
                               then Some (dhcp_grant msg now yi d)
                               else Some d)))"

definition dhcp_server_process :: "u8 list \<Rightarrow> u32 \<Rightarrow> u8 list \<Rightarrow> dhcp_server \<Rightarrow> dhcp_server option" where
  "dhcp_server_process junk now p d =
     (if length p < DHCP_MIN_SIZE then Some d
      else (let msg = take MSG_SIZE p @ drop (length p) (take MSG_SIZE junk);
                opt = drop (OFF_OPTIONS + 4) msg
            in case opt_find opt OPT_MSG_TYPE of
                 None \<Rightarrow> None
               | Some None \<Rightarrow> Some d
               | Some (Some t) \<Rightarrow>
                   if t + 2 \<ge> length opt then None
                   else if opt ! (t + 2) = DHCPDISCOVER then Some (dhcp_discover msg now d)
                   else if opt ! (t + 2) = DHCPREQUEST then dhcp_request msg now d
                   else Some d))"

section \<open>The leases\<close>

definition dhcp_ok :: "dhcp_server \<Rightarrow> bool" where
  "dhcp_ok d \<longleftrightarrow> length (ds_lease d) = DHCPS_MAX_IP \<and> (\<forall>l \<in> set (ds_lease d). length (dl_mac l) = 6) \<and>
     length (ds_ip d) = 4 \<and> length (ds_nm d) = 4"

text \<open>What the loop leaves of the leases: only expired ones are taken away.\<close>

definition swept :: "u32 \<Rightarrow> dhcp_lease \<Rightarrow> dhcp_lease \<Rightarrow> bool" where
  "swept now l l' \<longleftrightarrow> l' = l \<or> lease_expired now l \<and> l' = l\<lparr>dl_mac := NO_MAC\<rparr>"

lemma discover_loop_swept: "discover_loop mac now i yi ls = (r, ls') \<Longrightarrow> list_all2 (swept now) ls ls'"
proof (induction mac now i yi ls arbitrary: r ls' rule: discover_loop.induct)
  case (2 mac now i yi l ls)
  then show ?case
    by (auto simp: Let_def swept_def list_all2_refl split: if_splits prod.splits)
qed simp

text \<open>
  The index is that of an entry of the client, or of a free one; and while the search has found
  none, no entry before was either.
\<close>

lemma discover_loop_found:
  "discover_loop mac now i yi ls = (r, ls') \<Longrightarrow> yi \<noteq> DHCPS_MAX_IP \<Longrightarrow>
    r = yi \<or> (i \<le> r \<and> r < i + length ls \<and> dl_mac (ls' ! (r - i)) = mac)"
proof (induction ls arbitrary: i ls')
  case (Cons l ls)
  show ?case
  proof (cases "dl_mac l = mac")
    case False
    then obtain ls2 where "discover_loop mac now (i + 1) yi ls = (r, ls2)" "ls' = l # ls2"
      using Cons.prems by (auto split: prod.splits)
    then show ?thesis using Cons.IH [of "i + 1" ls2] Cons.prems(2) by (auto simp: nth_Cons')
  qed (use Cons.prems in auto)
qed simp

lemma discover_loop_result:
  "discover_loop mac now i DHCPS_MAX_IP ls = (r, ls') \<Longrightarrow> i + length ls \<le> DHCPS_MAX_IP \<Longrightarrow>
    (if \<forall>l \<in> set ls. dl_mac l \<noteq> mac \<and> dl_mac l \<noteq> NO_MAC \<and> \<not> lease_expired now l
     then r = DHCPS_MAX_IP
     else i \<le> r \<and> r < i + length ls \<and> dl_mac (ls' ! (r - i)) \<in> {mac, NO_MAC})"
proof (induction ls arbitrary: i ls')
  case (Cons l ls)
  consider "dl_mac l = mac" | "dl_mac l \<noteq> mac" "dl_mac l = NO_MAC \<or> lease_expired now l" |
    "dl_mac l \<noteq> mac" "dl_mac l \<noteq> NO_MAC" "\<not> lease_expired now l" by blast
  then show ?case
  proof cases
    case 1
    then show ?thesis using Cons.prems by auto
  next
    case 2
    obtain l2 ls2 where l2: "discover_loop mac now (i + 1) i ls = (r, ls2)" "ls' = l2 # ls2" "dl_mac l2 = NO_MAC"
      using Cons.prems(1) 2 by (auto simp: Let_def split: if_splits prod.splits)
    have "i \<noteq> DHCPS_MAX_IP" using Cons.prems(2) by simp
    from discover_loop_found [OF l2(1) this] show ?thesis using 2 l2 by (auto simp: nth_Cons')
  next
    case 3
    then obtain ls2 where ls2: "discover_loop mac now (i + 1) DHCPS_MAX_IP ls = (r, ls2)" "ls' = l # ls2"
      using Cons.prems(1) by (auto split: prod.splits)
    show ?thesis using Cons.IH [OF ls2(1)] Cons.prems(2) 3 ls2(2) by (auto simp: nth_Cons' split: if_splits)
  qed
qed simp

text \<open>A lease lasts at least its time.\<close>

lemma expiry_join: "push_bit 16 (ucast (ucast (drop_bit 16 w) :: u16)) OR 0xffff = (w OR mask 16 :: u32)"
proof -
  have m: "(0xffff :: u32) = mask 16" by (simp add: mask_eq_exp_minus_1)
  show ?thesis unfolding m by (rule bit_word_eqI) (auto simp: bit_simps)
qed

lemma or_mask: "w OR mask 16 = w + (mask 16 AND NOT w)" for w :: u32
proof -
  have "w AND (mask 16 AND NOT w) = 0" by (rule bit_word_eqI) (auto simp: bit_simps)
  then have "w + (mask 16 AND NOT w) = w OR (mask 16 AND NOT w)" by (rule disjunctive_add_eq_or)
  also have "\<dots> = w OR mask 16" by (rule bit_word_eqI) (auto simp: bit_simps)
  finally show ?thesis ..
qed

lemma sint_of_nat: "x < 2 ^ 31 \<Longrightarrow> 0 \<le> sint (of_nat x :: u32)"
  using sint_small [of "int x"] by simp

lemma lease_lasts:
  assumes "t \<le> T + 86400000" "T \<le> t + 86400000"
  shows "\<not> lease_expired (of_nat t) \<lparr>dl_mac = m, dl_expiry = lease_expiry (of_nat T)\<rparr>"
proof -
  let ?d = "mask 16 AND NOT (of_nat T + 86400000) :: u32"
  have "?d \<le> mask 16" by (rule word_and_le2)
  then have d: "unat ?d \<le> 65535" by (simp add: word_le_nat_alt mask_eq_exp_minus_1)
  let ?x = "T + 86400000 - t + unat ?d"
  have x: "?x < 2 ^ 31" using assms(2) d by simp
  have eq: "of_nat T + 86400000 + ?d - of_nat t = (of_nat ?x :: u32)"
    using assms(1) by (simp add: of_nat_diff)
  have "lease_expired (of_nat t) \<lparr>dl_mac = m, dl_expiry = lease_expiry (of_nat T)\<rparr> \<longleftrightarrow>
      sint (of_nat T + 86400000 + ?d - of_nat t :: u32) < 0"
    by (simp add: lease_expired_def lease_expiry_def DEFAULT_LEASE_TIME_S_def expiry_join or_mask)
  then show ?thesis unfolding eq using sint_of_nat [OF x] by linarith
qed

section \<open>The replies\<close>

lemmas dhcp_offsets = OFF_YIADDR_def OFF_CHADDR_def OFF_OPTIONS_def MSG_SIZE_def DHCP_MIN_SIZE_def

text \<open>The hardware address of a message, and the transaction part that is copied.\<close>

definition chaddr :: "u8 list \<Rightarrow> u8 list" where
  "chaddr msg = take 6 (drop OFF_CHADDR msg)"

definition reply_options :: "dhcp_server \<Rightarrow> u8 \<Rightarrow> u8 list" where
  "reply_options d t =
     [OPT_MSG_TYPE, 1, t] @ [OPT_SERVER_ID, 4] @ ds_ip d @ [OPT_SUBNET_MASK, 4] @ ds_nm d @
     [OPT_ROUTER, 4] @ ds_ip d @ [OPT_DNS, 4] @ ds_ip d @ [OPT_LEASE_TIME, 4, 0, 1, 0x51, 0x80, OPT_END]"

lemma lease_time_bytes: "opt_write_u32 OPT_LEASE_TIME DEFAULT_LEASE_TIME_S = [OPT_LEASE_TIME, 4, 0, 1, 0x51, 0x80]"
  by code_simp

lemma reply_parts:
  assumes "length msg = MSG_SIZE" "length (ds_ip d) = 4" "length (ds_nm d) = 4"
  shows "dhcp_reply d msg t yi =
    [DHCPOFFER] @ take 15 (drop 1 msg) @ take 3 (ds_ip d) @ [DHCPS_BASE_IP + of_nat yi] @
      take 220 (drop 20 msg) @ reply_options d t"
proof -
  let ?m1 = "write_at msg 0 [DHCPOFFER]"
  let ?m2 = "write_at ?m1 16 (ds_ip d)"
  let ?m3 = "write_at ?m2 19 [DHCPS_BASE_IP + of_nat yi]"
  have l: "length msg = 548" using assms(1) by (simp add: dhcp_offsets)
  have m1: "?m1 = [DHCPOFFER] @ drop 1 msg" by (simp add: write_at_def)
  have m2: "?m2 = [DHCPOFFER] @ take 15 (drop 1 msg) @ ds_ip d @ drop 20 msg"
    using l assms(2) unfolding m1 by (simp add: write_at_def take_Cons' drop_Cons')
  have m3: "?m3 = [DHCPOFFER] @ take 15 (drop 1 msg) @ take 3 (ds_ip d) @ [DHCPS_BASE_IP + of_nat yi] @ drop 20 msg"
    using l assms(2) unfolding m2 by (simp add: write_at_def take_Cons' drop_Cons')
  have "take 240 ?m3 = [DHCPOFFER] @ take 15 (drop 1 msg) @ take 3 (ds_ip d) @ [DHCPS_BASE_IP + of_nat yi] @ take 220 (drop 20 msg)"
    using l assms(2) unfolding m3 by (simp add: take_Cons')
  then show ?thesis
    using assms(2,3)
    by (simp add: dhcp_reply_def Let_def reply_options_def opt_write_u8_def opt_write_n_def lease_time_bytes
        OFF_YIADDR_def OFF_OPTIONS_def)
qed

text \<open>What a reply says: its type, the address it gives, and to whom.\<close>

definition reply_type :: "u8 list \<Rightarrow> u8" where
  "reply_type r = r ! 242"

definition reply_host :: "u8 list \<Rightarrow> nat" where
  "reply_host r = unat (r ! 19 - DHCPS_BASE_IP)"

lemma reply_fields:
  assumes "length msg = MSG_SIZE" "length (ds_ip d) = 4" "length (ds_nm d) = 4" "yi < DHCPS_MAX_IP"
  shows "length (dhcp_reply d msg t yi) = 274" "reply_type (dhcp_reply d msg t yi) = t"
    "reply_host (dhcp_reply d msg t yi) = yi" "chaddr (dhcp_reply d msg t yi) = chaddr msg"
    "dhcp_reply d msg t yi ! 0 = DHCPOFFER" "take 3 (drop 16 (dhcp_reply d msg t yi)) = take 3 (ds_ip d)"
    "drop 240 (dhcp_reply d msg t yi) = reply_options d t"
proof -
  have l: "length msg = 548" using assms(1) by (simp add: dhcp_offsets)
  have r: "dhcp_reply d msg t yi = [DHCPOFFER] @ take 15 (drop 1 msg) @ take 3 (ds_ip d) @ [DHCPS_BASE_IP + of_nat yi] @
      take 220 (drop 20 msg) @ reply_options d t" by (rule reply_parts [OF assms(1-3)])
  show "length (dhcp_reply d msg t yi) = 274" using l assms(2,3) by (simp add: r reply_options_def)
  show "reply_type (dhcp_reply d msg t yi) = t"
    using l assms(2,3) by (simp add: r reply_type_def reply_options_def nth_append nth_Cons')
  have "dhcp_reply d msg t yi ! 19 = DHCPS_BASE_IP + of_nat yi"
    using l assms(2,3) by (simp add: r nth_append nth_Cons')
  moreover have "unat (of_nat yi :: u8) = yi"
    using assms(4) by (simp add: unat_of_nat take_bit_nat_eq_self_iff DHCPS_MAX_IP_def)
  ultimately show "reply_host (dhcp_reply d msg t yi) = yi" by (simp add: reply_host_def)
  show "chaddr (dhcp_reply d msg t yi) = chaddr msg"
    using l assms(2) by (simp add: r chaddr_def OFF_CHADDR_def drop_Cons' take_drop)
  show "dhcp_reply d msg t yi ! 0 = DHCPOFFER" by (simp add: r)
  show "take 3 (drop 16 (dhcp_reply d msg t yi)) = take 3 (ds_ip d)"
    using l assms(2) by (simp add: r drop_Cons')
  show "drop 240 (dhcp_reply d msg t yi) = reply_options d t"
    using l assms(2) by (simp add: r drop_Cons')
qed

section \<open>One packet\<close>

text \<open>The three things a packet can do.\<close>

definition discovered :: "u8 list \<Rightarrow> u32 \<Rightarrow> dhcp_server \<Rightarrow> dhcp_server \<Rightarrow> bool" where
  "discovered msg now d d' \<longleftrightarrow>
     (\<exists>yi ls. discover_loop (chaddr msg) now 0 DHCPS_MAX_IP (ds_lease d) = (yi, ls) \<and>
        d' = (if yi = DHCPS_MAX_IP then d\<lparr>ds_lease := ls\<rparr>
              else dhcp_send (dhcp_reply (d\<lparr>ds_lease := ls\<rparr>) msg DHCPOFFER yi) (d\<lparr>ds_lease := ls\<rparr>)))"

definition acknowledged :: "u8 list \<Rightarrow> u32 \<Rightarrow> dhcp_server \<Rightarrow> dhcp_server \<Rightarrow> bool" where
  "acknowledged msg now d d' \<longleftrightarrow>
     (\<exists>yi < DHCPS_MAX_IP. dl_mac (ds_lease d ! yi) \<in> {chaddr msg, NO_MAC} \<and> d' = dhcp_grant msg now yi d)"

lemma acknowledgedI:
  "yi < DHCPS_MAX_IP \<Longrightarrow> dl_mac (ds_lease d ! yi) \<in> {chaddr msg, NO_MAC} \<Longrightarrow> acknowledged msg now d (dhcp_grant msg now yi d)"
  by (auto simp: acknowledged_def)

lemma request_cases:
  "dhcp_request msg now d = Some d' \<Longrightarrow> d' = d \<or> acknowledged msg now d d'"
  by (auto simp: dhcp_request_def Let_def not_le chaddr_def intro!: acknowledgedI split: option.splits if_splits)

lemma discovered_discover: "discovered msg now d (dhcp_discover msg now d)"
  by (cases "discover_loop (chaddr msg) now 0 DHCPS_MAX_IP (ds_lease d)")
    (simp add: discovered_def dhcp_discover_def Let_def flip: chaddr_def)

definition same_head :: "u8 list \<Rightarrow> u8 list \<Rightarrow> bool" where
  "same_head msg p \<longleftrightarrow> DHCP_MIN_SIZE \<le> length p \<and> take DHCP_MIN_SIZE msg = take DHCP_MIN_SIZE p"

lemma process_cases:
  assumes "length junk = MSG_SIZE" "dhcp_server_process junk now p d = Some d'"
  obtains "d' = d"
  | msg where "length msg = MSG_SIZE" "chaddr msg = chaddr p" "discovered msg now d d'" "same_head msg p"
  | msg where "length msg = MSG_SIZE" "chaddr msg = chaddr p" "acknowledged msg now d d'" "same_head msg p"
proof (cases "length p < DHCP_MIN_SIZE")
  case True
  then show thesis using assms(2) that(1) by (simp add: dhcp_server_process_def)
next
  case False
  let ?msg = "take MSG_SIZE p @ drop (length p) (take MSG_SIZE junk)"
  have l: "length ?msg = MSG_SIZE" using assms(1) by simp
  have h: "same_head ?msg p" using False by (simp add: same_head_def dhcp_offsets)
  have c: "chaddr ?msg = chaddr p" using False by (simp add: chaddr_def dhcp_offsets take_drop)
  have "d' = d \<or> d' = dhcp_discover ?msg now d \<or> dhcp_request ?msg now d = Some d'"
    using assms(2) False by (auto simp: dhcp_server_process_def Let_def split: option.splits if_splits)
  then show thesis using that l c h request_cases [of ?msg now d d'] discovered_discover [of ?msg now d] by blast
qed

lemma discover_ok:
  assumes "dhcp_ok d" "discover_loop mac now 0 DHCPS_MAX_IP (ds_lease d) = (yi, ls)"
  shows "dhcp_ok (d\<lparr>ds_lease := ls\<rparr>)" "list_all2 (swept now) (ds_lease d) ls"
    "yi = DHCPS_MAX_IP \<or> yi < DHCPS_MAX_IP \<and> dl_mac (ls ! yi) \<in> {mac, NO_MAC}"
proof -
  show sw: "list_all2 (swept now) (ds_lease d) ls" by (rule discover_loop_swept [OF assms(2)])
  have "length (dl_mac l) = 6" if l: "l \<in> set ls" for l
  proof -
    obtain i where "i < length ls" "l = ls ! i" using l by (auto simp: in_set_conv_nth)
    then have "swept now (ds_lease d ! i) l" "ds_lease d ! i \<in> set (ds_lease d)"
      using sw by (auto simp: list_all2_conv_all_nth)
    then show ?thesis using assms(1) by (auto simp: swept_def dhcp_ok_def NO_MAC_def)
  qed
  then show "dhcp_ok (d\<lparr>ds_lease := ls\<rparr>)" using assms(1) sw by (auto simp: dhcp_ok_def dest: list_all2_lengthD)
  show "yi = DHCPS_MAX_IP \<or> yi < DHCPS_MAX_IP \<and> dl_mac (ls ! yi) \<in> {mac, NO_MAC}"
    using discover_loop_result [OF assms(2)] assms(1) by (auto simp: dhcp_ok_def split: if_splits)
qed

section \<open>Who holds an address\<close>

definition LEASE_MS :: nat where "LEASE_MS = 86400000"

definition holds :: "nat \<Rightarrow> u8 list \<Rightarrow> nat \<Rightarrow> dhcp_server \<Rightarrow> bool" where
  "holds a m T d \<longleftrightarrow> a < DHCPS_MAX_IP \<and>
     (\<exists>T'. T \<le> T' \<and> T' \<le> T + LEASE_MS \<and> ds_lease d ! a = \<lparr>dl_mac = m, dl_expiry = lease_expiry (of_nat T')\<rparr>)"

text \<open>The messages sent by a step.\<close>

definition sent :: "dhcp_server \<Rightarrow> dhcp_server \<Rightarrow> u8 list list" where
  "sent d d' = concat (map (\<lambda>c. case c of Udp_send r \<Rightarrow> [r] | _ \<Rightarrow> []) (drop (length (ds_calls d)) (ds_calls d')))"

lemma sent_simps [simp]:
  "sent d d = []" "sent d (d\<lparr>ds_lease := ls\<rparr>) = []"
  "sent d (dhcp_send r (d\<lparr>ds_lease := ls\<rparr>)) = [r]"
  by (simp_all add: sent_def dhcp_send_def)

lemma hold_step:
  assumes "dhcp_ok d" "holds a m T d" "m \<noteq> NO_MAC" "T \<le> t" "t \<le> T + LEASE_MS" "length junk = MSG_SIZE"
    and "dhcp_server_process junk (of_nat t) p d = Some d'"
  shows "dhcp_ok d' \<and> holds a m T d' \<and> (\<forall>r \<in> set (sent d d'). reply_host r = a \<longrightarrow> chaddr r = m) \<and>
    prefix (ds_calls d) (ds_calls d')"
proof -
  obtain T' where a: "a < DHCPS_MAX_IP" and T': "T \<le> T'" "T' \<le> T + LEASE_MS"
    and la: "ds_lease d ! a = \<lparr>dl_mac = m, dl_expiry = lease_expiry (of_nat T')\<rparr>"
    using assms(2) by (auto simp: holds_def)
  have ln: "length (ds_lease d) = DHCPS_MAX_IP" "length (ds_ip d) = 4" "length (ds_nm d) = 4"
    using assms(1) by (auto simp: dhcp_ok_def)
  from assms(6,7) show ?thesis
  proof (cases rule: process_cases)
    case 1
    then show ?thesis using assms(1,2) by simp
  next
    case (2 msg)
    then obtain yi ls where ls: "discover_loop (chaddr msg) (of_nat t) 0 DHCPS_MAX_IP (ds_lease d) = (yi, ls)"
      "d' = (if yi = DHCPS_MAX_IP then d\<lparr>ds_lease := ls\<rparr>
             else dhcp_send (dhcp_reply (d\<lparr>ds_lease := ls\<rparr>) msg DHCPOFFER yi) (d\<lparr>ds_lease := ls\<rparr>))"
      by (auto simp: discovered_def)
    note ok = discover_ok [OF assms(1) ls(1)]
    have "\<not> lease_expired (of_nat t) (ds_lease d ! a)"
      unfolding la by (rule lease_lasts) (use T' assms(4,5) in \<open>simp_all add: LEASE_MS_def\<close>)
    then have same: "ls ! a = ds_lease d ! a"
      using ok(2) a ln(1) by (auto simp: swept_def list_all2_conv_all_nth)
    have h: "holds a m T (d\<lparr>ds_lease := ls\<rparr>)" using a T' la same by (auto simp: holds_def)
    show ?thesis
    proof (cases "yi = DHCPS_MAX_IP")
      case True
      then show ?thesis using ls(2) ok(1) h by simp
    next
      case False
      then have yi: "yi < DHCPS_MAX_IP" "dl_mac (ls ! yi) \<in> {chaddr msg, NO_MAC}" using ok(3) by auto
      let ?r = "dhcp_reply (d\<lparr>ds_lease := ls\<rparr>) msg DHCPOFFER yi"
      have "reply_host ?r = yi" "chaddr ?r = chaddr msg"
        using reply_fields [of msg "d\<lparr>ds_lease := ls\<rparr>" yi] 2(1) ln yi(1) by simp_all
      moreover have "chaddr msg = m" if "yi = a" using yi(2) that same la assms(3) by auto
      ultimately show ?thesis
        using ls(2) False ok(1) h by (auto simp: dhcp_send_def dhcp_ok_def holds_def sent_def)
    qed
  next
    case (3 msg)
    then obtain yi where yi: "yi < DHCPS_MAX_IP" "dl_mac (ds_lease d ! yi) \<in> {chaddr msg, NO_MAC}"
      and d': "d' = dhcp_send (dhcp_reply (d\<lparr>ds_lease := (ds_lease d)[yi := \<lparr>dl_mac = chaddr msg, dl_expiry = lease_expiry (of_nat t)\<rparr>]\<rparr>) msg DHCPACK yi)
        (d\<lparr>ds_lease := (ds_lease d)[yi := \<lparr>dl_mac = chaddr msg, dl_expiry = lease_expiry (of_nat t)\<rparr>]\<rparr>)"
      by (auto simp: acknowledged_def dhcp_grant_def chaddr_def Let_def)
    let ?l = "(ds_lease d)[yi := \<lparr>dl_mac = chaddr msg, dl_expiry = lease_expiry (of_nat t)\<rparr>]"
    let ?r = "dhcp_reply (d\<lparr>ds_lease := ?l\<rparr>) msg DHCPACK yi"
    have r: "reply_host ?r = yi" "chaddr ?r = chaddr msg"
      using reply_fields [of msg "d\<lparr>ds_lease := ?l\<rparr>" yi] 3(1) ln yi(1) by simp_all
    have mine: "chaddr msg = m" if "yi = a" using yi(2) that la assms(3) by auto
    have "length (chaddr msg) = 6" using 3(1) by (simp add: chaddr_def dhcp_offsets)
    then have "dhcp_ok (d\<lparr>ds_lease := ?l\<rparr>)"
      using assms(1) by (auto simp: dhcp_ok_def dest!: subsetD [OF set_update_subset_insert])
    moreover have "holds a m T (d\<lparr>ds_lease := ?l\<rparr>)"
    proof (cases "yi = a")
      case True
      then show ?thesis using mine a ln(1) assms(4,5) by (auto simp: holds_def)
    next
      case False
      then show ?thesis using a T' la by (auto simp: holds_def)
    qed
    ultimately show ?thesis
      using d' r mine by (auto simp: dhcp_send_def dhcp_ok_def holds_def sent_def)
  qed
qed

section \<open>Properties\<close>

text \<open>A run of packets: what the variable held, the time, the bytes.\<close>

fun dhcp_run :: "(u8 list \<times> nat \<times> u8 list) list \<Rightarrow> dhcp_server \<Rightarrow> dhcp_server option" where
  "dhcp_run [] d = Some d"
| "dhcp_run ((junk, t, p) # es) d =
     (case dhcp_server_process junk (of_nat t) p d of None \<Rightarrow> None | Some d1 \<Rightarrow> dhcp_run es d1)"

definition served_at :: "nat \<Rightarrow> u8 list \<times> nat \<times> u8 list \<Rightarrow> bool" where
  "served_at T e \<longleftrightarrow> length (fst e) = MSG_SIZE \<and> T \<le> fst (snd e) \<and> fst (snd e) \<le> T + LEASE_MS"

lemma sent_append: "prefix (ds_calls d) (ds_calls d1) \<Longrightarrow> prefix (ds_calls d1) (ds_calls d2) \<Longrightarrow> sent d d2 = sent d d1 @ sent d1 d2"
  by (auto simp: sent_def prefix_def)

lemma hold_run:
  assumes "dhcp_ok d" "holds a m T d" "m \<noteq> NO_MAC" "\<forall>e \<in> set es. served_at T e" "dhcp_run es d = Some d'"
  shows "holds a m T d' \<and> (\<forall>r \<in> set (sent d d'). reply_host r = a \<longrightarrow> chaddr r = m) \<and> prefix (ds_calls d) (ds_calls d')"
  using assms
proof (induction es arbitrary: d)
  case (Cons e es)
  obtain junk t p where e: "e = (junk, t, p)" by (cases e)
  obtain d1 where d1: "dhcp_server_process junk (of_nat t) p d = Some d1" "dhcp_run es d1 = Some d'"
    using Cons.prems(5) by (auto simp: e split: option.splits)
  have at: "T \<le> t" "t \<le> T + LEASE_MS" "length junk = MSG_SIZE" using Cons.prems(4) by (auto simp: e served_at_def)
  have step: "dhcp_ok d1 \<and> holds a m T d1 \<and> (\<forall>r \<in> set (sent d d1). reply_host r = a \<longrightarrow> chaddr r = m) \<and>
      prefix (ds_calls d) (ds_calls d1)"
    by (rule hold_step [OF Cons.prems(1-3) at d1(1)])
  have rest: "holds a m T d' \<and> (\<forall>r \<in> set (sent d1 d'). reply_host r = a \<longrightarrow> chaddr r = m) \<and> prefix (ds_calls d1) (ds_calls d')"
    using Cons.IH [of d1] step Cons.prems(3,4) d1(2) by simp
  show ?case using step rest sent_append [of d d1 d'] prefix_order.order_trans by fastforce
qed simp

text \<open>C17: An address belongs to one client at a time.  Once the server has acknowledged an address to
  a client, then for the 24 hours of the lease, whatever packets arrive, it neither offers nor
  acknowledges this address to any other hardware address.\<close>

theorem lease_exclusive:
  assumes "dhcp_ok d" "length junk = MSG_SIZE" "dhcp_server_process junk (of_nat T) p d = Some d1"
    and "sent d d1 = [ack]" "reply_type ack = DHCPACK" "chaddr ack \<noteq> NO_MAC"
    and "\<forall>e \<in> set es. served_at T e" "dhcp_run es d1 = Some d2"
  shows "\<forall>r \<in> set (sent d1 d2). reply_host r = reply_host ack \<longrightarrow> chaddr r = chaddr ack"
proof -
  have ln: "length (ds_lease d) = DHCPS_MAX_IP" "length (ds_ip d) = 4" "length (ds_nm d) = 4"
    using assms(1) by (auto simp: dhcp_ok_def)
  have "dhcp_ok d1 \<and> holds (reply_host ack) (chaddr ack) T d1"
    using assms(2,3)
  proof (cases rule: process_cases)
    case 1
    then show ?thesis using assms(4) by simp
  next
    case (2 msg)
    then obtain yi ls where ls: "discover_loop (chaddr msg) (of_nat T) 0 DHCPS_MAX_IP (ds_lease d) = (yi, ls)"
      "d1 = (if yi = DHCPS_MAX_IP then d\<lparr>ds_lease := ls\<rparr>
             else dhcp_send (dhcp_reply (d\<lparr>ds_lease := ls\<rparr>) msg DHCPOFFER yi) (d\<lparr>ds_lease := ls\<rparr>))"
      by (auto simp: discovered_def)
    then have yi: "yi < DHCPS_MAX_IP" using discover_ok(3) [OF assms(1) ls(1)] assms(4) by (auto split: if_splits)
    have "ack = dhcp_reply (d\<lparr>ds_lease := ls\<rparr>) msg DHCPOFFER yi" using ls(2) yi assms(4) by simp
    then show ?thesis
      using reply_fields(2) [of msg "d\<lparr>ds_lease := ls\<rparr>" yi] 2(1) ln yi assms(5) by (simp add: DHCPOFFER_def DHCPACK_def)
  next
    case (3 msg)
    then obtain yi where yi: "yi < DHCPS_MAX_IP" "d1 = dhcp_grant msg (of_nat T) yi d" by (auto simp: acknowledged_def)
    let ?l = "(ds_lease d)[yi := \<lparr>dl_mac = chaddr msg, dl_expiry = lease_expiry (of_nat T)\<rparr>]"
    have d1: "d1 = dhcp_send (dhcp_reply (d\<lparr>ds_lease := ?l\<rparr>) msg DHCPACK yi) (d\<lparr>ds_lease := ?l\<rparr>)"
      using yi(2) by (simp add: dhcp_grant_def chaddr_def Let_def)
    then have "ack = dhcp_reply (d\<lparr>ds_lease := ?l\<rparr>) msg DHCPACK yi" using assms(4) by simp
    then have "reply_host ack = yi" "chaddr ack = chaddr msg"
      using reply_fields [of msg "d\<lparr>ds_lease := ?l\<rparr>" yi] 3(1) ln yi(1) by simp_all
    moreover have "length (chaddr msg) = 6" using 3(1) by (simp add: chaddr_def dhcp_offsets)
    ultimately show ?thesis
      using assms(1) ln yi(1)
      by (auto simp: d1 dhcp_send_def dhcp_ok_def holds_def dest!: subsetD [OF set_update_subset_insert])
  qed
  then show ?thesis using hold_run [of d1] assms(6-8) by blast
qed

text \<open>Packets as clients send them.\<close>

definition client_packet :: "u8 list \<Rightarrow> u8 list \<Rightarrow> u8 list \<Rightarrow> u8 list \<Rightarrow> u8 list" where
  "client_packet pre mac post opts = pre @ mac @ post @ opts"


definition discover_options :: "u8 list" where
  "discover_options = [OPT_MSG_TYPE, 1, DHCPDISCOVER, OPT_END]"

definition request_options :: "u8 list \<Rightarrow> u8 list" where
  "request_options ip = [OPT_MSG_TYPE, 1, DHCPREQUEST, OPT_REQUESTED_IP, 4] @ ip @ [OPT_END]"







lemma grant_sent:
  assumes "dhcp_ok d" "length msg = MSG_SIZE" "a < DHCPS_MAX_IP"
  shows "\<exists>r. sent d (dhcp_grant msg now a d) = [r] \<and> reply_type r = DHCPACK \<and> chaddr r = chaddr msg \<and> reply_host r = a"
    and "ds_lease (dhcp_grant msg now a d) ! a = \<lparr>dl_mac = chaddr msg, dl_expiry = lease_expiry now\<rparr>"
    and "dhcp_ok (dhcp_grant msg now a d)"
proof -
  let ?l = "(ds_lease d)[a := \<lparr>dl_mac = chaddr msg, dl_expiry = lease_expiry now\<rparr>]"
  have ln: "length (ds_lease d) = DHCPS_MAX_IP" "length (ds_ip d) = 4" "length (ds_nm d) = 4"
    using assms(1) by (auto simp: dhcp_ok_def)
  have eq: "dhcp_grant msg now a d = dhcp_send (dhcp_reply (d\<lparr>ds_lease := ?l\<rparr>) msg DHCPACK a) (d\<lparr>ds_lease := ?l\<rparr>)"
    by (simp add: dhcp_grant_def chaddr_def Let_def)
  show "\<exists>r. sent d (dhcp_grant msg now a d) = [r] \<and> reply_type r = DHCPACK \<and> chaddr r = chaddr msg \<and> reply_host r = a"
    using reply_fields [of msg "d\<lparr>ds_lease := ?l\<rparr>" a] assms(2,3) ln by (simp add: eq)
  show "ds_lease (dhcp_grant msg now a d) ! a = \<lparr>dl_mac = chaddr msg, dl_expiry = lease_expiry now\<rparr>"
    using assms(3) ln by (simp add: eq dhcp_send_def)
  have "length (chaddr msg) = 6" using assms(2) by (simp add: chaddr_def dhcp_offsets)
  then show "dhcp_ok (dhcp_grant msg now a d)"
    using assms(1) by (auto simp: eq dhcp_send_def dhcp_ok_def dest!: subsetD [OF set_update_subset_insert])
qed


text \<open>A server as \<open>dhcp_server_init\<close> leaves it, with the addresses the access point gives it.\<close>

definition dhcp0 :: dhcp_server where
  "dhcp0 = dhcp_server_init (Some 1) [192, 168, 4, 1] [255, 255, 255, 0]
     \<lparr>ds_ip = [], ds_nm = [], ds_lease = [], ds_udp = None, ds_calls = []\<rparr>"

lemma dhcp0_ok: "dhcp_ok dhcp0"
  by (simp add: dhcp0_def dhcp_server_init_def dhcp_ok_def no_lease_def NO_MAC_def)


text \<open>What a client reads from a reply.\<close>

definition option_value :: "u8 list \<Rightarrow> u8 \<Rightarrow> u8 list option" where
  "option_value opts code = (case opt_find opts code of
     Some (Some i) \<Rightarrow> Some (take (unat (opts ! (i + 1))) (drop (i + 2) opts)) | _ \<Rightarrow> None)"

lemma reply_options_read:
  assumes "length (ds_ip d) = 4" "length (ds_nm d) = 4"
  shows "option_value (reply_options d t) OPT_MSG_TYPE = Some [t]"
    "option_value (reply_options d t) OPT_SERVER_ID = Some (ds_ip d)"
    "option_value (reply_options d t) OPT_SUBNET_MASK = Some (ds_nm d)"
    "option_value (reply_options d t) OPT_ROUTER = Some (ds_ip d)"
    "option_value (reply_options d t) OPT_DNS = Some (ds_ip d)"
    "option_value (reply_options d t) OPT_LEASE_TIME = Some [0, 1, 0x51, 0x80]"
proof -
  obtain a b c e f g h i where d: "ds_ip d = [a, b, c, e]" "ds_nm d = [f, g, h, i]"
    using assms by (auto simp: length_Suc_conv numeral_eq_Suc)
  note defs = option_value_def opt_find_def opt_find_from.simps reply_options_def OPT_MSG_TYPE_def OPT_SERVER_ID_def
    OPT_SUBNET_MASK_def OPT_ROUTER_def OPT_DNS_def OPT_LEASE_TIME_def OPT_END_def
  show "option_value (reply_options d t) OPT_MSG_TYPE = Some [t]"
    "option_value (reply_options d t) OPT_SERVER_ID = Some (ds_ip d)"
    "option_value (reply_options d t) OPT_SUBNET_MASK = Some (ds_nm d)"
    "option_value (reply_options d t) OPT_ROUTER = Some (ds_ip d)"
    "option_value (reply_options d t) OPT_DNS = Some (ds_ip d)"
    "option_value (reply_options d t) OPT_LEASE_TIME = Some [0, 1, 0x51, 0x80]"
    by (simp_all add: d defs)
qed

text \<open>The shape of the replies to \<open>p\<close>.\<close>

definition reply_to :: "dhcp_server \<Rightarrow> u8 list \<Rightarrow> u8 list \<Rightarrow> bool" where
  "reply_to d p r \<longleftrightarrow> length r = 274 \<and> r ! 0 = DHCPOFFER \<and> take 15 (drop 1 r) = take 15 (drop 1 p) \<and>
     take 3 (drop OFF_YIADDR r) = take 3 (ds_ip d) \<and> reply_host r < DHCPS_MAX_IP \<and>
     take 220 (drop 20 r) = take 220 (drop 20 p) \<and> reply_type r \<in> {DHCPOFFER, DHCPACK} \<and>
     option_value (drop 240 r) OPT_MSG_TYPE = Some [reply_type r] \<and>
     option_value (drop 240 r) OPT_SERVER_ID = Some (ds_ip d) \<and>
     option_value (drop 240 r) OPT_SUBNET_MASK = Some (ds_nm d) \<and>
     option_value (drop 240 r) OPT_ROUTER = Some (ds_ip d) \<and>
     option_value (drop 240 r) OPT_DNS = Some (ds_ip d) \<and>
     option_value (drop 240 r) OPT_LEASE_TIME = Some [0, 1, 0x51, 0x80]"

lemma same_head_parts:
  assumes "same_head msg p"
  shows "take 15 (drop 1 msg) = take 15 (drop 1 p)" "take 220 (drop 20 msg) = take 220 (drop 20 p)"
proof -
  have "take 240 (take 243 msg) = take 240 (take 243 p)" using assms by (simp add: same_head_def DHCP_MIN_SIZE_def)
  then have h: "take 240 msg = take 240 p" by simp
  have "take 15 (drop 1 (take 240 msg)) = take 15 (drop 1 (take 240 p))" by (simp only: h)
  then show "take 15 (drop 1 msg) = take 15 (drop 1 p)" by (simp add: drop_take)
  have "drop 20 (take 240 msg) = drop 20 (take 240 p)" by (simp only: h)
  then show "take 220 (drop 20 msg) = take 220 (drop 20 p)" by (simp add: drop_take)
qed

lemma dhcp_reply_to:
  assumes "length msg = MSG_SIZE" "length (ds_ip d) = 4" "length (ds_nm d) = 4" "yi < DHCPS_MAX_IP"
    "same_head msg p" "t \<in> {DHCPOFFER, DHCPACK}"
  shows "reply_to d p (dhcp_reply d msg t yi)"
proof -
  note r = reply_fields [OF assms(1-4), of t]
  have l: "length msg = 548" using assms(1) by (simp add: dhcp_offsets)
  have "take 15 (drop 1 (dhcp_reply d msg t yi)) = take 15 (drop 1 msg)"
    "take 220 (drop 20 (dhcp_reply d msg t yi)) = take 220 (drop 20 msg)"
    using l assms(2) by (simp_all add: reply_parts [OF assms(1-3)] take_Cons' drop_Cons')
  then show ?thesis
    using r assms(4,6) same_head_parts [OF assms(5)] reply_options_read [OF assms(2,3)]
    unfolding reply_to_def OFF_YIADDR_def by auto
qed

text \<open>C19: Every packet leaves a well-formed lease table and an unchanged address, and is answered by at
  most one message, which is well formed: a boot reply of 274 bytes that repeats the transaction, the
  flags and the hardware address of the request, gives an address of the server's network among its
  eight, and whose options, read as \<open>opt_find\<close> reads them, are the message type, the server, the
  mask, the router, the name server and the lease time of a day.\<close>

theorem dhcp_replies:
  assumes "dhcp_ok d" "length junk = MSG_SIZE" "dhcp_server_process junk now p d = Some d'"
  shows "dhcp_ok d' \<and> ds_ip d' = ds_ip d \<and> ds_nm d' = ds_nm d \<and> ds_udp d' = ds_udp d \<and>
    (ds_calls d' = ds_calls d \<or> (\<exists>r. ds_calls d' = ds_calls d @ [Udp_send r] \<and> reply_to d p r))"
  using assms(2,3)
proof (cases rule: process_cases)
  case 1
  then show ?thesis using assms(1) by simp
next
  case (2 msg)
  then obtain yi ls where ls: "discover_loop (chaddr msg) now 0 DHCPS_MAX_IP (ds_lease d) = (yi, ls)"
    "d' = (if yi = DHCPS_MAX_IP then d\<lparr>ds_lease := ls\<rparr>
           else dhcp_send (dhcp_reply (d\<lparr>ds_lease := ls\<rparr>) msg DHCPOFFER yi) (d\<lparr>ds_lease := ls\<rparr>))"
    by (auto simp: discovered_def)
  note ok = discover_ok [OF assms(1) ls(1)]
  have "reply_to d p (dhcp_reply (d\<lparr>ds_lease := ls\<rparr>) msg DHCPOFFER yi)" if "yi < DHCPS_MAX_IP"
    using dhcp_reply_to [of msg "d\<lparr>ds_lease := ls\<rparr>" yi p DHCPOFFER] 2(1,4) assms(1) that
    by (simp add: dhcp_ok_def reply_to_def)
  then show ?thesis using ok(1,3) ls(2) by (auto simp: dhcp_send_def dhcp_ok_def)
next
  case (3 msg)
  then obtain yi where yi: "yi < DHCPS_MAX_IP" "d' = dhcp_grant msg now yi d" by (auto simp: acknowledged_def)
  let ?l = "(ds_lease d)[yi := \<lparr>dl_mac = chaddr msg, dl_expiry = lease_expiry now\<rparr>]"
  have "reply_to d p (dhcp_reply (d\<lparr>ds_lease := ?l\<rparr>) msg DHCPACK yi)"
    using dhcp_reply_to [of msg "d\<lparr>ds_lease := ?l\<rparr>" yi p DHCPACK] 3(1,4) assms(1) yi(1)
    by (simp add: dhcp_ok_def reply_to_def)
  moreover have "dhcp_ok d'" unfolding yi(2) by (rule grant_sent(3) [OF assms(1) 3(1) yi(1)])
  ultimately show ?thesis by (simp add: yi(2) dhcp_grant_def dhcp_send_def Let_def flip: chaddr_def)
qed

theorem dhcp_replies_witness:
  "\<exists>d'. dhcp_server_process (replicate 548 0) 5
      (client_packet (replicate 28 0) [1, 2, 3, 4, 5, 6] (replicate 206 0) (request_options [192, 168, 4, 18])) dhcp0 = Some d' \<and>
    dhcp_ok d' \<and> length (ds_calls d') = 3"
proof -
  let ?p = "client_packet (replicate 28 0) [1, 2, 3, 4, 5, 6] (replicate 206 0) (request_options [192, 168, 4, 18])"
  have "map_option (\<lambda>d. length (ds_calls d)) (dhcp_server_process (replicate 548 0) 5 ?p dhcp0) = Some 3" by code_simp
  then obtain d' where "dhcp_server_process (replicate 548 0) 5 ?p dhcp0 = Some d'" "length (ds_calls d') = 3" by auto
  then show ?thesis using dhcp_replies [of dhcp0 "replicate 548 0" 5 ?p d'] dhcp0_ok by (auto simp: MSG_SIZE_def)
qed

theorem lease_exclusive_witness:
  "\<exists>d1 ack d2. dhcp_server_process (replicate 548 0) 0
      (client_packet (replicate 28 0) [1, 2, 3, 4, 5, 6] (replicate 206 0) (request_options [192, 168, 4, 16])) dhcp0 = Some d1 \<and>
    sent dhcp0 d1 = [ack] \<and>
    dhcp_run [(replicate 548 0, 77, client_packet (replicate 28 0) [2, 2, 3, 4, 5, 6] (replicate 206 0) discover_options)] d1 = Some d2 \<and>
    length (sent d1 d2) = 1 \<and> (\<forall>r \<in> set (sent d1 d2). reply_host r \<noteq> reply_host ack)"
proof -
  let ?p = "client_packet (replicate 28 0) [1, 2, 3, 4, 5, 6] (replicate 206 0) (request_options [192, 168, 4, 16])"
  let ?q = "client_packet (replicate 28 0) [2, 2, 3, 4, 5, 6] (replicate 206 0) discover_options"
  let ?es = "[(replicate 548 0, 77, ?q)]"
  have c: "map_option (\<lambda>d1. (map reply_type (sent dhcp0 d1), map chaddr (sent dhcp0 d1),
      map_option (\<lambda>d2. map chaddr (sent d1 d2)) (dhcp_run ?es d1)))
      (dhcp_server_process (replicate 548 0) 0 ?p dhcp0) = Some ([DHCPACK], [[1, 2, 3, 4, 5, 6]], Some [[2, 2, 3, 4, 5, 6]])"
    by code_simp
  then obtain d1 ack d2 where d1: "dhcp_server_process (replicate 548 0) (of_nat 0) ?p dhcp0 = Some d1" "sent dhcp0 d1 = [ack]"
      "reply_type ack = DHCPACK" "chaddr ack = [1, 2, 3, 4, 5, 6]"
    and d2: "dhcp_run ?es d1 = Some d2" "map chaddr (sent d1 d2) = [[2, 2, 3, 4, 5, 6]]"
    by (auto simp del: dhcp_run.simps simp: map_eq_Cons_conv)
  have nz: "[1, 2, 3, 4, 5, 6] \<noteq> NO_MAC" by code_simp
  have "\<forall>r \<in> set (sent d1 d2). reply_host r = reply_host ack \<longrightarrow> chaddr r = chaddr ack"
    by (rule lease_exclusive [OF dhcp0_ok _ d1(1-3) _ _ d2(1)]) (simp_all add: MSG_SIZE_def served_at_def LEASE_MS_def d1(4) nz)
  then show ?thesis
    using d1 d2 by (intro exI [of _ d1] exI [of _ ack] exI [of _ d2]) (auto simp: map_eq_Cons_conv simp del: dhcp_run.simps)
qed

text \<open>The search for an option can read behind the message: a chain of options that arrives at the
  last byte of the structure takes the byte after it for a length.\<close>

theorem dhcp_overread:
  "dhcp_server_process (replicate 548 0) 0 (replicate 240 0 @ [1, 255] @ replicate 255 0 @ [1, 48] @ replicate 48 0 @ [1]) dhcp0 = None"
  by code_simp

end
