(* ===== verification/Ir_Wait.thy ===== *)
theory Ir_Wait
  imports Nec
begin

text \<open>
  \<open>IR_Receiver::wait_for_message\<close> (\<open>ir/ir_receiver.cpp\<close>).  The caller is blocked on a binary
  semaphore that every \<open>reset\<close> of the receiver releases; while it is blocked, the interrupts of
  the object are served.  They are an argument: the handlers that run, in order, before the
  deadline, or, without a timeout, all that ever run.
\<close>

section \<open>Definitions\<close>

type_synonym 'z handler = "'z ir_receiver_scheme \<Rightarrow> 'z ir_receiver_scheme"

text \<open>A semaphore of one permit.\<close>

definition sem_try_acquire :: "nat \<Rightarrow> bool \<times> nat" where
  "sem_try_acquire permits = (if permits > 0 then (True, permits - 1) else (False, permits))"

definition sem_release :: "nat \<Rightarrow> nat" where
  "sem_release permits = (if permits < 1 then permits + 1 else permits)"

text \<open>Blocked on the semaphore: the handler that releases it ends the wait.\<close>

fun sem_acquire :: "'z handler list \<Rightarrow> 'z ir_receiver_scheme \<Rightarrow> bool \<times> 'z ir_receiver_scheme" where
  "sem_acquire [] s = (False, s)"
| "sem_acquire (h # hs) s =
     (let s1 = h s in if releases (ir_calls s) < releases (ir_calls s1) then (True, s1) else sem_acquire hs s1)"

definition wait_for_message ::
  "u32 \<Rightarrow> 'z handler list \<Rightarrow> nat \<Rightarrow> 'z ir_receiver_scheme \<Rightarrow> (bool \<times> nat \<times> 'z ir_receiver_scheme) option" where
  "wait_for_message timeout_ms hs permits s =
     (case sem_try_acquire permits of (ret, permits1) \<Rightarrow>
        if ret
        then (case sem_acquire hs s of (got, s1) \<Rightarrow>
                if timeout_ms = 0 \<and> \<not> got then None
                else Some (got, sem_release permits1, s1))
        else Some (False, permits1, s))"

definition edge_handler :: "pool \<Rightarrow> 'z ir_vtable \<Rightarrow> u64 \<times> bool \<Rightarrow> 'z handler" where
  "edge_handler pool vt = (\<lambda>(ts, falling). store_timestamp pool vt ts falling)"

section \<open>Waiting over the edges of a frame\<close>

lemma sem_acquire_append:
  "sem_acquire hs s = (True, t) \<Longrightarrow> sem_acquire (hs @ gs) s = (True, t)"
  by (induction hs arbitrary: s) (auto simp: Let_def split: if_splits)

text \<open>The wait lasts to the first edge that releases the semaphore.\<close>

lemma sem_acquire_feed:
  assumes "\<And>k. k < length es \<Longrightarrow> releases (ir_calls (feed pool vt s (take k es))) = releases (ir_calls s)"
    and "releases (ir_calls s) < releases (ir_calls (feed pool vt s es))"
  shows "sem_acquire (map (edge_handler pool vt) es) s = (True, feed pool vt s es)"
  using assms
proof (induction es arbitrary: s)
  case (Cons e es)
  obtain ts f where e: "e = (ts, f)" by (cases e)
  let ?s = "store_timestamp pool vt ts f s"
  show ?case
  proof (cases "es = []")
    case True
    then show ?thesis using Cons.prems(2) by (simp add: e edge_handler_def Let_def)
  next
    case False
    then have s: "releases (ir_calls ?s) = releases (ir_calls s)" using Cons.prems(1) [of 1] by (simp add: e)
    have "sem_acquire (map (edge_handler pool vt) es) ?s = (True, feed pool vt ?s es)"
    proof (rule Cons.IH)
      fix k assume "k < length es"
      then show "releases (ir_calls (feed pool vt ?s (take k es))) = releases (ir_calls ?s)"
        using Cons.prems(1) [of "Suc k"] s by (simp add: e)
    next
      show "releases (ir_calls ?s) < releases (ir_calls (feed pool vt ?s es))"
        using Cons.prems(2) s by (simp add: e)
    qed
    then show ?thesis using s by (simp add: e edge_handler_def Let_def)
  qed
qed simp

lemma take_edge_train: "take k (edge_train t f ps) = edge_train t f (take k ps)"
proof (induction ps arbitrary: k t f)
  case (Cons p ps)
  then show ?case by (cases k) simp_all
qed simp

lemma length_edge_train [simp]: "length (edge_train t f ps) = length ps"
  by (induction ps arbitrary: t f) simp_all

context framed_protocol
begin

lemma wait_frame:
  assumes "ir_sync s = 0" "length (ir_pulses s) = ir_mx_pulse s" "length ps = ir_mx_pulse s" "3 \<le> length ps"
    and "win0 (ps ! 0)" "win1 (ps ! 1)"
  shows "sem_acquire (map (edge_handler pool vt) (edge_train (ir_prev_ts s) True ps) @ hs) s =
    (True, feed pool vt s (edge_train (ir_prev_ts s) True ps))"
proof (rule sem_acquire_append, rule sem_acquire_feed)
  show "releases (ir_calls (feed pool vt s (take k (edge_train (ir_prev_ts s) True ps)))) = releases (ir_calls s)"
    if "k < length (edge_train (ir_prev_ts s) True ps)" for k
    unfolding take_edge_train by (rule receive_prefix) (use assms that in simp_all)
  show "releases (ir_calls s) < releases (ir_calls (feed pool vt s (edge_train (ir_prev_ts s) True ps)))"
    using receive_frame(10) [OF assms refl, of pool] by simp
qed

end

section \<open>Properties\<close>

text \<open>C11: \<open>wait_for_message\<close> on an NEC receiver.  With a free semaphore and an idle receiver in any
  reachable state, a message that arrives before the deadline ends the wait at its last edge, with
  the result true, the receive callback made and the semaphore free again, whatever comes after.\<close>

theorem wait_hears_message:
  assumes "rtranclp (ir_step pool nec_vtable) (nec_new gpio address mem) s"
    and "ir_sync s = 0" and "ir_rcb s" and "nec_accepts s addr"
    and "disturbed nec_band ps (nec_message_times addr func)"
  shows "\<exists>u. wait_for_message tmo
      (map (edge_handler pool nec_vtable) (edge_train (ir_prev_ts s) True ps) @ later) 1 s = Some (True, 1, u) \<and>
    ir_sync u = 0 \<and> received (ir_calls u) = received (ir_calls s) @
      [(train_end (ir_prev_ts s) ps, nec_heard addr, func AND 0xff)]"
proof -
  let ?u = "feed pool nec_vtable s (edge_train (ir_prev_ts s) True ps)"
  have idle: "idle_receiver s" by (rule nec_reachable_idle [OF assms(1,2)])
  have s: "ir_sync s = 0" "length (ir_pulses s) = ir_mx_pulse s" "length ps = ir_mx_pulse s" "3 \<le> length ps"
    using idle nec_decode_data(3) [OF assms(5)] by (auto simp: idle_receiver_def ir_ok_def)
  note w = nec.wait_frame [OF s nec_decode_data(1,2) [OF assms(5)], of pool later]
  have "ir_sync ?u = 0" "received (ir_calls ?u) = received (ir_calls s) @
      [(train_end (ir_prev_ts s) ps, nec_heard addr, func AND 0xff)]"
    using nec_receive(1,3) [OF idle assms(5) refl, of pool] assms(3,4) by simp_all
  then show ?thesis using w by (simp add: wait_for_message_def sem_try_acquire_def sem_release_def)
qed

lemma wait_hears_message_witness:
  "\<exists>u. wait_for_message 0 (map (edge_handler (\<lambda>_. 1) nec_vtable) (edge_train 0 True (nec_message_times 4 8))) 1 nec_demo =
      Some (True, 1, u) \<and> received (ir_calls u) = [(train_end 0 (nec_message_times 4 8), 4, 8)]"
proof -
  have "nec_heard 4 = 4" "(8 :: u16) AND 0xff = 8" by (simp_all add: nec_heard_def Let_def)
  with wait_hears_message [OF nec_demo_reachable nec_demo_simps(1,2,4) nec_clean, of 0 "[]"]
  show ?thesis by (auto simp: nec_demo_simps)
qed

text \<open>The result true does not mean a message: every reset releases the semaphore, so a leading mark
  that no sync space follows ends the wait, with the result true and nothing received.\<close>

theorem wait_fooled:
  assumes "ir_sync s = 0" "nec_near p 16" "\<not> nec_near q 8"
  shows "\<exists>u. wait_for_message tmo
      (map (edge_handler pool nec_vtable) (edge_train (ir_prev_ts s) True [p, q]) @ later) 1 s = Some (True, 1, u) \<and>
    received (ir_calls u) = received (ir_calls s)"
proof -
  let ?es = "edge_train (ir_prev_ts s) True [p, q]"
  let ?a = "start_timeout pool
    ((put_pulse p (s\<lparr>ir_n_pulse := 0, ir_sync := 1\<rparr>))\<lparr>ir_prev_ts := ir_prev_ts s + ucast p\<rparr>)"
  have a: "store_timestamp pool nec_vtable (ir_prev_ts s + ucast p) True s = ?a"
    using assms(1,2) by (cases s) (simp add: store_timestamp_def nec_check_sync_def put_pulse_def Let_def)
  have sy: "ir_sync ?a = 1" "ir_prev_ts ?a = ir_prev_ts s + ucast p" "releases (ir_calls ?a) = releases (ir_calls s)"
    "received (ir_calls ?a) = received (ir_calls s)"
    by (simp_all add: start_timeout_frame put_pulse_def)
  let ?b = "store_timestamp pool nec_vtable (ir_prev_ts s + ucast p + ucast q) False ?a"
  have b: "releases (ir_calls ?b) = releases (ir_calls s) + 1" "received (ir_calls ?b) = received (ir_calls s)"
    using sy assms(3)
    by (simp_all add: store_timestamp_def nec_check_sync_def Let_def)
      (simp_all add: ir_defs releases_def)
  have "sem_acquire (map (edge_handler pool nec_vtable) ?es) s = (True, ?b)"
    using a b(1) sy(3) by (simp add: edge_handler_def Let_def)
  then have "sem_acquire (map (edge_handler pool nec_vtable) ?es @ later) s = (True, ?b)" by (rule sem_acquire_append)
  then show ?thesis using b(2) by (simp add: wait_for_message_def sem_try_acquire_def sem_release_def)
qed

end
