(* ===== verification/Statics.thy ===== *)
theory Statics
  imports Registry
begin

text \<open>
  What the objects of a class share: the arrays, the counts, the alarm pools and the event queue
  that the first constructor makes and the last destructor gives back (\<open>IR_Receiver\<close>,
  \<open>ir/ir_receiver.cpp\<close>; \<open>Button\<close>, \<open>util/button.cpp\<close>; \<open>IR_LED\<close>, \<open>ir/ir_led.cpp\<close>).
\<close>

section \<open>Definitions\<close>

datatype class_call =
    Pool_create nat
  | Pool_destroy
  | Queue_init nat
  | Queue_free
  | Pin_init nat
  | Pin_deinit nat
  | Irq_callback nat
  | Irq_on nat
  | Irq_off nat
  | Irq_priority bool
  | Too_many

text \<open>The static members; \<open>None\<close> is the null pointer.\<close>

record 'a class_statics =
  cs_array :: "'a list option"
  cs_n :: u32
  cs_pool :: bool
  cs_calls :: "class_call list"

definition class0 :: "'a class_statics" where
  "class0 = \<lparr>cs_array = None, cs_n = 0, cs_pool = False, cs_calls = []\<rparr>"

definition cs_emit :: "class_call list \<Rightarrow> 'a class_statics \<Rightarrow> 'a class_statics" where
  "cs_emit cs s = s\<lparr>cs_calls := cs_calls s @ cs\<rparr>"

definition MX_RCVR :: nat where "MX_RCVR = 4"
definition MAX_BUTTONS :: nat where "MAX_BUTTONS = 8"
definition MAX_SIM_IR_LED :: nat where "MAX_SIM_IR_LED = 1"

text \<open>Entering the object in the array.\<close>

definition cs_enter :: "nat \<Rightarrow> 'a \<Rightarrow> 'a class_statics \<Rightarrow> 'a class_statics" where
  "cs_enter mx x s =
     (if unat (cs_n s) < mx
      then s\<lparr>cs_array := map_option (\<lambda>a. a[unat (cs_n s) := x]) (cs_array s), cs_n := cs_n s + 1\<rparr>
      else cs_emit [Too_many] s)"

text \<open>
  Taking it out: the count goes down first, and the loop runs over what is left.  Through a null
  array, or beyond its end, it has no result.
\<close>

definition cs_leave :: "'a \<Rightarrow> 'a class_statics \<Rightarrow> 'a class_statics option" where
  "cs_leave x s =
     (let n = cs_n s - 1
      in if n = 0 then Some (s\<lparr>cs_n := n\<rparr>)
         else (case cs_array s of
                 None \<Rightarrow> None
               | Some a \<Rightarrow>
                   if unat n < length a
                   then Some (s\<lparr>cs_n := n, cs_array := Some (reg_compact x [0..<unat n] 0 a)\<rparr>)
                   else None))"

definition receiver_make :: "(nat \<Rightarrow> 'a) \<Rightarrow> 'a \<Rightarrow> nat \<Rightarrow> 'a class_statics \<Rightarrow> 'a class_statics" where
  "receiver_make mem x gpio s =
     (let s1 = (if cs_array s = None
                then (cs_emit [Pool_create (MX_RCVR * 2)] s)
                       \<lparr>cs_array := Some (map mem [0..<MX_RCVR]), cs_n := 0, cs_pool := True\<rparr>
                else s);
          s2 = cs_enter MX_RCVR x s1
      in cs_emit [Pin_init gpio, if cs_n s2 = 1 then Irq_callback gpio else Irq_on gpio] s2)"

definition receiver_destroy :: "'a \<Rightarrow> nat \<Rightarrow> 'a class_statics \<Rightarrow> 'a class_statics option" where
  "receiver_destroy x gpio s =
     map_option (\<lambda>s1. if cs_n s1 = 0 then (cs_emit [Pool_destroy] s1)\<lparr>cs_array := None, cs_pool := False\<rparr> else s1)
       (cs_leave x (cs_emit [Irq_off gpio, Pin_deinit gpio] s))"







section \<open>Histories\<close>

datatype 'a life = Make 'a nat | Unmake 'a nat



fun life_run ::
  "('a \<Rightarrow> nat \<Rightarrow> 's \<Rightarrow> 's) \<Rightarrow> ('a \<Rightarrow> nat \<Rightarrow> 's \<Rightarrow> 's option) \<Rightarrow> 'a life list \<Rightarrow> 's \<Rightarrow> 's option" where
  "life_run mk un [] s = Some s"
| "life_run mk un (Make x g # es) s = life_run mk un es (mk x g s)"
| "life_run mk un (Unmake x g # es) s = (case un x g s of None \<Rightarrow> None | Some s1 \<Rightarrow> life_run mk un es s1)"


section \<open>What is allocated\<close>

text \<open>Pools and queues made and not given back.\<close>

definition open_pools :: "class_call list \<Rightarrow> int" where
  "open_pools cs = (\<Sum>c \<leftarrow> cs. case c of Pool_create _ \<Rightarrow> 1 | Pool_destroy \<Rightarrow> -1 | _ \<Rightarrow> 0)"

definition open_queues :: "class_call list \<Rightarrow> int" where
  "open_queues cs = (\<Sum>c \<leftarrow> cs. case c of Queue_init _ \<Rightarrow> 1 | Queue_free \<Rightarrow> -1 | _ \<Rightarrow> 0)"





lemmas class_defs = cs_enter_def cs_emit_def MX_RCVR_def MAX_BUTTONS_def MAX_SIM_IR_LED_def
  open_pools_def open_queues_def

lemma reg_compact_length [simp]: "length (reg_compact x is jj slots) = length slots"
  by (induction x "is" jj slots rule: reg_compact.induct) (simp_all add: Let_def)







section \<open>Properties\<close>



text \<open>A receiver beyond the room of the array is reported, but its destructor counts down all the
  same: after the pool has been given back while an object lives, the last destructor counts below
  zero and goes through the null array.\<close>

theorem fifth_receiver_faults:
  "life_run (receiver_make mem) receiver_destroy
     ([Make a 1, Make b 2, Make c 3, Make d 4, Make e 5] @ [Unmake a 1, Unmake b 2, Unmake c 3, Unmake d 4, Unmake e 5]) class0 = None \<and>
   (\<exists>s. life_run (receiver_make mem) receiver_destroy
     ([Make a 1, Make b 2, Make c 3, Make d 4, Make e 5] @ [Unmake a 1, Unmake b 2, Unmake c 3, Unmake d 4]) class0 = Some s \<and>
     \<not> cs_pool s \<and> cs_n s = 0)"
  by (simp add: receiver_make_def receiver_destroy_def cs_leave_def class0_def class_defs Let_def)

end
