(* ===== verification/Js_Path.thy ===== *)
theory Js_Path
  imports Http_Request
begin

text \<open>
  The text part of \<open>WEB_FILES::send_websocket_js\<close> (\<open>network/web_files_websocket.cpp\<close>): the path
  of the application's websocket is written into the script, and its length header is set.
\<close>

section \<open>Definitions\<close>

definition WS_PATH :: string where "WS_PATH = ''/ws/''"
definition WS_MARK :: string where "WS_MARK = ''<ws>''"
definition LENGTH_KEY :: string where "LENGTH_KEY = ''Content-Length:''"

text \<open>\<open>while (js.substitute(ph, rep));\<close>: no result if it goes on for ever, and \<open>Some None\<close> if an
  access of the buffer is out of its array.\<close>

definition js_substitute :: "(nat \<Rightarrow> char) \<Rightarrow> string \<Rightarrow> string \<Rightarrow> text_obj \<Rightarrow> text_obj option option" where
  "js_substitute mem ph rep t =
     map_option (map_option snd)
       (while_option (\<lambda>r. case r of Some (True, _) \<Rightarrow> True | _ \<Rightarrow> False)
          (\<lambda>r. Option.bind r (\<lambda>(_, t). txt_substitute mem ph rep t)) (Some (True, t)))"

text \<open>The length header; \<open>find\<close> returns \<open>npos\<close> when there is none, and the sums wrap.\<close>

definition js_set_length :: "(nat \<Rightarrow> char) \<Rightarrow> text_obj \<Rightarrow> text_obj option" where
  "js_set_length mem js =
     (let ii = (case txt_find LENGTH_KEY js of None \<Rightarrow> 15 | Some i \<Rightarrow> i + 16);
          jj = (case txt_find (CRLF @ CRLF) js of None \<Rightarrow> 3 | Some j \<Rightarrow> j + 4)
      in case tx_buffer js of
           None \<Rightarrow> None
         | Some buf \<Rightarrow>
             if ii > tx_endptr js then None
             else (case find_at CRLF (c_str (drop ii buf)) of
                     None \<Rightarrow> None
                   | Some ll \<Rightarrow> txt_replace mem ii ll (int_text (int (tx_endptr js) - int jj)) js))"

definition websocket_js_text :: "(nat \<Rightarrow> char) \<Rightarrow> string \<Rightarrow> string \<Rightarrow> text_obj option option" where
  "websocket_js_text mem data wspath =
     Option.bind (js_substitute mem WS_PATH WS_MARK (txt_of mem data (length data) (length data + 2 * length wspath)))
       (\<lambda>r. case r of
          None \<Rightarrow> Some None
        | Some js1 \<Rightarrow>
            Option.bind (js_substitute mem WS_MARK wspath js1)
              (\<lambda>r2. Some (Option.bind r2 (js_set_length mem))))"

section \<open>Replacing all occurrences\<close>

function replace_all :: "string \<Rightarrow> string \<Rightarrow> string \<Rightarrow> string" where
  "replace_all ph rep s =
     (if ph = [] then s
      else case find_at ph s of
             None \<Rightarrow> s
           | Some i \<Rightarrow> take i s @ rep @ replace_all ph rep (drop (i + length ph) s))"
  by auto
termination
  by (relation "measure (\<lambda>(ph, rep, s). length s)") (auto dest!: find_at_bound simp: neq_Nil_conv)

declare replace_all.simps [simp del]

text \<open>A replacement that can neither begin nor complete an occurrence.\<close>

definition inert :: "string \<Rightarrow> string \<Rightarrow> bool" where
  "inert ph rep \<longleftrightarrow> ph \<noteq> [] \<and> rep \<noteq> [] \<and> hd rep \<notin> set ph \<and> hd ph \<notin> set rep"

lemma inert_no_prefix:
  assumes "inert ph rep" "find_at ph s = Some i" "j < i + length rep"
  shows "\<not> prefix ph (drop j (take i s @ rep @ y))"
proof
  assume p: "prefix ph (drop j (take i s @ rep @ y))"
  have i: "i \<le> length s" using find_at_bound [OF assms(2)] by simp
  obtain z where z: "drop j (take i s @ rep @ y) = ph @ z" using p by (auto simp: prefix_def)
  have n: "ph \<noteq> []" "rep \<noteq> []" using assms(1) by (auto simp: inert_def)
  consider "i \<le> j" | "j < i" "j + length ph \<le> i" | "j < i" "i < j + length ph" by linarith
  then show False
  proof cases
    case 1
    have "hd ph = (take i s @ rep @ y) ! j" using arg_cong [OF z, of hd] n assms(3) i by (simp add: hd_drop_conv_nth del: drop_append)
    also have "\<dots> = rep ! (j - i)" using 1 less_diff_conv2 [OF 1] assms(3) i by (simp add: nth_append add.commute)
    finally have "hd ph \<in> set rep" using 1 assms(3) by simp
    then show False using assms(1) by (simp add: inert_def)
  next
    case 2
    have "prefix ph (drop j (take i s) @ (rep @ y))" using p 2 i by simp
    then have "prefix ph (drop j (take i s))"
      by (rule prefix_length_prefix [OF _ prefixI [OF refl]]) (use 2 i in simp)
    moreover have "drop j s = drop j (take i s) @ drop i s" using 2 i by (simp add: drop_take flip: drop_append)
        (metis append_take_drop_id drop_drop le_add_diff_inverse2 less_imp_le)
    ultimately have "prefix ph (drop j s)" by (simp add: prefix_append)
    then show False using find_at_first [OF assms(2) 2(1)] by simp
  next
    case 3
    have "hd rep = (take i s @ rep @ y) ! i" using n i by (simp add: nth_append hd_conv_nth)
    also have "\<dots> = drop j (take i s @ rep @ y) ! (i - j)" using 3 i by (simp del: drop_append)
    also have "\<dots> = ph ! (i - j)" unfolding z using 3 less_diff_conv2 [of j i "length ph"] by (simp add: nth_append add.commute)
    finally have "hd rep \<in> set ph" using 3 by simp
    then show False using assms(1) by (simp add: inert_def)
  qed
qed

text \<open>A text that ends before any occurrence, whatever follows.\<close>

definition sealed :: "string \<Rightarrow> string \<Rightarrow> bool" where
  "sealed ph a \<longleftrightarrow> (\<forall>y. \<forall>j < length a. \<not> prefix ph (drop j (a @ y)))"

lemma find_at_sealed: "sealed ph a \<Longrightarrow> find_at ph (a @ y) = map_option ((+) (length a)) (find_at ph y)"
proof (induction a)
  case (Cons c cs)
  have "sealed ph cs"
    unfolding sealed_def
  proof (intro allI impI)
    fix y j assume "j < length cs"
    then show "\<not> prefix ph (drop j (cs @ y))" using Cons.prems unfolding sealed_def
      by (elim allE [of _ y] allE [of _ "Suc j"]) simp
  qed
  moreover have "\<not> prefix ph ((c # cs) @ y)"
    using Cons.prems unfolding sealed_def by (elim allE [of _ y] allE [of _ 0]) simp
  ultimately show ?case using Cons.IH by (cases "find_at ph y") simp_all
qed (cases "find_at ph y"; simp)

lemma sealed_append: "sealed ph a \<Longrightarrow> sealed ph b \<Longrightarrow> sealed ph (a @ b)"
  unfolding sealed_def
proof (intro allI impI)
  fix y j
  assume a: "\<forall>y. \<forall>j < length a. \<not> prefix ph (drop j (a @ y))"
    and b: "\<forall>y. \<forall>j < length b. \<not> prefix ph (drop j (b @ y))" and j: "j < length (a @ b)"
  show "\<not> prefix ph (drop j ((a @ b) @ y))"
  proof (cases "j < length a")
    case True
    then show ?thesis using a by simp
  next
    case False
    then show ?thesis using b [rule_format, of "j - length a" y] j by simp
  qed
qed

lemma sealed_step: "inert ph rep \<Longrightarrow> find_at ph s = Some i \<Longrightarrow> sealed ph (take i s @ rep)"
  using inert_no_prefix [of ph rep s i] find_at_bound [of ph s i]
  by (auto simp: sealed_def min_def simp del: drop_append)

lemma replace_all_sealed:
  assumes "sealed ph a"
  shows "replace_all ph rep (a @ y) = a @ replace_all ph rep y"
  by (subst (1 2) replace_all.simps) (cases "find_at ph y"; simp add: find_at_sealed [OF assms])

section \<open>The loop\<close>

text \<open>One turn of the loop.\<close>

lemma js_substitute_unfold:
  "js_substitute mem ph rep t =
     (case txt_substitute mem ph rep t of
        None \<Rightarrow> Some None
      | Some (True, u) \<Rightarrow> js_substitute mem ph rep u
      | Some (False, u) \<Rightarrow> Some (Some u))"
proof -
  let ?b = "\<lambda>r :: (bool \<times> text_obj) option. case r of Some (True, _) \<Rightarrow> True | _ \<Rightarrow> False"
  let ?c = "\<lambda>r. Option.bind r (\<lambda>(_, t). txt_substitute mem ph rep t)"
  have turn: "while_option ?b ?c (Some (True, t)) = while_option ?b ?c (txt_substitute mem ph rep t)"
    by (subst while_option_unfold) simp
  have stop: "while_option ?b ?c None = Some None" "while_option ?b ?c (Some (False, u)) = Some (Some (False, u))" for u
    by (subst while_option_unfold, simp)+
  show ?thesis unfolding js_substitute_def turn
    by (cases "txt_substitute mem ph rep t") (auto simp: stop split: bool.splits)
qed

lemma js_substitute_turn:
  assumes "txt_ok t" "NUL \<notin> set (txt_text t)"
  shows "case find_at ph (txt_text t) of
      None \<Rightarrow> js_substitute mem ph rep t = Some (Some t)
    | Some i \<Rightarrow> \<exists>u. js_substitute mem ph rep t = js_substitute mem ph rep u \<and> txt_ok u \<and>
        txt_text u = take i (txt_text t) @ rep @ drop (i + length ph) (txt_text t)"
  using txt_substitute_first [OF assms, where p = ph and s = rep and mem = mem]
  by (cases "find_at ph (txt_text t)") (auto simp: js_substitute_unfold [of mem ph rep t])

text \<open>An inert replacement ends, with every occurrence replaced.\<close>

lemma js_substitute_sealed:
  assumes "inert ph rep" "NUL \<notin> set rep" "sealed ph a" "txt_ok t" "NUL \<notin> set (txt_text t)" "txt_text t = a @ y"
  shows "\<exists>u. js_substitute mem ph rep t = Some (Some u) \<and> txt_ok u \<and> txt_text u = a @ replace_all ph rep y"
  using assms
proof (induction "length y" arbitrary: a y t rule: less_induct)
  case less
  note p = less.prems
  have ph: "ph \<noteq> []" using p(1) by (simp add: inert_def)
  show ?case
  proof (cases "find_at ph y")
    case None
    then have "find_at ph (txt_text t) = None" by (simp add: p(6) find_at_sealed [OF p(3)])
    then have "js_substitute mem ph rep t = Some (Some t)" using js_substitute_turn [OF p(4,5), where ph = ph and mem = mem and rep = rep] by simp
    then show ?thesis using p(4,6) None by (subst replace_all.simps) simp
  next
    case (Some i)
    then have "find_at ph (txt_text t) = Some (length a + i)" by (simp add: p(6) find_at_sealed [OF p(3)])
    then obtain u where u: "js_substitute mem ph rep t = js_substitute mem ph rep u" "txt_ok u"
      "txt_text u = (a @ take i y @ rep) @ drop (i + length ph) y"
      using js_substitute_turn [OF p(4,5), where ph = ph and mem = mem and rep = rep] by (auto simp: p(6))
    have "NUL \<notin> set (txt_text u)"
      using p(2,5) unfolding u(3) p(6) by (auto dest: in_set_takeD in_set_dropD)
    moreover have "sealed ph (a @ take i y @ rep)" by (rule sealed_append [OF p(3) sealed_step [OF p(1) Some]])
    moreover have "length (drop (i + length ph) y) < length y" using find_at_bound [OF Some] ph by (cases ph) auto
    ultimately obtain v where "js_substitute mem ph rep u = Some (Some v)" "txt_ok v"
      "txt_text v = (a @ take i y @ rep) @ replace_all ph rep (drop (i + length ph) y)"
      using less.hyps [of "drop (i + length ph) y" "a @ take i y @ rep" u] p(1,2) u(2,3) by blast
    then show ?thesis using u(1) Some ph by (subst replace_all.simps) simp
  qed
qed

lemma js_substitute_all:
  assumes "inert ph rep" "NUL \<notin> set rep" "txt_ok t" "NUL \<notin> set (txt_text t)"
  shows "\<exists>u. js_substitute mem ph rep t = Some (Some u) \<and> txt_ok u \<and> txt_text u = replace_all ph rep (txt_text t)"
  using js_substitute_sealed [OF assms(1,2) _ assms(3,4), of "[]"] by (simp add: sealed_def)

text \<open>A replacement that contains the placeholder never ends.\<close>

lemma js_substitute_forever:
  assumes "sublist ph rep" "sublist ph (txt_text t)" "NUL \<notin> set rep" "txt_ok t" "NUL \<notin> set (txt_text t)"
  shows "js_substitute mem ph rep t = None"
proof (rule ccontr)
  let ?P = "\<lambda>r. \<exists>t. r = Some (True, t) \<and> txt_ok t \<and> NUL \<notin> set (txt_text t) \<and> sublist ph (txt_text t)"
  let ?b = "\<lambda>r :: (bool \<times> text_obj) option. case r of Some (True, _) \<Rightarrow> True | _ \<Rightarrow> False"
  let ?c = "\<lambda>r. Option.bind r (\<lambda>(_, t). txt_substitute mem ph rep t)"
  have step: "?P (?c r)" if P: "?P r" for r
  proof -
    obtain t where t: "r = Some (True, t)" "txt_ok t" "NUL \<notin> set (txt_text t)" "sublist ph (txt_text t)"
      using P by blast
    then obtain i where i: "find_at ph (txt_text t) = Some i" using find_at_None [of ph "txt_text t"] by auto
    obtain u where u: "txt_substitute mem ph rep t = Some (True, u)" "txt_ok u"
      "txt_text u = take i (txt_text t) @ rep @ drop (i + length ph) (txt_text t)"
      using txt_substitute_first [OF t(2,3), where p = ph and s = rep and mem = mem] i by auto
    have "sublist rep (txt_text u)" unfolding u(3) by (rule sublist_appendI)
    then have "sublist ph (txt_text u)" using assms(1) by (rule sublist_order.order_trans [rotated])
    moreover have "NUL \<notin> set (txt_text u)" using assms(3) t(3) unfolding u(3) by (auto dest: in_set_takeD in_set_dropD)
    ultimately show ?thesis using t(1) u(1,2) by simp
  qed
  assume "js_substitute mem ph rep t \<noteq> None"
  then obtain r where r: "while_option ?b ?c (Some (True, t)) = Some r" by (auto simp: js_substitute_def)
  have "?P r"
    by (rule while_option_rule [where P = ?P, OF _ r]) (use assms step in auto)
  moreover have "\<not> ?b r" by (rule while_option_stop [OF r])
  ultimately show False by auto
qed

section \<open>The reply\<close>

lemma sealed_line:
  assumes "\<not> sublist ph a" "ph \<noteq> []" "a \<noteq> [] \<longrightarrow> last a \<notin> set ph"
  shows "sealed ph a"
  unfolding sealed_def
proof (intro allI impI notI)
  fix y j
  assume j: "j < length a" and p: "prefix ph (drop j (a @ y))"
  have d: "drop j (a @ y) = drop j a @ y" "drop j a \<noteq> []" using j by simp_all
  consider "prefix ph (drop j a)" | z where "ph = drop j a @ z" using p d(1) by (auto simp: prefix_append)
  then show False
  proof cases
    case 1
    then have "sublist ph a"
      by (meson prefix_imp_sublist sublist_drop sublist_order.order_trans)
    then show False using assms(1) by simp
  next
    case 2
    moreover have "last (drop j a) = last a" "a \<noteq> []" using j by (auto simp: last_drop)
    ultimately have "last a \<in> set ph" using last_in_set [OF d(2)] by simp
    then show False using assms(3) \<open>a \<noteq> []\<close> by simp
  qed
qed

lemma sealed_plain: "\<forall>c \<in> set a. c \<notin> set ph \<Longrightarrow> ph \<noteq> [] \<Longrightarrow> sealed ph a"
  by (rule sealed_line) (auto dest!: set_mono_sublist simp: neq_Nil_conv)

text \<open>The parts of a file: the header up to the value of its length, the rest of the header, the body.\<close>

definition js_head :: "string \<Rightarrow> string \<Rightarrow> bool" where
  "js_head h1 h2 \<longleftrightarrow>
     (h1 \<noteq> [] \<longrightarrow> last h1 = LF) \<and> \<not> sublist LENGTH_KEY h1 \<and> \<not> sublist (CRLF @ CRLF) (h1 @ LENGTH_KEY @ '' '') \<and>
     prefix CRLF h2 \<and> last h2 \<notin> {CR, LF} \<and> \<not> sublist (CRLF @ CRLF) h2"

definition js_file :: "string \<Rightarrow> string \<Rightarrow> string \<Rightarrow> string \<Rightarrow> string" where
  "js_file h1 ds h2 body = h1 @ LENGTH_KEY @ '' '' @ ds @ h2 @ CRLF @ CRLF @ body"

lemma js_file_parts:
  assumes "js_head h1 h2" "\<forall>c \<in> set ds. digit c"
  shows "find_at LENGTH_KEY (js_file h1 ds h2 body) = Some (length h1)"
    and "find_at (CRLF @ CRLF) (js_file h1 ds h2 body) = Some (length h1 + 16 + length ds + length h2)"
    and "find_at CRLF (drop (length h1 + 16) (js_file h1 ds h2 body)) = Some (length ds)"
proof -
  have key: "length LENGTH_KEY = 15" "CR \<notin> set LENGTH_KEY" "LF \<notin> set LENGTH_KEY" "LENGTH_KEY \<noteq> []"
    by (simp_all add: LENGTH_KEY_def CR_def LF_def)
  have nd: "\<not> digit CR" "\<not> digit LF" by code_simp+
  have crlf: "set (CRLF @ CRLF) = {CR, LF}" "set CRLF = {CR, LF}" "CRLF @ CRLF \<noteq> []" "CRLF \<noteq> []" by (auto simp: CRLF_def)
  have h1: "sealed LENGTH_KEY h1" by (rule sealed_line) (use assms(1) key in \<open>auto simp: js_head_def\<close>)
  have p: "sealed (CRLF @ CRLF) (h1 @ LENGTH_KEY @ '' '')"
    by (rule sealed_line) (use assms(1) crlf in \<open>auto simp: js_head_def CR_def LF_def\<close>)
  have ds: "sealed (CRLF @ CRLF) ds" "sealed CRLF ds"
    by (rule sealed_plain; use assms(2) crlf nd in auto)+
  have h2: "sealed (CRLF @ CRLF) h2"
    by (rule sealed_line) (use assms(1) crlf in \<open>auto simp: js_head_def\<close>)
  obtain h3 where h3: "h2 = CRLF @ h3" using assms(1) by (auto simp: js_head_def prefix_def)
  have f: "find_at pat (pat @ r) = Some 0" for pat r :: string using find_atI [of "[]" pat r] by simp
  show "find_at LENGTH_KEY (js_file h1 ds h2 body) = Some (length h1)"
    by (simp only: js_file_def find_at_sealed [OF h1] f) simp
  have "js_file h1 ds h2 body = ((h1 @ LENGTH_KEY @ '' '') @ ds @ h2) @ (CRLF @ CRLF) @ body" by (simp add: js_file_def)
  then show "find_at (CRLF @ CRLF) (js_file h1 ds h2 body) = Some (length h1 + 16 + length ds + length h2)"
    by (simp only: find_at_sealed [OF sealed_append [OF p sealed_append [OF ds(1) h2]]] f) (simp add: key(1))
  have "drop (length h1 + 16) (js_file h1 ds h2 body) = ds @ CRLF @ h3 @ CRLF @ CRLF @ body"
    by (simp add: js_file_def key(1) h3)
  then show "find_at CRLF (drop (length h1 + 16) (js_file h1 ds h2 body)) = Some (length ds)"
    by (simp only: find_at_sealed [OF ds(2)] f) simp
qed


lemma length_key: "length LENGTH_KEY = 15"
  by (simp add: LENGTH_KEY_def)

lemma js_set_length_ok:
  assumes "js_head h1 h2" "\<forall>c \<in> set ds. digit c" "txt_ok t" "NUL \<notin> set (txt_text t)" "txt_text t = js_file h1 ds h2 body"
  shows "\<exists>u. js_set_length mem t = Some u \<and> txt_ok u \<and> txt_text u = js_file h1 (decimal (length body)) h2 body"
proof -
  have n: "tx_endptr t = length h1 + 16 + length ds + length h2 + 4 + length body"
    using length_txt_text [OF assms(3)] by (simp add: assms(5) js_file_def LENGTH_KEY_def CRLF_def)
  obtain buf where buf: "tx_buffer t = Some buf" "tx_endptr t < length buf" "buf ! tx_endptr t = NUL"
    "txt_text t = take (tx_endptr t) buf"
    using assms(3) by (rule txt_okE)
  have split: "buf = txt_text t @ NUL # drop (Suc (tx_endptr t)) buf" using buf by (metis id_take_nth_drop)
  have "drop (length h1 + 16) buf = drop (length h1 + 16) (txt_text t) @ NUL # drop (Suc (tx_endptr t)) buf"
    using n length_txt_text [OF assms(3)] by (subst split) simp
  then have c: "c_str (drop (length h1 + 16) buf) = drop (length h1 + 16) (txt_text t)"
    using c_str_append_NUL [of "drop (length h1 + 16) (txt_text t)"] assms(4) by (auto dest: in_set_dropD)
  note parts = js_file_parts [OF assms(1,2), of body]
  have "length h1 + 16 + length ds \<le> length (txt_text t)" using n length_txt_text [OF assms(3)] by simp
  from txt_replace_ok [OF assms(3) this, of mem "decimal (length body)"]
  obtain u where u: "txt_replace mem (length h1 + 16) (length ds) (decimal (length body)) t = Some u" "txt_ok u"
    "txt_text u = take (length h1 + 16) (txt_text t) @ decimal (length body) @ drop (length h1 + 16 + length ds) (txt_text t)"
    by blast
  have "txt_text u = js_file h1 (decimal (length body)) h2 body"
    unfolding u(3) assms(5) by (simp add: js_file_def length_key)
  moreover have "int_text (int (tx_endptr t) - int (length h1 + 16 + length ds + length h2 + 4)) = decimal (length body)"
    by (simp add: n int_text_def)
  ultimately show ?thesis
    using parts u(1,2) c buf(1) n
    by (simp add: js_set_length_def txt_find_ok [OF assms(3,4)] assms(5) Let_def add.assoc)
qed

lemma inert_mark: "inert WS_PATH WS_MARK" "NUL \<notin> set WS_MARK"
  by (simp_all add: inert_def WS_PATH_def WS_MARK_def NUL_def)

lemma replace_all_NUL: "NUL \<notin> set s \<Longrightarrow> NUL \<notin> set rep \<Longrightarrow> NUL \<notin> set (replace_all ph rep s)"
proof (induction ph rep s rule: replace_all.induct)
  case (1 ph rep s)
  show ?case
  proof (cases "ph = [] \<or> find_at ph s = None")
    case True
    then show ?thesis using 1(2) by (subst replace_all.simps) auto
  next
    case False
    then obtain i where i: "ph \<noteq> []" "find_at ph s = Some i" by auto
    then have "NUL \<notin> set (replace_all ph rep (drop (i + length ph) s))"
      using 1 by (auto dest: in_set_dropD)
    then show ?thesis using 1(2,3) i by (subst replace_all.simps) (auto dest: in_set_takeD)
  qed
qed

text \<open>The body of the reply.\<close>

definition js_body :: "string \<Rightarrow> string \<Rightarrow> string" where
  "js_body wspath body = replace_all WS_MARK wspath (replace_all WS_PATH WS_MARK body)"

lemma websocket_js_text_ok:
  assumes "js_head h1 h2" "\<forall>c \<in> set ds. digit c" "NUL \<notin> set (js_file h1 ds h2 body)"
    and "\<not> sublist WS_PATH (js_file h1 ds h2 [])" "\<not> sublist WS_MARK (js_file h1 ds h2 [])"
    and "wspath \<noteq> []" "hd wspath = CHR ''/''" "CHR ''<'' \<notin> set wspath" "NUL \<notin> set wspath"
  shows "\<exists>js. websocket_js_text mem (js_file h1 ds h2 body) wspath = Some (Some js) \<and> txt_ok js \<and>
    txt_text js = js_file h1 (decimal (length (js_body wspath body))) h2 (js_body wspath body)"
proof -
  let ?head = "js_file h1 ds h2 []"
  have split: "js_file h1 ds h2 b = ?head @ b" for b by (simp add: js_file_def)
  have l: "last ?head = LF" "?head \<noteq> []" by (simp_all add: js_file_def CRLF_def)
  have seal: "sealed WS_PATH ?head" "sealed WS_MARK ?head"
    by (rule sealed_line; use assms(4,5) l in \<open>simp add: WS_PATH_def WS_MARK_def LF_def\<close>)+
  have inert: "inert WS_MARK wspath" using assms(6-8) by (simp add: inert_def WS_MARK_def)
  let ?t = "txt_of mem (js_file h1 ds h2 body) (length (js_file h1 ds h2 body)) (length (js_file h1 ds h2 body) + 2 * length wspath)"
  have t: "txt_ok ?t" "txt_text ?t = js_file h1 ds h2 body" using txt_of_ok [OF assms(3)] assms(6) by simp_all
  have "NUL \<notin> set (txt_text ?t)" using assms(3) t(2) by simp
  then obtain t1 where t1: "js_substitute mem WS_PATH WS_MARK ?t = Some (Some t1)" "txt_ok t1"
    "txt_text t1 = replace_all WS_PATH WS_MARK (js_file h1 ds h2 body)"
    using js_substitute_all [OF inert_mark t(1), of mem] t(2) by metis
  have x1: "txt_text t1 = ?head @ replace_all WS_PATH WS_MARK body"
    unfolding t1(3) split [of body] by (rule replace_all_sealed [OF seal(1)])
  have n1: "NUL \<notin> set (txt_text t1)"
    using assms(3) replace_all_NUL [of body WS_MARK WS_PATH] inert_mark(2) unfolding x1 split [of body] by auto
  obtain t2 where t2: "js_substitute mem WS_MARK wspath t1 = Some (Some t2)" "txt_ok t2"
    "txt_text t2 = replace_all WS_MARK wspath (txt_text t1)"
    using js_substitute_all [OF inert assms(9) t1(2) n1, of mem] by metis
  have n2: "NUL \<notin> set (txt_text t2)" unfolding t2(3) by (rule replace_all_NUL [OF n1 assms(9)])
  have x2: "txt_text t2 = js_file h1 ds h2 (js_body wspath body)"
    unfolding t2(3) x1 by (subst split) (simp only: js_body_def replace_all_sealed [OF seal(2)])
  obtain u where "js_set_length mem t2 = Some u" "txt_ok u"
    "txt_text u = js_file h1 (decimal (length (js_body wspath body))) h2 (js_body wspath body)"
    using js_set_length_ok [OF assms(1,2) t2(2) n2 x2] by blast
  then show ?thesis using t1(1) t2(1) by (simp add: websocket_js_text_def)
qed

text \<open>C25: The script is sent with the path of the application.  For a file with the header the build
  gives it, and a path that begins with a slash and has no angle bracket, both loops end within the
  buffer, every \<open>/ws/\<close> of the body becomes the path, the header stays as it is except for the length,
  and the length is that of the new body.\<close>

theorem websocket_js_path:
  assumes "js_head h1 h2" "\<forall>c \<in> set ds. digit c" "NUL \<notin> set (js_file h1 ds h2 body)"
    and "\<not> sublist WS_PATH (js_file h1 ds h2 [])" "\<not> sublist WS_MARK (js_file h1 ds h2 [])"
    and "wspath \<noteq> []" "hd wspath = CHR ''/''" "CHR ''<'' \<notin> set wspath" "NUL \<notin> set wspath"
  shows "\<exists>js. websocket_js_text mem (js_file h1 ds h2 body) wspath = Some (Some js) \<and> txt_ok js \<and>
    txt_text js = js_file h1 (decimal (length (js_body wspath body))) h2 (js_body wspath body)"
  by (rule websocket_js_text_ok [OF assms])

lemma websocket_js_path_witness:
  "\<exists>js. websocket_js_text (\<lambda>_. NUL) (js_file (''HTTP/1.1 200 OK'' @ CRLF) ''9'' (CRLF @ ''Connection: keep-alive'') ''x = '/ws/';'')
      ''/a/ws/'' = Some (Some js) \<and>
    txt_text js = js_file (''HTTP/1.1 200 OK'' @ CRLF) ''13'' (CRLF @ ''Connection: keep-alive'') ''x = '/a/ws/';''"
proof -
  have h: "js_head (''HTTP/1.1 200 OK'' @ CRLF) (CRLF @ ''Connection: keep-alive'')" "\<forall>c \<in> set ''9''. digit c"
    "NUL \<notin> set (js_file (''HTTP/1.1 200 OK'' @ CRLF) ''9'' (CRLF @ ''Connection: keep-alive'') ''x = '/ws/';'')"
    "\<not> sublist WS_PATH (js_file (''HTTP/1.1 200 OK'' @ CRLF) ''9'' (CRLF @ ''Connection: keep-alive'') [])"
    "\<not> sublist WS_MARK (js_file (''HTTP/1.1 200 OK'' @ CRLF) ''9'' (CRLF @ ''Connection: keep-alive'') [])"
    "''/a/ws/'' \<noteq> []" "hd ''/a/ws/'' = CHR ''/''" "CHR ''<'' \<notin> set ''/a/ws/''" "NUL \<notin> set ''/a/ws/''"
    by code_simp+
  have "js_body ''/a/ws/'' ''x = '/ws/';'' = ''x = '/a/ws/';''" "decimal (length (js_body ''/a/ws/'' ''x = '/ws/';'')) = ''13''"
    by code_simp+
  with websocket_js_path [OF h] show ?thesis by metis
qed

text \<open>A path that contains \<open><ws>\<close> hangs the server: the second loop writes back what it replaces.\<close>

theorem websocket_js_hangs:
  assumes "sublist WS_MARK wspath" "NUL \<notin> set wspath" "sublist WS_PATH data" "NUL \<notin> set data"
  shows "websocket_js_text mem data wspath = None"
proof -
  have "wspath \<noteq> []" using assms(1) by (auto simp: WS_MARK_def)
  then have t: "txt_ok (txt_of mem data (length data) (length data + 2 * length wspath))"
    "txt_text (txt_of mem data (length data) (length data + 2 * length wspath)) = data"
    using txt_of_ok [OF assms(4)] by simp_all
  obtain t1 where t1: "js_substitute mem WS_PATH WS_MARK (txt_of mem data (length data) (length data + 2 * length wspath)) = Some (Some t1)"
    "txt_ok t1" "txt_text t1 = replace_all WS_PATH WS_MARK data"
    using js_substitute_all [OF inert_mark t(1), of mem] assms(4) t(2) by metis
  obtain i where "find_at WS_PATH data = Some i" using assms(3) find_at_None [of WS_PATH data] by fastforce
  moreover have "WS_PATH \<noteq> []" by (simp add: WS_PATH_def)
  ultimately have "sublist WS_MARK (txt_text t1)"
    unfolding t1(3) by (subst replace_all.simps) (simp add: sublist_appendI)
  then have "js_substitute mem WS_MARK wspath t1 = None"
    by (rule js_substitute_forever [OF assms(1) _ assms(2) t1(2)])
      (use replace_all_NUL [OF assms(4) inert_mark(2)] t1(3) in simp)
  then show ?thesis using t1(1) by (simp add: websocket_js_text_def)
qed

end
