(* ===== verification/Web_Files.thy ===== *)
theory Web_Files
  imports Web_Sending Js_Path
begin

text \<open>
  \<open>WEB_FILES::send_websocket_js\<close> (\<open>network/web_files_websocket.cpp\<close>): a request for the script
  \<open>websocket.js\<close> is answered with the file, as it is or with the path of the application's
  websocket written into it.  The table of files is generated by the build; it is a parameter, a
  function from names to their data.
\<close>

section \<open>Definitions\<close>

definition send_websocket_js ::
  "web_env \<Rightarrow> (string \<Rightarrow> string option) \<Rightarrow> handle \<Rightarrow> http_request \<Rightarrow> bool \<Rightarrow> string \<Rightarrow> (bool \<times> bool) web_op" where
  "send_websocket_js env files client rqst close wspath =
     (let url = http_path rqst
      in if url = [] then fail Uncaught
         else if drop 1 url = ''websocket.js''
         then (case files (drop 1 url) of
                 None \<Rightarrow> ret (False, close)
               | Some data \<Rightarrow>
                   if wspath = [] \<or> wspath = WS_PATH
                   then bind_op (send_data env client data STAT) (\<lambda>r. ret (r, \<not> r))
                   else (case websocket_js_text (env_mem env) data wspath of
                           None \<Rightarrow> fail No_Return
                         | Some None \<Rightarrow> fail Out_Of_Bounds
                         | Some (Some js) \<Rightarrow>
                             bind_op (send_data env client (txt_text js) PREALL) (\<lambda>r. ret (r, \<not> r))))
         else ret (False, close))"

section \<open>Properties\<close>

text \<open>A request for the script is answered by the server with one reply, the file with its \<open>/ws/\<close>
  replaced by the path and its length set, and the connection stays open.\<close>

theorem websocket_js_sent:
  assumes "web_ok w" "map_of (web_handles w) h = Some c" "http_path rqst = ''/websocket.js''"
    and "files ''websocket.js'' = Some (js_file h1 ds h2 body)"
    and "js_head h1 h2" "\<forall>c \<in> set ds. digit c" "NUL \<notin> set (js_file h1 ds h2 body)"
    and "\<not> sublist WS_PATH (js_file h1 ds h2 [])" "\<not> sublist WS_MARK (js_file h1 ds h2 [])"
    and "wspath \<noteq> []" "hd wspath = CHR ''/''" "CHR ''<'' \<notin> set wspath" "NUL \<notin> set wspath" "wspath \<noteq> WS_PATH"
  shows "\<exists>w1. send_websocket_js env files h rqst close wspath w = Inr ((True, False), w1) \<and> same_keys w w1 \<and>
    send_data env h (js_file h1 (decimal (length (js_body wspath body))) h2 (js_body wspath body)) PREALL w = Inr (True, w1)"
proof -
  obtain js where js: "websocket_js_text (env_mem env) (js_file h1 ds h2 body) wspath = Some (Some js)"
    "txt_text js = js_file h1 (decimal (length (js_body wspath body))) h2 (js_body wspath body)"
    using websocket_js_text_ok [OF assms(5-13)] by blast
  obtain w1 where "send_data env h (txt_text js) PREALL w = Inr (True, w1)" "same_keys w w1"
    using data_total(1) [OF assms(1,2)] by blast
  then show ?thesis
    using assms(3,4,10,14) js by (simp add: send_websocket_js_def Let_def bind_op_def ret_def)
qed

text \<open>When the connection of the client is gone, the same reply is reported as sent, though nothing is
  queued: the buffer that was given up for it (\<open>PREALL\<close>, then \<open>release\<close>) has no owner.\<close>

lemma send_data_without_connection:
  "map_of (web_handles w) h = Some c \<Longrightarrow> cl_pcb c = None \<Longrightarrow> send_data env h d a w = Inr (True, w)"
  by (simp add: send_data_def find_handle_def find_pcb_def client_get_def bind_op_def ret_def)

theorem websocket_js_lost:
  assumes "map_of (web_handles w) h = Some c" "cl_pcb c = None" "http_path rqst = ''/websocket.js''"
    and "files ''websocket.js'' = Some data" "websocket_js_text (env_mem env) data wspath = Some (Some js)"
    and "wspath \<noteq> []" "wspath \<noteq> WS_PATH"
  shows "send_websocket_js env files h rqst close wspath w = Inr ((True, False), w)"
  using assms by (simp add: send_websocket_js_def Let_def bind_op_def ret_def send_data_without_connection)

end
