(* ===== verification/Floats.thy ===== *)
theory Floats
  imports Prelude Complex_Main
begin

text \<open>
  Floating-point numbers as the code computes with them: a finite number is a rational, and every
  operation rounds its exact result to the nearest number with a significand of \<open>p\<close> bits (24 for
  \<open>float\<close>, 53 for \<open>double\<close>), ties to even.  Exponents are unbounded: the values of the code are
  far from the ends of their range.
\<close>

section \<open>Definitions\<close>

function bits :: "int \<Rightarrow> nat" where
  "bits n = (if n \<le> 0 then 0 else Suc (bits (n div 2)))"
  by auto
termination by (relation "measure nat") auto

declare bits.simps [simp del]

text \<open>The exponent \<open>e\<close> of a positive number: \<open>2 ^ e \<le> x < 2 ^ (e + 1)\<close>.\<close>

definition exponent :: "rat \<Rightarrow> int" where
  "exponent x = (if 1 \<le> x then int (bits \<lfloor>x\<rfloor>) - 1 else - int (bits (\<lceil>1 / x\<rceil> - 1)))"

definition nearest :: "rat \<Rightarrow> int" where
  "nearest x =
     (let f = \<lfloor>x\<rfloor>; d = x - of_int f
      in if d < 1 / 2 then f else if 1 / 2 < d then f + 1 else if even f then f else f + 1)"

definition fl :: "nat \<Rightarrow> rat \<Rightarrow> rat" where
  "fl p x =
     (if x = 0 then 0
      else (let e = exponent \<bar>x\<bar> - (int p - 1) in of_int (nearest (x / 2 powi e)) * 2 powi e))"

abbreviation float32 :: "rat \<Rightarrow> rat" where "float32 \<equiv> fl 24"
abbreviation float64 :: "rat \<Rightarrow> rat" where "float64 \<equiv> fl 53"

section \<open>Exponents\<close>

lemma bits_bounds: "0 < n \<Longrightarrow> 2 ^ (bits n - 1) \<le> n \<and> n + 1 \<le> 2 ^ bits n"
proof (induction n rule: bits.induct)
  case (1 n)
  show ?case
  proof (cases "n = 1")
    case True
    then show ?thesis by (simp add: bits.simps)
  next
    case False
    then have h: "0 < n div 2" using 1(2) by linarith
    then have IH: "2 ^ (bits (n div 2) - 1) \<le> n div 2" "n div 2 + 1 \<le> 2 ^ bits (n div 2)" using 1 by auto
    have b: "bits (n div 2) \<noteq> 0" using h by (subst bits.simps) simp
    have "2 * 2 ^ (bits (n div 2) - 1) \<le> n" using IH(1) by linarith
    then have "2 ^ bits (n div 2) \<le> n" using b by (metis One_nat_def Suc_pred not_gr_zero power_Suc)
    moreover have "n + 1 \<le> 2 * 2 ^ bits (n div 2)" using IH(2) by linarith
    ultimately show ?thesis using 1(2) by (subst (1 2) bits.simps) simp
  qed
qed

lemma bits_rat:
  assumes "0 < n"
  shows "(2 :: rat) ^ (bits n - 1) \<le> of_int n" "of_int n + 1 \<le> (2 :: rat) ^ bits n"
    "(2 :: rat) ^ bits n = 2 * 2 ^ (bits n - 1)" "0 < bits n"
proof -
  show "(2 :: rat) ^ (bits n - 1) \<le> of_int n"
    using bits_bounds [OF assms] by (metis of_int_le_iff of_int_numeral of_int_power)
  show "of_int n + 1 \<le> (2 :: rat) ^ bits n"
    using bits_bounds [OF assms] by (metis of_int_1 of_int_add of_int_le_iff of_int_numeral of_int_power)
  show "0 < bits n" using assms by (subst bits.simps) simp
  then show "(2 :: rat) ^ bits n = 2 * 2 ^ (bits n - 1)" by (cases "bits n") simp_all
qed

lemma exponent_bounds:
  assumes "0 < x"
  shows "2 powi exponent x \<le> x" "x < 2 * 2 powi exponent x"
proof -
  have "2 powi exponent x \<le> x \<and> x < 2 * 2 powi exponent x"
  proof (cases "1 \<le> x")
    case True
    then have n: "0 < \<lfloor>x\<rfloor>" "of_int \<lfloor>x\<rfloor> \<le> x" "x < of_int \<lfloor>x\<rfloor> + 1" by (simp_all add: le_floor_iff) linarith+
    note b = bits_rat [OF n(1)]
    have e: "exponent x = int (bits \<lfloor>x\<rfloor> - 1)" using True b(4) by (auto simp: exponent_def)
    have "2 ^ (bits \<lfloor>x\<rfloor> - 1) \<le> x" "x < 2 * 2 ^ (bits \<lfloor>x\<rfloor> - 1)" using b(1-3) n(2,3) by linarith+
    then show ?thesis unfolding e by (simp add: power_int_def)
  next
    case False
    let ?n = "\<lceil>1 / x\<rceil> - 1"
    have "1 < 1 / x" using assms False by simp
    then have n: "0 < ?n" "of_int ?n < 1 / x" "1 / x \<le> of_int ?n + 1" by (simp_all add: less_ceiling_iff) linarith+
    note b = bits_rat [OF n(1)]
    have e: "exponent x = - int (bits ?n)" using False by (auto simp: exponent_def)
    have "1 / x \<le> 2 ^ bits ?n" "2 ^ bits ?n < 2 * (1 / x)" using b(1-3) n(2,3) by linarith+
    then have "1 / 2 ^ bits ?n \<le> x" "x < 2 * (1 / 2 ^ bits ?n)" using assms by (simp_all add: field_simps)
    then show ?thesis using b(4) unfolding e by (simp add: power_int_def inverse_eq_divide flip: power_one_over)
  qed
  then show "2 powi exponent x \<le> x" "x < 2 * 2 powi exponent x" by simp_all
qed

section \<open>Rounding\<close>

lemma nearest_error: "\<bar>of_int (nearest x) - x\<bar> \<le> 1 / 2"
proof -
  have "of_int \<lfloor>x\<rfloor> \<le> x" "x < of_int \<lfloor>x\<rfloor> + 1" by linarith+
  then show ?thesis by (auto simp: nearest_def Let_def abs_le_iff)
qed

lemma nearest_int [simp]: "nearest (of_int n) = n"
  by (simp add: nearest_def)

lemma nearest_mono: "x \<le> y \<Longrightarrow> nearest x \<le> nearest y"
proof -
  assume xy: "x \<le> y"
  show ?thesis
  proof (cases "\<lfloor>x\<rfloor> = \<lfloor>y\<rfloor>")
    case True
    then show ?thesis using xy by (auto simp: nearest_def Let_def)
  next
    case False
    then have "\<lfloor>x\<rfloor> + 1 \<le> \<lfloor>y\<rfloor>" using floor_mono [OF xy] by linarith
    moreover have "nearest x \<le> \<lfloor>x\<rfloor> + 1" "\<lfloor>y\<rfloor> \<le> nearest y" by (auto simp: nearest_def Let_def)
    ultimately show ?thesis by linarith
  qed
qed

lemma powi_pos [simp]: "0 < (2 :: rat) powi e"
  by (simp add: power_int_def)

text \<open>The relative error of a rounding.\<close>

lemma fl_error: "\<bar>fl p x - x\<bar> \<le> \<bar>x\<bar> / 2 ^ p"
proof (cases "x = 0")
  case False
  define e where "e = exponent \<bar>x\<bar> - (int p - 1)"
  have f: "fl p x = of_int (nearest (x / 2 powi e)) * 2 powi e" using False by (simp add: fl_def e_def Let_def)
  have "fl p x - x = (of_int (nearest (x / 2 powi e)) - x / 2 powi e) * 2 powi e"
    unfolding f by (simp add: field_simps)
  then have "\<bar>fl p x - x\<bar> = \<bar>of_int (nearest (x / 2 powi e)) - x / 2 powi e\<bar> * 2 powi e" by (simp add: abs_mult)
  also have "\<dots> \<le> 1 / 2 * 2 powi e" by (rule mult_right_mono [OF nearest_error]) simp
  also have "\<dots> = 2 powi exponent \<bar>x\<bar> / 2 ^ p"
  proof -
    have "exponent \<bar>x\<bar> = e + int p - 1" by (simp add: e_def)
    then have "(2 :: rat) powi exponent \<bar>x\<bar> = 2 powi e * 2 powi int p / 2 powi 1"
      by (simp add: power_int_diff power_int_add)
    then show ?thesis by simp
  qed
  also have "\<dots> \<le> \<bar>x\<bar> / 2 ^ p" by (rule divide_right_mono) (use exponent_bounds [of "\<bar>x\<bar>"] False in simp_all)
  finally show ?thesis .
qed (simp add: fl_def)

lemma fl_bounds:
  assumes "0 \<le> x"
  shows "x * (1 - 1 / 2 ^ p) \<le> fl p x" "fl p x \<le> x * (1 + 1 / 2 ^ p)"
  using fl_error [of p x] assms by (simp_all add: algebra_simps abs_le_iff)

text \<open>Integers that fit are exact.\<close>

lemma fl_int:
  assumes "\<bar>n\<bar> < 2 ^ p"
  shows "fl p (of_int n) = of_int n"
proof (cases "n = 0")
  case False
  define e where "e = exponent \<bar>of_int n\<bar> - (int p - 1)"
  have "(2 :: rat) powi exponent \<bar>of_int n :: rat\<bar> \<le> \<bar>of_int n\<bar>" using exponent_bounds(1) [of "\<bar>of_int n\<bar>"] False by simp
  also have "\<dots> < (2 :: rat) ^ p" using assms by (metis of_int_abs of_int_less_iff of_int_numeral of_int_power)
  also have "\<dots> = 2 powi int p" by simp
  finally have "exponent \<bar>of_int n :: rat\<bar> < int p"
    by (metis linorder_not_le one_le_numeral power_int_increasing)
  then have "e \<le> 0" by (simp add: e_def)
  then have "(of_int n :: rat) / 2 powi e = of_int (n * 2 ^ nat (- e))" by (simp add: power_int_def field_simps)
  then have "nearest (of_int n / 2 powi e) = n * 2 ^ nat (- e)" by (simp only: nearest_int)
  then have "fl p (of_int n) = of_int (n * 2 ^ nat (- e)) * 2 powi e"
    using False by (simp add: fl_def Let_def flip: e_def)
  then show ?thesis using \<open>e \<le> 0\<close> by (simp add: power_int_def field_simps)
qed (simp add: fl_def)

end
