(* ===== verification/Pwm.thy ===== *)
theory Pwm
  imports Floats
begin

text \<open>
  \<open>PWM\<close> (\<open>util/pwm.h\<close>, \<open>util/pwm.cpp\<close>) and \<open>Servo\<close> (\<open>util/servo.h\<close>, \<open>util/servo.cpp\<close>), with their
  floating-point arithmetic.  \<open>None\<close> as a divider is infinity.  The clock of the chip is a
  parameter; the calls on the hardware are recorded.  A conversion to an integer type that does not hold the value has no result.
\<close>

section \<open>Definitions\<close>

datatype pwm_call =
    Pwm_pin nat
  | Pwm_unpin nat
  | Pwm_level nat u16
  | Pwm_config rat u16

record pwm =
  pw_gpio :: nat
  pw_div :: "rat option"
  pw_wrap :: u16
  pw_calls :: "pwm_call list"

definition of_u32 :: "u32 \<Rightarrow> rat" where "of_u32 w = float32 (of_int (uint w))"

definition to_u16 :: "rat \<Rightarrow> u16 option" where
  "to_u16 x = (if 0 \<le> x \<and> x < 65536 then Some (word_of_int \<lfloor>x\<rfloor>) else None)"

definition to_u32 :: "rat \<Rightarrow> u32 option" where
  "to_u32 x = (if 0 \<le> x \<and> x < 4294967296 then Some (word_of_int \<lfloor>x\<rfloor>) else None)"

definition pw_emit :: "pwm_call list \<Rightarrow> pwm \<Rightarrow> pwm" where
  "pw_emit cs s = s\<lparr>pw_calls := pw_calls s @ cs\<rparr>"

text \<open>The divider and the wrap value for a frequency; \<open>freq * wrap_\<close> is a 32-bit product.\<close>

definition pwm_divider :: "u32 \<Rightarrow> u32 \<Rightarrow> rat option" where
  "pwm_divider clk freq =
     (if freq * 65534 = 0 then None else Some (float32 (of_u32 clk / of_u32 (freq * 65534))))"

definition pwm_set_frequency :: "u32 \<Rightarrow> u32 \<Rightarrow> pwm \<Rightarrow> (bool \<times> pwm) option" where
  "pwm_set_frequency clk freq s =
     Option.bind
       (case pwm_divider clk freq of
          None \<Rightarrow> Some (None, 65534)
        | Some d \<Rightarrow>
            if d < 1 then map_option (Pair (Some 1)) (to_u16 (float32 (of_u32 clk / float32 (of_u32 freq * 1))))
            else Some (Some d, 65534))
       (\<lambda>(dv, wrap).
          let s1 = s\<lparr>pw_div := dv, pw_wrap := wrap\<rparr>
          in case dv of
               None \<Rightarrow> Some (False, s1)
             | Some d \<Rightarrow>
                 if d \<le> 256 \<and> wrap > 2
                 then Some (True, pw_emit [Pwm_level (pw_gpio s) 0, Pwm_config d wrap] s1)
                 else Some (False, s1))"

definition pwm_set_duty :: "rat \<Rightarrow> pwm \<Rightarrow> (u16 \<times> pwm) option" where
  "pwm_set_duty duty s =
     (let d1 = (if duty < 0 then 0 else duty); d2 = (if d1 > 1 then 1 else d1)
      in map_option (\<lambda>level. (level, pw_emit [Pwm_level (pw_gpio s) level] s))
           (to_u16 (float32 (d2 * of_int (uint (pw_wrap s))))))"

definition pwm_freq :: "u32 \<Rightarrow> pwm \<Rightarrow> u32 option" where
  "pwm_freq clk s =
     (case pw_div s of
        None \<Rightarrow> Some 0
      | Some d \<Rightarrow>
          let den = float32 (d * of_int (uint (pw_wrap s)))
          in if den = 0 then None else to_u32 (float32 (of_u32 clk / den)))"

definition pwm_new :: "u32 \<Rightarrow> nat \<Rightarrow> u32 \<Rightarrow> rat \<Rightarrow> pwm option" where
  "pwm_new clk gpio freq duty =
     Option.bind (pwm_set_frequency clk freq \<lparr>pw_gpio = gpio, pw_div = Some 0, pw_wrap = 0, pw_calls = [Pwm_pin gpio]\<rparr>)
       (\<lambda>(ok, s). map_option snd (pwm_set_duty duty s))"

definition pwm_destroy :: "pwm \<Rightarrow> pwm" where
  "pwm_destroy s = pw_emit [Pwm_unpin (pw_gpio s)] s"

subsection \<open>Servo\<close>

definition servo_new :: "u32 \<Rightarrow> nat \<Rightarrow> pwm option" where
  "servo_new clk gpio = pwm_new clk gpio 50 0"

definition servo_duty :: "rat \<Rightarrow> rat" where
  "servo_duty angle =
     (let a1 = (if angle < -90 then -90 else angle); a2 = (if a1 > 90 then 90 else a1)
      in float32 (float64 (float64 (float64 (float64 (a2 + 90) / 180) * float64 (95 / 1000)) + float64 (25 / 1000))))"

definition servo_set_angle :: "rat \<Rightarrow> pwm \<Rightarrow> pwm option" where
  "servo_set_angle angle s = map_option snd (pwm_set_duty (servo_duty angle) s)"

definition servo_relax :: "pwm \<Rightarrow> pwm option" where
  "servo_relax s = map_option snd (pwm_set_duty 0 s)"

section \<open>Frequencies\<close>

text \<open>The relative error of a chain of roundings.\<close>

definition close :: "rat \<Rightarrow> rat \<Rightarrow> bool" where
  "close x y \<longleftrightarrow> x * (1 - 1 / 2 ^ 22) \<le> y \<and> y \<le> x * (1 + 1 / 2 ^ 22)"

lemma quotient_close:
  assumes "0 < c" "0 < f"
  shows "float32 c / float32 f * (1 - 1 / 2 ^ 24) \<le> float32 (float32 c / float32 f)"
    "close (c / f) (float32 (float32 c / float32 f))"
proof -
  define a b q where "a = float32 c" and "b = float32 f" and "q = float32 (a / b)"
  let ?l = "1 - 1 / 2 ^ 24 :: rat" and ?h = "1 + 1 / 2 ^ 24 :: rat"
  have a: "c * ?l \<le> a" "a \<le> c * ?h" and b: "f * ?l \<le> b" "b \<le> f * ?h"
    unfolding a_def b_def using assms by (simp_all only: fl_bounds less_imp_le)
  have pos: "0 < a" "0 < b"
    using a(1) b(1) assms mult_pos_pos [of c ?l] mult_pos_pos [of f ?l] by simp_all
  have q: "a / b * ?l \<le> q" "q \<le> a / b * ?h"
    unfolding q_def using pos by (simp_all only: fl_bounds divide_nonneg_pos less_imp_le)
  show "float32 c / float32 f * (1 - 1 / 2 ^ 24) \<le> float32 (float32 c / float32 f)"
    using q(1) by (simp only: a_def b_def q_def)
  have "c / f * (1 - 1 / 2 ^ 22) \<le> (c * ?l) / (f * ?h) * ?l" using assms by (simp add: field_simps)
  also have "\<dots> \<le> a / b * ?l"
    by (intro mult_right_mono frac_le) (use a b pos assms in simp_all)
  finally have lo: "c / f * (1 - 1 / 2 ^ 22) \<le> q" using q(1) by linarith
  have "a / b * ?h \<le> (c * ?h) / (f * ?l) * ?h"
    by (intro mult_right_mono frac_le) (use a b pos assms in simp_all)
  also have "\<dots> \<le> c / f * (1 + 1 / 2 ^ 22)" using assms by (simp add: field_simps)
  finally show "close (c / f) (float32 (float32 c / float32 f))"
    using lo q(2) by (simp add: close_def a_def b_def q_def)
qed

text \<open>The two branches of \<open>setFrequency\<close>.\<close>

lemma divider_value:
  assumes "0 < freq" "freq \<le> 65538" "0 < clk"
  shows "\<exists>d. pwm_divider clk freq = Some d \<and> close (of_int (uint clk) / (of_int (uint freq) * 65534)) d"
proof -
  have f: "0 < uint freq" "uint freq \<le> 65538" and c: "0 < uint clk"
    using assms by (simp_all add: word_less_def word_le_def)
  have p: "uint (freq * 65534) = uint freq * 65534"
    using f by (simp add: uint_word_ariths)
  then have "uint (freq * 65534) \<noteq> 0" using f by simp
  then have "freq * 65534 \<noteq> 0" by auto
  moreover have "close (of_int (uint clk) / of_int (uint freq * 65534))
      (float32 (float32 (of_int (uint clk)) / float32 (of_int (uint freq * 65534))))"
    by (rule quotient_close(2)) (use f c in \<open>simp_all only: of_int_0_less_iff mult_pos_pos zero_less_numeral\<close>)
  ultimately show ?thesis by (simp add: pwm_divider_def of_u32_def p)
qed

lemma wrap_value:
  assumes "0 < freq" "freq \<le> 65538" "0 < clk"
    and d: "close (of_int (uint clk) / (of_int (uint freq) * 65534)) d" "d < 1"
  shows "\<exists>q. float32 (of_u32 clk / float32 (of_u32 freq * 1)) = q \<and> close (of_int (uint clk) / of_int (uint freq)) q \<and>
    to_u16 q = Some (word_of_int \<lfloor>q\<rfloor>) \<and> uint (word_of_int \<lfloor>q\<rfloor> :: u16) = \<lfloor>q\<rfloor>"
proof -
  define C F where "C = (of_int (uint clk) :: rat)" and "F = (of_int (uint freq) :: rat)"
  define q where "q = float32 (float32 C / float32 F)"
  have "0 < uint freq" "0 < uint clk" and le: "uint freq \<le> 65538"
    using assms by (simp_all add: word_less_def word_le_def)
  then have f: "0 < F" and c: "0 < C" by (simp_all only: C_def F_def of_int_0_less_iff)
  have F: "float32 F = F" unfolding F_def by (rule fl_int) (use le in simp)
  then have eq: "float32 (of_u32 clk / float32 (of_u32 freq * 1)) = q"
    by (simp add: of_u32_def q_def C_def F_def)
  have cl: "close (C / F) q" unfolding q_def by (rule quotient_close(2) [OF c f])
  have "C / (F * 65534) * (1 - 1 / 2 ^ 22) < 1" using d by (simp add: close_def C_def F_def)
  then have "C / F * (1 - 1 / 2 ^ 22) < 65534" using f by (simp add: field_simps)
  then have x: "C / F < 65534 + 1 / 8" by simp
  have "q \<le> C / F * (1 + 1 / 2 ^ 22)" "C / F * (1 - 1 / 2 ^ 22) \<le> q" using cl by (simp_all add: close_def)
  moreover have "C / F * (1 + 1 / 2 ^ 22) < 65536" using x by simp
  ultimately have q: "q < 65536" by linarith
  have "0 \<le> C / F * (1 - 1 / 2 ^ 22)" using c f by simp
  then have q0: "0 \<le> q" using \<open>C / F * (1 - 1 / 2 ^ 22) \<le> q\<close> by linarith
  have "0 \<le> \<lfloor>q\<rfloor>" "\<lfloor>q\<rfloor> < 65536" using q q0 by (simp_all add: floor_less_iff)
  then have "uint (word_of_int \<lfloor>q\<rfloor> :: u16) = \<lfloor>q\<rfloor>" by (simp add: uint_word_of_int)
  then show ?thesis using eq cl q q0 by (simp add: to_u16_def C_def F_def)
qed

text \<open>What the branches give, up to the error.\<close>

lemma divided:
  assumes "0 < C" "0 < F" "close (C / (F * 65534)) d" "1 \<le> d"
  shows "C / (d * (65534 + 1)) \<le> F * (1 + 1 / 2 ^ 21)" "F * (1 - 1 / 2 ^ 21) \<le> C / (d * 65534)"
    "256 < d \<Longrightarrow> 256 * 65534 * F < C * (1 + 1 / 2 ^ 21)"
proof -
  have lo: "C * (1 - 1 / 2 ^ 22) \<le> d * (F * 65534)" and hi: "d * (F * 65534) \<le> C * (1 + 1 / 2 ^ 22)"
    using assms(1-3) by (simp_all add: close_def field_simps)
  show "C / (d * (65534 + 1)) \<le> F * (1 + 1 / 2 ^ 21)" "F * (1 - 1 / 2 ^ 21) \<le> C / (d * 65534)"
    using lo hi assms by (simp_all add: field_simps)
  assume "256 < d"
  then have "256 * (F * 65534) < d * (F * 65534)" using assms(2) by (intro mult_strict_right_mono) simp_all
  then have "256 * 65534 * F < C * (1 + 1 / 2 ^ 22)" using hi by linarith
  then show "256 * 65534 * F < C * (1 + 1 / 2 ^ 21)" using assms(1) by (simp add: field_simps)
qed

lemma counted:
  assumes "0 < C" "0 < F" "close (C / F) q" "W \<le> q" "q < W + 1"
  shows "0 < W \<Longrightarrow> C / (W + 1) \<le> F * (1 + 1 / 2 ^ 21)" "0 < W \<Longrightarrow> F * (1 - 1 / 2 ^ 21) \<le> C / W"
    "W \<le> 2 \<Longrightarrow> C * (1 - 1 / 2 ^ 21) < 3 * F"
proof -
  have lo: "C * (1 - 1 / 2 ^ 22) \<le> q * F" and hi: "q * F \<le> C * (1 + 1 / 2 ^ 22)"
    using assms(1-3) by (simp_all add: close_def field_simps)
  have "q * F < (W + 1) * F" "W * F \<le> q * F"
    using assms(2,4,5) by (simp_all only: mult_less_cancel_right_pos mult_le_cancel_right_pos)
  then have m: "C * (1 - 1 / 2 ^ 22) < (W + 1) * F" "W * F \<le> C * (1 + 1 / 2 ^ 22)" using lo hi by linarith+
  then have "C \<le> (W + 1) * F * (1 + 1 / 2 ^ 21)" "W * F * (1 - 1 / 2 ^ 21) \<le> C" using assms(1) by simp_all
  then show "0 < W \<Longrightarrow> C / (W + 1) \<le> F * (1 + 1 / 2 ^ 21)" "0 < W \<Longrightarrow> F * (1 - 1 / 2 ^ 21) \<le> C / W"
    by (simp_all only: pos_divide_le_eq pos_le_divide_eq add_pos_pos zero_less_one ac_simps)
  assume "W \<le> 2"
  then have "q * F < 3 * F" using assms(2,5) by (simp only: mult_less_cancel_right_pos)
  then have "C * (1 - 1 / 2 ^ 22) < 3 * F" using lo by linarith
  then show "C * (1 - 1 / 2 ^ 21) < 3 * F" using assms(1) by simp
qed

text \<open>C29: The frequency of the output.  Up to 65538 Hz, \<open>setFrequency\<close> never converts a value out of
  range; when it succeeds, the frequency asked for lies, up to one part in two million, between those
  of a period of \<open>wrap\<close> and of \<open>wrap + 1\<close> steps of the divided clock; and it fails only when the
  clock cannot be divided down to the frequency, or leaves less than three steps, and then does
  not touch the hardware.\<close>

theorem pwm_frequency:
  assumes "0 < freq" "freq \<le> 65538" "0 < clk"
  defines "C \<equiv> of_int (uint clk) :: rat" and "F \<equiv> of_int (uint freq) :: rat"
  shows "\<exists>ok t. pwm_set_frequency clk freq s = Some (ok, t) \<and>
    (if ok
     then \<exists>d. pw_div t = Some d \<and> 1 \<le> d \<and> d \<le> 256 \<and> 2 < pw_wrap t \<and>
       C / (d * (of_int (uint (pw_wrap t)) + 1)) \<le> F * (1 + 1 / 2 ^ 21) \<and>
       F * (1 - 1 / 2 ^ 21) \<le> C / (d * of_int (uint (pw_wrap t)))
     else pw_calls t = pw_calls s \<and> (256 * 65534 * F < C * (1 + 1 / 2 ^ 21) \<or> C * (1 - 1 / 2 ^ 21) < 3 * F))"
proof -
  obtain d where d: "pwm_divider clk freq = Some d" "close (C / (F * 65534)) d"
    using divider_value [OF assms(1-3)] by (auto simp: C_def F_def)
  have "0 < uint clk" "0 < uint freq" using assms(1,3) by (simp_all add: word_less_def)
  then have pos: "0 < C" "0 < F" by (simp_all only: C_def F_def of_int_0_less_iff)
  show ?thesis
  proof (cases "d < 1")
    case False
    then have "1 \<le> d" by simp
    note div = divided [OF pos d(2) this]
    let ?t = "s\<lparr>pw_div := Some d, pw_wrap := 65534\<rparr>"
    show ?thesis
    proof (cases "d \<le> 256")
      case True
      then show ?thesis using d(1) False div(1,2)
        by (intro exI [of _ True] exI [of _ "pw_emit [Pwm_level (pw_gpio s) 0, Pwm_config d 65534] ?t"])
          (simp add: pwm_set_frequency_def Let_def pw_emit_def)
    next
      case big: False
      then show ?thesis using d(1) False div(3)
        by (intro exI [of _ False] exI [of _ ?t]) (simp add: pwm_set_frequency_def Let_def)
    qed
  next
    case True
    obtain q where q: "float32 (of_u32 clk / float32 (of_u32 freq * 1)) = q" "close (C / F) q"
      "to_u16 q = Some (word_of_int \<lfloor>q\<rfloor>)" "uint (word_of_int \<lfloor>q\<rfloor> :: u16) = \<lfloor>q\<rfloor>"
      using wrap_value [OF assms(1-3) d(2) [unfolded C_def F_def] True] by (auto simp: C_def F_def)
    let ?w = "word_of_int \<lfloor>q\<rfloor> :: u16"
    let ?t = "s\<lparr>pw_div := Some 1, pw_wrap := ?w\<rparr>"
    have "of_int (uint ?w) \<le> q" "q < of_int (uint ?w) + 1" unfolding q(4) by linarith+
    note cnt = counted [OF pos q(2) this]
    show ?thesis
    proof (cases "2 < ?w")
      case big: True
      then have "0 < uint ?w" by (simp add: word_less_def)
      then have "(0 :: rat) < of_int (uint ?w)" by (simp only: of_int_0_less_iff)
      from cnt(1) [OF this] cnt(2) [OF this] show ?thesis using d(1) True big q(1,3)
        by (intro exI [of _ True] exI [of _ "pw_emit [Pwm_level (pw_gpio s) 0, Pwm_config 1 ?w] ?t"])
          (simp add: pwm_set_frequency_def Let_def pw_emit_def)
    next
      case False
      then have "uint ?w \<le> 2" by (simp add: word_less_def)
      then have "of_int (uint ?w) \<le> (2 :: rat)" by linarith
      from cnt(3) [OF this] show ?thesis using d(1) True False q(1,3)
        by (intro exI [of _ False] exI [of _ ?t]) (simp add: pwm_set_frequency_def Let_def)
    qed
  qed
qed

definition pwm0 :: pwm where
  "pwm0 = \<lparr>pw_gpio = 5, pw_div = Some 0, pw_wrap = 0, pw_calls = []\<rparr>"

lemma pwm_frequency_witness:
  "\<exists>t d. pwm_set_frequency 125000000 38000 pwm0 = Some (True, t) \<and> pw_div t = Some d \<and>
    125000000 / (d * (of_int (uint (pw_wrap t)) + 1)) \<le> 38000 * (1 + 1 / 2 ^ 21)"
proof -
  have "map_option fst (pwm_set_frequency 125000000 38000 pwm0) = Some True" by code_simp
  then show ?thesis using pwm_frequency [of 38000 125000000 pwm0] by auto
qed

text \<open>Above 65538 Hz the product \<open>freq * wrap_\<close> wraps: at 125 MHz, 65539 Hz is refused as too low,
  and 65600 Hz is accepted and gives 61 Hz.  A refused frequency has already changed the members, so
  the next duty cycle is computed for a wrap value the hardware does not have.\<close>

theorem pwm_frequency_wraps:
  "map_option (\<lambda>(ok, t). (ok, pw_calls t, pw_wrap t)) (pwm_set_frequency 125000000 65539 pwm0) = Some (False, [], 65534)"
  "map_option (\<lambda>(ok, t). (ok, pwm_freq 125000000 t)) (pwm_set_frequency 125000000 65600 pwm0) = Some (True, Some 61)"
  by code_simp+

section \<open>Duty cycles\<close>

text \<open>A level never exceeds the wrap value by the rounding, and never lies out of range.\<close>

lemma rounded_range:
  "y * (1 - 1 / 2 ^ 24) \<le> x \<Longrightarrow> x \<le> y * (1 + 1 / 2 ^ 24) \<Longrightarrow> 0 \<le> y \<Longrightarrow> y \<le> 65535 \<Longrightarrow> 0 \<le> x \<and> x < 65536"
  for x y :: rat
  by simp

lemma duty_level:
  fixes w :: u16
  assumes "0 \<le> d" "d \<le> 1"
  defines "W \<equiv> of_int (uint w) :: rat"
  shows "\<exists>l. to_u16 (float32 (d * W)) = Some l \<and> of_int (uint l) \<le> d * W * (1 + 1 / 2 ^ 24) \<and>
    d * W * (1 - 1 / 2 ^ 24) < of_int (uint l) + 1"
proof -
  define x where "x = float32 (d * W)"
  have "uint w \<le> 65535" using uint_lt2p [of w] by simp
  then have W: "0 \<le> W" "W \<le> 65535" unfolding W_def by (simp_all only: of_int_0_le_iff uint_ge_0)
  have dW: "0 \<le> d * W" "d * W \<le> 65535" using assms(1,2) W mult_mono [of d 1 W 65535] by simp_all
  have x: "d * W * (1 - 1 / 2 ^ 24) \<le> x" "x \<le> d * W * (1 + 1 / 2 ^ 24)" unfolding x_def by (rule fl_bounds [OF dW(1)])+
  then have r: "0 \<le> x" "x < 65536" using rounded_range [OF x dW] by simp_all
  then have f: "0 \<le> \<lfloor>x\<rfloor>" "\<lfloor>x\<rfloor> < 65536" by (simp_all add: floor_less_iff)
  then have u: "uint (word_of_int \<lfloor>x\<rfloor> :: u16) = \<lfloor>x\<rfloor>" by (simp add: uint_word_of_int)
  have "of_int \<lfloor>x\<rfloor> \<le> x" "x < of_int \<lfloor>x\<rfloor> + 1" by linarith+
  then have "of_int (uint (word_of_int \<lfloor>x\<rfloor> :: u16)) \<le> d * W * (1 + 1 / 2 ^ 24)"
    "d * W * (1 - 1 / 2 ^ 24) < of_int (uint (word_of_int \<lfloor>x\<rfloor> :: u16)) + 1"
    unfolding u using x by linarith+
  then show ?thesis using r by (auto simp: to_u16_def simp flip: x_def)
qed

text \<open>The duty cycle of a servo, with the errors of its five roundings.\<close>

lemma round_between:
  assumes "l \<le> x" "x \<le> h" "0 \<le> l"
  shows "l * (1 - 1 / 2 ^ p) \<le> fl p x" "fl p x \<le> h * (1 + 1 / 2 ^ p)"
proof -
  have "(1 :: rat) / 2 ^ p \<le> 1" by simp
  then have "l * (1 - 1 / 2 ^ p) \<le> x * (1 - 1 / 2 ^ p)" using assms(1) by (intro mult_right_mono) simp_all
  then show "l * (1 - 1 / 2 ^ p) \<le> fl p x" using fl_bounds(1) [of x p] assms by linarith
  have "x * (1 + 1 / 2 ^ p) \<le> h * (1 + 1 / 2 ^ p)" using assms(2) by (intro mult_right_mono) simp_all
  then show "fl p x \<le> h * (1 + 1 / 2 ^ p)" using fl_bounds(2) [of x p] assms by linarith
qed

lemma servo_duty_range: "249 / 10000 \<le> servo_duty angle" "servo_duty angle \<le> 1201 / 10000"
proof -
  define a where "a = (let a1 = (if angle < -90 then -90 else angle) in if a1 > 90 then 90 else a1)"
  define t1 t2 t3 t4 where "t1 = float64 (a + 90)" and "t2 = float64 (t1 / 180)" and "t3 = float64 (t2 * float64 (95 / 1000))"
    and "t4 = float64 (t3 + float64 (25 / 1000))"
  have duty: "servo_duty angle = float32 t4" by (simp add: servo_duty_def a_def t1_def t2_def t3_def t4_def Let_def)
  let ?h = "1 + 1 / 2 ^ 53 :: rat" and ?l = "1 - 1 / 2 ^ 53 :: rat"
  have a: "0 \<le> a + 90" "a + 90 \<le> 180" by (auto simp: a_def Let_def)
  have t1: "0 \<le> t1" "t1 \<le> 180 * ?h" using round_between [OF a, of 53] unfolding t1_def by simp_all
  have "0 \<le> t1 / 180" "t1 / 180 \<le> ?h" using t1 by simp_all
  from round_between [OF this, of 53] have t2: "0 \<le> t2" "t2 \<le> ?h * ?h" unfolding t2_def by simp_all
  have c: "0 \<le> float64 (95 / 1000)" "float64 (95 / 1000) \<le> 95 / 1000 * ?h"
    "25 / 1000 * ?l \<le> float64 (25 / 1000)" "float64 (25 / 1000) \<le> 25 / 1000 * ?h"
    using fl_bounds [of "95 / 1000" 53] fl_bounds [of "25 / 1000" 53] by simp_all
  have "0 \<le> t2 * float64 (95 / 1000)" "t2 * float64 (95 / 1000) \<le> ?h * ?h * (95 / 1000 * ?h)"
    by (rule mult_nonneg_nonneg [OF t2(1) c(1)], rule mult_mono [OF t2(2) c(2) _ c(1)]) simp
  from round_between [OF this, of 53] have t3: "0 \<le> t3" "t3 \<le> ?h * ?h * (95 / 1000 * ?h) * ?h" unfolding t3_def by simp_all
  have "25 / 1000 * ?l \<le> t3 + float64 (25 / 1000)"
    "t3 + float64 (25 / 1000) \<le> ?h * ?h * (95 / 1000 * ?h) * ?h + 25 / 1000 * ?h" using t3 c by linarith+
  from round_between [OF this, of 53]
  have t4: "25 / 1000 * ?l * ?l \<le> t4" "t4 \<le> (?h * ?h * (95 / 1000 * ?h) * ?h + 25 / 1000 * ?h) * ?h" unfolding t4_def by simp_all
  from round_between [OF t4, of 24] show "249 / 10000 \<le> servo_duty angle" "servo_duty angle \<le> 1201 / 10000"
    unfolding duty by simp_all
qed

lemma level_between:
  "249 / 10000 * w \<le> x \<Longrightarrow> x \<le> 1201 / 10000 * w \<Longrightarrow> l \<le> x * (1 + 1 / 2 ^ 24) \<Longrightarrow> x * (1 - 1 / 2 ^ 24) < l + 1 \<Longrightarrow>
    0 \<le> w \<Longrightarrow> l \<le> 1202 / 10000 * w \<and> 248 / 10000 * w < l + 1" for w x l :: rat
  by simp

text \<open>The pulses of a servo.  Whatever the angle, the level is set, and lies between 2.48 and 12.02
  per cent of the wrap value, about half a millisecond to 2.4 milliseconds of the period of 50 Hz; \<open>relax\<close>
  sets the level to zero.\<close>

theorem servo_pulse:
  "\<exists>t l. servo_set_angle angle s = Some t \<and> pw_calls t = pw_calls s @ [Pwm_level (pw_gpio s) l] \<and>
    of_int (uint l) \<le> 1202 / 10000 * (of_int (uint (pw_wrap s)) :: rat) \<and>
    248 / 10000 * (of_int (uint (pw_wrap s)) :: rat) < of_int (uint l) + 1"
  "\<exists>t. servo_relax s = Some t \<and> pw_calls t = pw_calls s @ [Pwm_level (pw_gpio s) 0]"
proof -
  let ?d = "servo_duty angle" and ?W = "of_int (uint (pw_wrap s)) :: rat"
  have d: "0 \<le> ?d" "?d \<le> 1" using servo_duty_range [of angle] by linarith+
  have W: "0 \<le> ?W" by (simp only: of_int_0_le_iff uint_ge_0)
  obtain l where l: "to_u16 (float32 (?d * ?W)) = Some l" "of_int (uint l) \<le> ?d * ?W * (1 + 1 / 2 ^ 24)"
    "?d * ?W * (1 - 1 / 2 ^ 24) < of_int (uint l) + 1"
    using duty_level [OF d] by blast
  have "249 / 10000 * ?W \<le> ?d * ?W" "?d * ?W \<le> 1201 / 10000 * ?W"
    using servo_duty_range [of angle] W by (simp_all only: mult_right_mono)
  then have b: "of_int (uint l) \<le> 1202 / 10000 * ?W" "248 / 10000 * ?W < of_int (uint l) + 1"
    using level_between [OF _ _ l(2,3) W] by blast+
  have "servo_set_angle angle s = Some (pw_emit [Pwm_level (pw_gpio s) l] s)"
    using d l(1) by (simp add: servo_set_angle_def pwm_set_duty_def Let_def)
  then show "\<exists>t l. servo_set_angle angle s = Some t \<and> pw_calls t = pw_calls s @ [Pwm_level (pw_gpio s) l] \<and>
    of_int (uint l) \<le> 1202 / 10000 * ?W \<and> 248 / 10000 * ?W < of_int (uint l) + 1"
    using b by (simp add: pw_emit_def)
  show "\<exists>t. servo_relax s = Some t \<and> pw_calls t = pw_calls s @ [Pwm_level (pw_gpio s) 0]"
    by (simp add: servo_relax_def pwm_set_duty_def fl_def to_u16_def pw_emit_def)
qed

end
