(* ===== verification/Battery.thy ===== *)
theory Battery
  imports Pwm
begin

text \<open>
  \<open>Power\<close> (\<open>util/power.h\<close>, \<open>util/power.cpp\<close>): the voltage of the battery from five readings of the
  converter, and the wait for it to settle.  The readings are parameters; the calls that set up and
  drain the converter, and the pin read of \<open>onBattery\<close>, are left out.
\<close>

section \<open>Definitions\<close>

definition POWER_SAMPLE_COUNT :: nat where "POWER_SAMPLE_COUNT = 3"

text \<open>The sum of the readings, the lowest and the highest.\<close>

definition battery_step :: "u16 \<Rightarrow> u32 \<times> u32 \<times> u32 \<Rightarrow> u32 \<times> u32 \<times> u32" where
  "battery_step val = (\<lambda>(vsys, vlo, vhi).
     (vsys + ucast val, if ucast val < vlo then ucast val else vlo, if ucast val > vhi then ucast val else vhi))"

definition battery_count :: "u16 list \<Rightarrow> u32" where
  "battery_count rs =
     (let v = ucast (hd rs); (vsys, vlo, vhi) = fold battery_step (take (POWER_SAMPLE_COUNT + 1) (tl rs)) (v, v, v)
      in (vsys - vhi - vlo) div of_nat POWER_SAMPLE_COUNT)"

definition battery_volts :: "u16 list \<Rightarrow> rat" where
  "battery_volts rs = float32 (of_u32 (battery_count rs * 3) * float32 (float32 (33 / 10) / 4096))"

text \<open>\<open>enable\<close>: the number of measurements made; \<open>volts\<close> are their results.\<close>

fun power_settle :: "(nat \<Rightarrow> rat) \<Rightarrow> nat list \<Rightarrow> rat \<Rightarrow> nat" where
  "power_settle volts [] v0 = 0"
| "power_settle volts (ii # iis) v0 =
     (let v1 = volts (ii + 1)
      in if v0 > 0 \<and> ii > 10 \<and> float32 (float32 (v1 - v0) / v0) < float64 (1 / 10) then 1
         else Suc (power_settle volts iis v1))"

definition power_enable :: "(nat \<Rightarrow> rat) \<Rightarrow> nat" where
  "power_enable volts = Suc (power_settle volts [0..<100] (volts 0))"

section \<open>Readings\<close>

lemma unat_reading: "unat (ucast (y :: u16) :: u32) = unat y"
proof -
  have "unat y < 2 ^ 16" using unsigned_less [of y, where ?'a = nat] by simp
  then show ?thesis by (simp add: unsigned_ucast_eq take_bit_nat_eq_self)
qed

lemma battery_fold:
  "fold battery_step ys (s, lo, hi) = (vs, vl, vh) \<Longrightarrow> unat s + sum_list (map unat ys) < 2 ^ 32 \<Longrightarrow>
    unat vs = unat s + sum_list (map unat ys) \<and> unat vl = fold min (map unat ys) (unat lo) \<and>
    unat vh = fold max (map unat ys) (unat hi)"
proof (induction ys arbitrary: s lo hi)
  case (Cons y ys)
  note u = unat_reading [of y]
  have m: "unat (if ucast y < lo then ucast y else lo) = min (unat y) (unat lo)"
    "unat (if hi < ucast y then ucast y else hi) = max (unat y) (unat hi)"
    using u by (auto simp: word_less_nat_alt)
  have "unat (s + ucast y) = unat s + unat y" using Cons.prems(2) u by (simp add: unat_plus_if')
  moreover have "fold battery_step ys
      (s + ucast y, if ucast y < lo then ucast y else lo, if hi < ucast y then ucast y else hi) = (vs, vl, vh)"
    using Cons.prems(1) unfolding fold_simps comp_apply battery_step_def [of y] split .
  ultimately show ?case using Cons.IH Cons.prems(2) by (simp add: m add.assoc min.commute max.commute)
qed simp

lemma sum_list_insort: "sum_list (insort x xs) = x + sum_list xs" for x :: nat
  by (induction xs) auto

lemma sum_list_sort: "sum_list (sort xs) = sum_list xs" for xs :: "nat list"
  by (induction xs) (auto simp: sum_list_insort)

lemma sorted_ends:
  fixes a :: nat
  assumes "sorted [a, b, c, d, e]" "set [a, b, c, d, e] = set (x # xs)"
  shows "fold min xs x = a" "fold max xs x = e"
proof -
  have "fold min xs x = Min (set [a, b, c, d, e])" unfolding assms(2) by (rule Min.set_eq_fold [symmetric])
  also have "\<dots> = a" using assms(1) by simp
  finally show "fold min xs x = a" .
  have "fold max xs x = Max (set [a, b, c, d, e])" unfolding assms(2) by (rule Max.set_eq_fold [symmetric])
  also have "\<dots> = e" using assms(1) by simp
  finally show "fold max xs x = e" .
qed

text \<open>The battery is read as the mean of the three readings in the middle: of five readings the
  lowest and the highest are dropped, whatever their order and with any repetitions, and no sum
  overflows.\<close>

theorem battery_middle:
  assumes "length rs = 5"
  defines "ns \<equiv> sort (map unat rs)"
  shows "unat (battery_count rs) = (ns ! 1 + ns ! 2 + ns ! 3) div 3"
proof -
  obtain r1 r2 r3 r4 r5 where rs: "rs = [r1, r2, r3, r4, r5]"
    using assms(1) by (auto simp: length_Suc_conv numeral_eq_Suc)
  have "length ns = 5" using assms(1) by (simp add: ns_def)
  then obtain a b c d e where ns: "ns = [a, b, c, d, e]" by (auto simp: length_Suc_conv numeral_eq_Suc)
  have st: "set [a, b, c, d, e] = set (unat r1 # map unat [r2, r3, r4, r5])" "sorted [a, b, c, d, e]"
    unfolding ns [symmetric] ns_def by (simp_all only: set_sort sorted_sort rs list.map)
  note ends = sorted_ends [OF st(2,1)]
  have sum: "a + b + c + d + e = unat r1 + sum_list (map unat [r2, r3, r4, r5])"
  proof -
    have "sum_list ns = sum_list (map unat rs)" by (simp add: ns_def sum_list_sort)
    then show ?thesis unfolding ns rs by (simp add: add.assoc)
  qed
  obtain vs vl vh where v: "fold battery_step [r2, r3, r4, r5] (ucast r1, ucast r1, ucast r1) = (vs, vl, vh)"
    by (metis prod_cases3)
  have "unat r < 65536" for r :: u16 using unsigned_less [of r, where ?'a = nat] by simp
  from this [of r1] this [of r2] this [of r3] this [of r4] this [of r5]
  have big: "unat (ucast r1 :: u32) + sum_list (map unat [r2, r3, r4, r5]) < 2 ^ 32"
    by (simp add: unat_reading)
  have f: "unat vs = a + b + c + d + e" "unat vl = a" "unat vh = e"
    using battery_fold [OF v big, unfolded unat_reading ends] sum by (simp_all only:)
  have "unat (vs - vh) = a + b + c + d" using f by (simp add: unat_sub word_le_nat_alt)
  then have "unat (vs - vh - vl) = b + c + d" using f by (simp add: unat_sub word_le_nat_alt)
  moreover have "battery_count rs = (vs - vh - vl) div of_nat POWER_SAMPLE_COUNT"
    using v by (simp only: battery_count_def rs list.sel Let_def POWER_SAMPLE_COUNT_def) (simp add: numeral_eq_Suc)
  ultimately show ?thesis by (simp add: POWER_SAMPLE_COUNT_def unat_div ns)
qed

lemma battery_middle_witness: "unat (battery_count [4000, 70, 2000, 2002, 2007]) = 2003"
proof -
  have "sort (map unat [4000, 70, 2000, 2002, 2007 :: u16]) = [70, 2000, 2002, 2007, 4000]" by code_simp
  then show ?thesis using battery_middle [of "[4000, 70, 2000, 2002, 2007]"] by simp
qed

text \<open>The measurements of \<open>enable\<close>.\<close>

lemma power_settle_skip:
  "\<forall>i \<in> set xs. i \<le> 10 \<Longrightarrow>
    power_settle volts (xs @ ys) v0 = length xs + power_settle volts ys (if xs = [] then v0 else volts (last xs + 1))"
  by (induction xs arbitrary: v0) (auto simp: Let_def)

lemma power_settle_le: "power_settle volts iis v0 \<le> length iis"
  by (induction volts iis v0 rule: power_settle.induct) (auto simp: Let_def)

lemma fl_nonpos: "x \<le> 0 \<Longrightarrow> fl p x \<le> 0"
proof -
  assume x: "x \<le> 0"
  have "\<bar>x\<bar> / 2 ^ p \<le> \<bar>x\<bar>" using divide_left_mono [of 1 "2 ^ p" "\<bar>x\<bar>"] by simp
  also have "\<bar>x\<bar> = - x" using x by simp
  finally have "\<bar>x\<bar> / 2 ^ p \<le> - x" .
  moreover have "fl p x \<le> x + \<bar>x\<bar> / 2 ^ p" using fl_error [of p x] by linarith
  ultimately show ?thesis by simp
qed

text \<open>\<open>enable\<close> always ends, after 13 to 101 measurements; and it does not wait for a voltage that
  still falls: the change is compared without its sign, so any fall counts as stable.\<close>

theorem power_enable_ends:
  "13 \<le> power_enable volts \<and> power_enable volts \<le> 101 \<and>
   (0 < volts 11 \<and> volts 12 \<le> volts 11 \<longrightarrow> power_enable volts = 13)"
proof -
  have split: "[0..<100] = [0..<11] @ 11 # [12..<100]" by (simp add: upt_rec)
  have s: "power_settle volts [0..<100] (volts 0) = 11 + power_settle volts (11 # [12..<100]) (volts 11)"
    unfolding split by (subst power_settle_skip) auto
  have "float32 (float32 (volts 12 - volts 11) / volts 11) < float64 (1 / 10)" if "0 < volts 11" "volts 12 \<le> volts 11"
  proof -
    have "float32 (volts 12 - volts 11) / volts 11 \<le> 0" using that fl_nonpos by (simp add: divide_nonpos_pos)
    then have "float32 (float32 (volts 12 - volts 11) / volts 11) \<le> 0" by (rule fl_nonpos)
    moreover have "0 < float64 (1 / 10)" using fl_bounds(1) [of "1 / 10" 53] by simp
    ultimately show ?thesis by linarith
  qed
  moreover have "power_settle volts [12..<100] v \<le> 88" for v using power_settle_le [of volts "[12..<100]" v] by simp
  ultimately show ?thesis unfolding power_enable_def s by (auto simp: Let_def simp del: upt_Suc)
qed

end
