(* ===== verification/Sound_Floats.thy ===== *)
theory Sound_Floats
  imports Sound Pwm
begin

text \<open>
  The floating-point side of \<open>Sound\<close> (\<open>util/sound.cpp\<close>) and the PWM under it: the expressions the
  code computes, with every operation rounded, and the calls of a sound carried out on the PWM
  object of \<open>Pwm\<close>.
\<close>

section \<open>Definitions\<close>

text \<open>\<open>M_PI\<close>, \<open>M_PI_4\<close> and \<open>4.0 / M_PI / M_PI\<close> in double precision.\<close>

definition M_PI :: rat where "M_PI = 884279719003555 / 281474976710656"
definition M_PI_4 :: rat where "M_PI_4 = M_PI / 4"
definition FOUR_PI_PI :: rat where "FOUR_PI_PI = float64 (float64 (4 / M_PI) / M_PI)"

text \<open>A factor of \<open>scale()\<close>; a division by zero is infinity, \<open>None\<close>.\<close>

definition scale_factor :: "int \<Rightarrow> int \<Rightarrow> rat option" where
  "scale_factor a b = (if b = 0 then None else Some (float32 (float32 (of_int a) / float32 (of_int b))))"

text \<open>The larger factor times the volume; infinity has no integer.\<close>

definition float_scale :: "u8 \<Rightarrow> u8 \<Rightarrow> rat \<Rightarrow> u16 option" where
  "float_scale high low volume =
     (case (scale_factor (0xff - 0x80) (uint high - 0x80), scale_factor (0x80 - 0x00) (0x80 - uint low)) of
        (Some scaleh, Some scalel) \<Rightarrow>
          to_u16 (float32 (float32 ((if scaleh > scalel then scaleh else scalel) * volume) * 0x80))
      | _ \<Rightarrow> None)"

definition float_volume :: "u8 \<Rightarrow> rat" where
  "float_volume v = (let x = float32 (float64 (of_int (uint v) / 100)) in if x > 1 then 1 else x)"

text \<open>The angle of one interrupt, for \<open>tone\<close>.\<close>

definition float_step :: "u32 \<Rightarrow> u32 \<Rightarrow> rat" where
  "float_step freq rate =
     float32 (float64 (float64 (float64 (of_int (uint freq) * 2) * M_PI) / of_int (uint rate)))"

text \<open>The quick sine.\<close>

definition quick_sine :: "rat \<Rightarrow> rat" where
  "quick_sine a =
     (let s = float32 (float64 (a * M_PI_4)); p = float64 (float64 (FOUR_PI_PI * a) * a)
      in float32 (float64 (if a < 0 then s + p else s - p)))"

definition float_sine :: "rat \<Rightarrow> rat \<Rightarrow> u32 \<Rightarrow> rat" where
  "float_sine v f i = float32 (v * quick_sine (float32 (float64 (float32 (of_u32 i * f) - M_PI))))"

text \<open>The wrap value \<open>setFrequency\<close> leaves, if it has a result.\<close>

definition pwm_wrap_for :: "u32 \<Rightarrow> u32 \<Rightarrow> u16" where
  "pwm_wrap_for clk freq =
     (case pwm_set_frequency clk freq \<lparr>pw_gpio = 0, pw_div = Some 0, pw_wrap = 0, pw_calls = []\<rparr> of
        None \<Rightarrow> 0
      | Some (ok, s) \<Rightarrow> pw_wrap s)"

definition sound_floats :: "u32 \<Rightarrow> rat sound_env" where
  "sound_floats clk =
     \<lparr>se_zero = 0, se_half = 1 / 2, se_one = 1, se_volume = float_volume, se_scale = float_scale,
      se_step = float_step, se_sine = float_sine, se_unit = (\<lambda>v. 0 \<le> v \<and> v \<le> 1), se_wrap = pwm_wrap_for clk\<rparr>"

text \<open>The calls of a sound, carried out on its PWM object.\<close>

fun on_pwm :: "u32 \<Rightarrow> rat sound_call list \<Rightarrow> pwm \<Rightarrow> pwm option" where
  "on_pwm clk [] p = Some p"
| "on_pwm clk (Set_level l # cs) p = on_pwm clk cs (pw_emit [Pwm_level (pw_gpio p) l] p)"
| "on_pwm clk (Set_duty d # cs) p = Option.bind (pwm_set_duty d p) (\<lambda>r. on_pwm clk cs (snd r))"
| "on_pwm clk (Set_frequency f # cs) p = Option.bind (pwm_set_frequency clk f p) (\<lambda>r. on_pwm clk cs (snd r))"
| "on_pwm clk (c # cs) p = on_pwm clk cs p"



section \<open>The PWM under a sound\<close>

lemma on_pwm_append:
  "on_pwm clk (cs @ ds) p = Option.bind (on_pwm clk cs p) (on_pwm clk ds)"
  by (induction clk cs p rule: on_pwm.induct) (auto simp: fun_eq_iff split: Option.bind_split)



text \<open>From one state to a later one, the frequency is the last that was set.\<close>

fun last_freq :: "u32 \<Rightarrow> 'f sound_call list \<Rightarrow> u32" where
  "last_freq f [] = f"
| "last_freq f (Set_frequency g # cs) = last_freq g cs"
| "last_freq f (c # cs) = last_freq f cs"

lemma last_freq_append [simp]: "last_freq f (cs @ ds) = last_freq (last_freq f cs) ds"
  by (induction f cs rule: last_freq.induct) simp_all











section \<open>Volumes and scales\<close>

lemma fl_one: "fl p 1 = 1" if "0 < p"
  using fl_int [of 1 p] that by simp

lemma fl_nonneg: "0 \<le> x \<Longrightarrow> 0 \<le> fl p x"
proof -
  assume x: "0 \<le> x"
  have "(1 :: rat) / 2 ^ p \<le> 1" by (simp add: divide_le_eq_1_pos)
  then have "0 \<le> x * (1 - 1 / 2 ^ p)" using x by (intro mult_nonneg_nonneg) simp_all
  then show ?thesis using fl_bounds(1) [OF x, of p] by linarith
qed







text \<open>Samples that use less of one half than of the other are overdriven: the larger factor scales both
  halves, and a sample of the wider half leaves the range, so far that the level is ten times
  the wrap value.\<close>

definition lopsided :: "rat sound" where
  "lopsided = (sound_new (sound_floats 125000000))\<lparr>so_data := [0x80, 0x90, 0x40, 0x80], so_datasz := 4, so_freq := 22050\<rparr>"

theorem lopsided_overdriven:
  "map_option (\<lambda>t. sample_level (sound_floats 125000000) t 0x40) (sound_scale (sound_floats 125000000) lopsided) = Some 57122"
  "pwm_wrap_for 125000000 22050 = 5668"
  by code_simp+

section \<open>Tones\<close>

text \<open>The quick sine uses a quarter of pi for four over pi: a tone begins at an angle of minus pi, where
  a sine is zero, with more than one and a half times its volume, which from two thirds on is cut
  to a level that is always on.\<close>

lemma quick_sine_start: "3 / 2 < quick_sine (float32 (float64 (0 - M_PI)))"
  by code_simp

lemma sine_rounded: "3 / 2 * v * (1 - 1 / 2 ^ 24) \<le> x \<Longrightarrow> 7 / 10 \<le> v \<Longrightarrow> 1 < x" for v x :: rat
  by simp

theorem tone_starts_loud:
  assumes "7 / 10 \<le> v"
  shows "pwm_set_duty (se_sine (sound_floats clk) v f 0) p = Some (pw_wrap p, pw_emit [Pwm_level (pw_gpio p) (pw_wrap p)] p)"
proof -
  define q where "q = quick_sine (float32 (float64 (0 - M_PI)))"
  have z: "fl n 0 = 0" for n by (simp add: fl_def)
  have "se_sine (sound_floats clk) v f 0 = float32 (v * q)"
    by (simp add: sound_floats_def float_sine_def q_def of_u32_def z)
  moreover have "1 < float32 (v * q)"
  proof -
    have "3 / 2 * v \<le> v * q" using mult_left_mono [of "3 / 2" q v] quick_sine_start assms by (simp add: q_def)
    then have "3 / 2 * v * (1 - 1 / 2 ^ 24) \<le> v * q * (1 - 1 / 2 ^ 24)" by (rule mult_right_mono) simp
    also have "\<dots> \<le> float32 (v * q)" using \<open>3 / 2 * v \<le> v * q\<close> assms by (intro fl_bounds(1)) simp
    finally show ?thesis using assms by (rule sine_rounded)
  qed
  moreover have "float32 (of_int (uint (pw_wrap p))) = of_int (uint (pw_wrap p))"
    by (rule fl_int) (use uint_lt2p [of "pw_wrap p"] in simp)
  moreover have "to_u16 (of_int (uint (pw_wrap p))) = Some (pw_wrap p)"
  proof -
    have "uint (pw_wrap p) < 65536" using uint_lt2p [of "pw_wrap p"] by simp
    then have "(of_int (uint (pw_wrap p)) :: rat) < 65536" by (simp only: of_int_less_numeral_iff)
    then show ?thesis by (simp only: to_u16_def floor_of_int word_of_int_uint of_int_0_le_iff uint_ge_0) simp
  qed
  ultimately show ?thesis by (simp only: pwm_set_duty_def Let_def) simp
qed

section \<open>The volume read back\<close>

text \<open>The volume read back, with an excess of half a per cent against the rounding.\<close>

definition sound_volume :: "rat sound \<Rightarrow> u8 option" where
  "sound_volume s = (let x = float64 (float64 (so_volume s + float64 (5 / 1000)) * 100) in
     if 0 \<le> x \<and> x < 256 then Some (word_of_int \<lfloor>x\<rfloor>) else None)"

lemma volume_rounded:
  fixes v a b c d e :: rat
  assumes "0 \<le> v" "v \<le> 100"
    and "v / 100 * (1 - 1 / 2 ^ 53) \<le> a" "a \<le> v / 100 * (1 + 1 / 2 ^ 53)"
    and "a * (1 - 1 / 2 ^ 24) \<le> b" "b \<le> a * (1 + 1 / 2 ^ 24)"
    and "5 / 1000 * (1 - 1 / 2 ^ 53) \<le> c" "c \<le> 5 / 1000 * (1 + 1 / 2 ^ 53)"
    and "(b + c) * (1 - 1 / 2 ^ 53) \<le> d" "d \<le> (b + c) * (1 + 1 / 2 ^ 53)"
    and "d * 100 * (1 - 1 / 2 ^ 53) \<le> e" "e \<le> d * 100 * (1 + 1 / 2 ^ 53)"
  shows "v \<le> e \<and> e < v + 1"
  using assms by simp

lemma read_back:
  assumes "0 \<le> n" "n \<le> 100" "b = float32 (float64 (of_int n / 100))"
  shows "\<lfloor>float64 (float64 (b + float64 (5 / 1000)) * 100)\<rfloor> = n"
proof -
  define v a c d where "v = (of_int n :: rat)" and "a = float64 (v / 100)" and "c = float64 (5 / 1000)"
    and "d = float64 (b + c)"
  have v: "0 \<le> v" "v \<le> 100" using assms(1,2) by (simp_all add: v_def)
  have b: "b = float32 a" using assms(3) by (simp add: a_def v_def)
  have pos: "0 \<le> a" "0 \<le> b" "0 \<le> c" using v by (simp_all add: a_def b c_def fl_nonneg)
  then have d: "0 \<le> d" by (simp add: d_def fl_nonneg)
  have p: "0 \<le> v / 100" "0 \<le> (5 / 1000 :: rat)" "0 \<le> b + c" "0 \<le> d * 100" using v pos d by simp_all
  have "v \<le> float64 (d * 100) \<and> float64 (d * 100) < v + 1"
    by (rule volume_rounded [OF v fl_bounds [OF p(1), of 53, folded a_def] fl_bounds [OF pos(1), of 24, folded b]
      fl_bounds [OF p(2), of 53, folded c_def] fl_bounds [OF p(3), of 53, folded d_def] fl_bounds [OF p(4), of 53]])
  then show ?thesis unfolding v_def d_def c_def by (intro floor_unique) simp_all
qed

lemma two_roundings:
  "0 \<le> y \<Longrightarrow> y * (1 - 1 / 2 ^ 53) \<le> a \<Longrightarrow> a \<le> y * (1 + 1 / 2 ^ 53) \<Longrightarrow>
    a * (1 - 1 / 2 ^ 24) \<le> x \<Longrightarrow> x \<le> a * (1 + 1 / 2 ^ 24) \<Longrightarrow>
    y * (1 - 1 / 1000) \<le> x \<and> x \<le> y * (1 + 1 / 1000)" for y a x :: rat
  by simp

lemma volume_bounds:
  assumes "0 \<le> v"
  shows "v / 100 * (1 - 1 / 1000) \<le> float32 (float64 (v / 100)) \<and> float32 (float64 (v / 100)) \<le> v / 100 * (1 + 1 / 1000)"
proof -
  have p: "0 \<le> v / 100" using assms by simp
  show ?thesis
    by (rule two_roundings [OF p fl_bounds [OF p, of 53] fl_bounds [OF fl_nonneg [OF p, of 53], of 24]])
qed

text \<open>A volume of at most 100 is read back as it was set, in spite of three conversions to floating
  point; a larger one is read back as 100.\<close>

theorem volume_read_back:
  assumes "set_volume (sound_floats clk) v s = Some t"
  shows "sound_volume t = Some (if v \<le> 100 then v else 100)"
proof -
  define n x where "n = uint v" and "x = float32 (float64 (of_int n / 100))"
  have "so_volume t = float_volume v"
    using assms by (auto simp: set_volume_def sound_scale_def sound_floats_def split: if_splits)
  then have t: "so_volume t = (if x > 1 then 1 else x)" by (simp only: float_volume_def Let_def x_def n_def)
  have n: "0 \<le> n" by (simp add: n_def)
  have b: "of_int n / 100 * (1 - 1 / 1000) \<le> x" "x \<le> of_int n / 100 * (1 + 1 / 1000)"
    using volume_bounds [of "of_int n"] n by (simp_all add: x_def)
  have one: "float32 (float64 (of_int 100 / 100)) = 1" by (simp add: fl_one)
  have again: "sound_volume t = Some (word_of_int m)" if "0 \<le> m" "m \<le> 100" "so_volume t = float32 (float64 (of_int m / 100))" for m
  proof -
    note f = read_back [OF that]
    have "0 \<le> float64 (float64 (so_volume t + float64 (5 / 1000)) * 100)"
      "float64 (float64 (so_volume t + float64 (5 / 1000)) * 100) < 256"
      using f that(1,2) by linarith+
    then show ?thesis unfolding sound_volume_def Let_def f by simp
  qed
  consider "n < 100" | "n = 100" | "100 < n" by linarith
  then show ?thesis
  proof cases
    case 1
    then have "n \<le> 99" by simp
    then have "of_int n \<le> (99 :: rat)" by (simp only: of_int_le_numeral_iff)
    then have "x \<le> 1" using b(2) by simp
    then have "so_volume t = x" by (simp add: t)
    moreover have "v \<le> 100" using 1 by (simp add: n_def word_le_def)
    ultimately show ?thesis using again [of n] n 1 by (simp add: x_def n_def)
  next
    case 2
    then have "so_volume t = float32 (float64 (of_int 100 / 100))" "v = 100"
      using one word_uint_eq_iff [of v 100] by (simp_all add: t x_def n_def)
    then show ?thesis using again [of 100] by simp
  next
    case 3
    then have "101 \<le> n" by simp
    then have "(101 :: rat) \<le> of_int n" by (simp only: of_int_numeral_le_iff)
    then have "1 < x" using b(1) by simp
    then have "so_volume t = float32 (float64 (of_int 100 / 100))" unfolding one by (simp add: t)
    moreover have "\<not> v \<le> 100" using 3 by (simp add: n_def word_le_def)
    ultimately show ?thesis using again [of 100] by simp
  qed
qed

lemma volume_read_back_witness:
  "\<exists>t. set_volume (sound_floats 125000000) 77 (sound_new (sound_floats 125000000)) = Some t \<and> sound_volume t = Some 77"
proof -
  obtain t where t: "set_volume (sound_floats 125000000) 77 (sound_new (sound_floats 125000000)) = Some t"
    by (simp add: set_volume_def sound_scale_def sound_new_def)
  then show ?thesis using volume_read_back [OF t] by simp
qed

end
