(* ===== verification/Buffers.thy ===== *)
theory Buffers
  imports Send_Queue
begin

text \<open>
  The send buffers in memory (\<open>WEB::SENDBUF\<close> and the queue of \<open>WEB::CLIENT\<close> in \<open>network/web.cpp\<close>):
  where the bytes are, who owns them and when they are freed.  A pointer is a block and an offset;
  a block is static or allocated, and its number is not used again after it is freed, so that a
  read of freed memory, a second free, a free of static memory and a free through a pointer into
  the middle of a block have no result.  The theory refines \<open>Send_Queue\<close>, where bytes are values.
\<close>

section \<open>Definitions\<close>

datatype storage = Static | Dynamic

record heap =
  hp_blocks :: "nat \<Rightarrow> (storage \<times> u8 list) option"
  hp_next :: nat

type_synonym pointer = "nat \<times> nat"

definition heap_new :: "u8 list \<Rightarrow> heap \<Rightarrow> nat \<times> heap" where
  "heap_new bytes h =
     (hp_next h, \<lparr>hp_blocks = (hp_blocks h)(hp_next h \<mapsto> (Dynamic, bytes)), hp_next = Suc (hp_next h)\<rparr>)"

definition heap_free :: "pointer \<Rightarrow> heap \<Rightarrow> heap option" where
  "heap_free p h =
     (case hp_blocks h (fst p) of
        Some (Dynamic, _) \<Rightarrow> if snd p = 0 then Some (h\<lparr>hp_blocks := (hp_blocks h)(fst p := None)\<rparr>) else None
      | _ \<Rightarrow> None)"

definition heap_read :: "pointer \<Rightarrow> nat \<Rightarrow> heap \<Rightarrow> u8 list option" where
  "heap_read p n h =
     (case hp_blocks h (fst p) of
        None \<Rightarrow> None
      | Some (_, bytes) \<Rightarrow> if snd p + n \<le> length bytes then Some (take n (drop (snd p) bytes)) else None)"

definition pointer_add :: "pointer \<Rightarrow> int \<Rightarrow> pointer" where
  "pointer_add p n = (fst p, nat (int (snd p) + n))"

subsection \<open>A buffer\<close>

record buffer =
  bu_buffer :: pointer
  bu_size :: int
  bu_sent :: int
  bu_ack :: int
  bu_alloc :: allocation

definition buffer_new :: "pointer \<Rightarrow> nat \<Rightarrow> allocation \<Rightarrow> heap \<Rightarrow> (buffer \<times> heap) option" where
  "buffer_new buf siz alloc h =
     (let b = \<lparr>bu_buffer = buf, bu_size = int siz, bu_sent = 0, bu_ack = 0, bu_alloc = alloc\<rparr>
      in if alloc = ALLOC
         then map_option (\<lambda>bytes. let (blk, h1) = heap_new bytes h in (b\<lparr>bu_buffer := (blk, 0)\<rparr>, h1)) (heap_read buf siz h)
         else Some (b, h))"

definition buffer_delete :: "buffer \<Rightarrow> heap \<Rightarrow> heap option" where
  "buffer_delete b h = (if bu_alloc b \<noteq> STAT then heap_free (bu_buffer b) h else Some h)"

text \<open>The pointer and the length that \<open>get_next\<close> gives out.\<close>

definition buffer_get_next :: "nat \<Rightarrow> buffer \<Rightarrow> (pointer \<times> nat) option \<times> buffer" where
  "buffer_get_next count b =
     (let n = min (int count) (bu_size b - bu_sent b)
      in (if n > 0 then Some (pointer_add (bu_buffer b) (bu_sent b), nat n) else None, b\<lparr>bu_sent := bu_sent b + n\<rparr>))"

text \<open>\<open>requeue\<close> compares the bytes at the pointer with those before the position.\<close>

definition buffer_requeue :: "heap \<Rightarrow> pointer \<times> nat \<Rightarrow> buffer \<Rightarrow> buffer option" where
  "buffer_requeue h r b =
     (let nn = bu_sent b - int (snd r)
      in if nn \<ge> 0
         then (case (heap_read (pointer_add (bu_buffer b) nn) (snd r) h, heap_read (fst r) (snd r) h) of
                 (Some x, Some y) \<Rightarrow> Some (if x = y then b\<lparr>bu_sent := nn\<rparr> else b)
               | _ \<Rightarrow> None)
         else Some b)"

definition buffer_acknowledge :: "int \<Rightarrow> buffer \<Rightarrow> int \<times> buffer" where
  "buffer_acknowledge count b =
     (let na = bu_ack b + count
      in if na > bu_size b then (na - bu_size b, b\<lparr>bu_ack := bu_size b\<rparr>) else (0, b\<lparr>bu_ack := na\<rparr>))"

subsection \<open>The queue\<close>

definition buffers_send :: "pointer \<Rightarrow> nat \<Rightarrow> allocation \<Rightarrow> heap \<times> buffer list \<Rightarrow> (heap \<times> buffer list) option" where
  "buffers_send buf n alloc = (\<lambda>(h, q). map_option (\<lambda>(b, h1). (h1, q @ [b])) (buffer_new buf n alloc h))"

text \<open>An acknowledged buffer is taken off the queue and deleted.\<close>

fun buffers_acknowledge :: "int \<Rightarrow> heap \<times> buffer list \<Rightarrow> (heap \<times> buffer list) option" where
  "buffers_acknowledge count (h, []) = Some (h, [])"
| "buffers_acknowledge count (h, b # q) =
     (let (left, b1) = buffer_acknowledge count b
      in if bu_ack b1 = bu_size b1
         then (case buffer_delete b1 h of
                 None \<Rightarrow> None
               | Some h1 \<Rightarrow> if left = 0 then Some (h1, q) else buffers_acknowledge left (h1, q))
         else Some (h, b1 # q))"

definition buffers_get_next ::
  "nat \<Rightarrow> heap \<times> buffer list \<Rightarrow> ((pointer \<times> nat) option \<times> heap \<times> buffer list) option" where
  "buffers_get_next count hq =
     (if count > 0
      then (case buffers_acknowledge 0 hq of
              None \<Rightarrow> None
            | Some (h, []) \<Rightarrow> Some (None, h, [])
            | Some (h, b # q1) \<Rightarrow>
                if bu_size b - bu_sent b > 0
                then (case buffer_get_next count b of (r, b1) \<Rightarrow> Some (r, h, b1 # q1))
                else Some (None, h, b # q1))
      else Some (None, hq))"

definition buffers_requeue :: "pointer \<times> nat \<Rightarrow> heap \<times> buffer list \<Rightarrow> (heap \<times> buffer list) option" where
  "buffers_requeue r hq =
     (case hq of
        (h, []) \<Rightarrow> Some (h, [])
      | (h, b # q) \<Rightarrow> map_option (\<lambda>b1. (h, b1 # q)) (buffer_requeue h r b))"

text \<open>The destructor of the client.\<close>

fun buffers_destroy :: "heap \<times> buffer list \<Rightarrow> heap option" where
  "buffers_destroy (h, []) = Some h"
| "buffers_destroy (h, b # q) = (case buffer_delete b h of None \<Rightarrow> None | Some h1 \<Rightarrow> buffers_destroy (h1, q))"

text \<open>
  The writing part of \<open>write_next\<close>: lwIP reads the bytes at the pointer, accepted or not, and keeps
  the pointer until they are acknowledged.
\<close>

definition buffers_write :: "nat \<Rightarrow> bool \<Rightarrow> heap \<times> buffer list \<Rightarrow> (u8 list \<times> heap \<times> buffer list) option" where
  "buffers_write count accepted hq =
     (case buffers_get_next count hq of
        None \<Rightarrow> None
      | Some (None, hq1) \<Rightarrow> Some ([], hq1)
      | Some (Some r, hq1) \<Rightarrow>
          (case heap_read (fst r) (snd r) (fst hq1) of
             None \<Rightarrow> None
           | Some bytes \<Rightarrow>
               if accepted then Some (bytes, hq1) else map_option (Pair []) (buffers_requeue r hq1)))"

section \<open>Ownership\<close>

text \<open>The blocks a queue has to free.\<close>

definition owned :: "buffer list \<Rightarrow> nat list" where
  "owned q = map (\<lambda>b. fst (bu_buffer b)) (filter (\<lambda>b. bu_alloc b \<noteq> STAT) q)"

lemma owned_simps [simp]:
  "owned [] = []"
  "owned (b # q) = (if bu_alloc b \<noteq> STAT then fst (bu_buffer b) # owned q else owned q)"
  "owned (q @ r) = owned q @ owned r"
  by (simp_all add: owned_def)

text \<open>A buffer whose memory is there, and what it stands for.\<close>

definition holds :: "heap \<Rightarrow> buffer \<Rightarrow> sendbuf \<Rightarrow> bool" where
  "holds h b s \<longleftrightarrow> heap_read (bu_buffer b) (nat (bu_size b)) h = Some (sb_data s) \<and> sb_size s = bu_size b \<and>
     sb_sent s = bu_sent b \<and> sb_ack s = bu_ack b \<and> sb_alloc s = bu_alloc b \<and>
     (if bu_alloc b = STAT then \<exists>bytes. hp_blocks h (fst (bu_buffer b)) = Some (Static, bytes)
      else snd (bu_buffer b) = 0 \<and> (\<exists>bytes. hp_blocks h (fst (bu_buffer b)) = Some (Dynamic, bytes)))"

definition heap_ok :: "heap \<Rightarrow> bool" where
  "heap_ok h \<longleftrightarrow> (\<forall>blk. hp_blocks h blk \<noteq> None \<longrightarrow> blk < hp_next h)"

definition stored :: "heap \<Rightarrow> buffer list \<Rightarrow> send_queue \<Rightarrow> bool" where
  "stored h q s \<longleftrightarrow> heap_ok h \<and> distinct (owned q) \<and> list_all2 (holds h) q s"

text \<open>A heap that agrees on the static blocks and on those of a queue stores the same queue.\<close>

lemma holds_frame:
  assumes "holds h b s" "hp_blocks h1 (fst (bu_buffer b)) = hp_blocks h (fst (bu_buffer b))"
  shows "holds h1 b s"
  using assms by (simp add: holds_def heap_read_def)

lemma stored_frame:
  assumes "list_all2 (holds h) q s" "\<forall>blk \<in> set (owned q). hp_blocks h1 blk = hp_blocks h blk"
    and "\<forall>blk bytes. hp_blocks h blk = Some (Static, bytes) \<longrightarrow> hp_blocks h1 blk = hp_blocks h blk"
  shows "list_all2 (holds h1) q s"
  using assms(1,2)
proof (induction rule: list_all2_induct)
  case (Cons b q c s)
  have "hp_blocks h1 (fst (bu_buffer b)) = hp_blocks h (fst (bu_buffer b))"
  proof (cases "bu_alloc b = STAT")
    case True
    then have "\<exists>bytes. hp_blocks h (fst (bu_buffer b)) = Some (Static, bytes)" using Cons(1) by (simp add: holds_def)
    then show ?thesis using assms(3) by blast
  qed (use Cons.prems in simp)
  then show ?case using Cons by (auto intro: holds_frame split: if_splits)
qed simp

lemma heap_ok_fresh: "heap_ok h \<Longrightarrow> hp_blocks h (hp_next h) = None"
  unfolding heap_ok_def by (metis less_irrefl)

lemma heap_new_frame:
  "heap_ok h \<Longrightarrow> heap_new bytes h = (blk, h1) \<Longrightarrow> heap_ok h1 \<and> hp_blocks h blk = None \<and>
    hp_blocks h1 = (hp_blocks h)(blk \<mapsto> (Dynamic, bytes))"
  using heap_ok_fresh by (auto simp: heap_new_def heap_ok_def less_Suc_eq)

lemma owned_allocated: "list_all2 (holds h) q s \<Longrightarrow> blk \<in> set (owned q) \<Longrightarrow> \<exists>bytes. hp_blocks h blk = Some (Dynamic, bytes)"
  by (induction rule: list_all2_induct) (auto simp: holds_def split: if_splits)

section \<open>The operations on stored queues\<close>

text \<open>What may be passed to \<open>queue_send\<close>: memory to copy, static memory, or a block of one's own.\<close>

definition may_send :: "heap \<Rightarrow> buffer list \<Rightarrow> pointer \<Rightarrow> nat \<Rightarrow> allocation \<Rightarrow> bool" where
  "may_send h q p n alloc \<longleftrightarrow> heap_read p n h \<noteq> None \<and>
     (case alloc of
        ALLOC \<Rightarrow> True
      | STAT \<Rightarrow> (\<exists>bytes. hp_blocks h (fst p) = Some (Static, bytes))
      | PREALL \<Rightarrow> snd p = 0 \<and> fst p \<notin> set (owned q) \<and> (\<exists>bytes. hp_blocks h (fst p) = Some (Dynamic, bytes)))"

lemma heap_read_length: "heap_read p n h = Some bytes \<Longrightarrow> length bytes = n"
  by (auto simp: heap_read_def split: option.splits if_splits)

lemma send_stored:
  assumes "stored h q s" "may_send h q p n alloc" "heap_read p n h = Some bytes"
  shows "\<exists>h1 q1. buffers_send p n alloc (h, q) = Some (h1, q1) \<and> stored h1 q1 (queue_send bytes alloc s) \<and>
    (\<forall>blk. blk \<notin> set (owned q1) \<longrightarrow> hp_blocks h1 blk = hp_blocks h blk)"
proof (cases "alloc = ALLOC")
  case False
  let ?b = "\<lparr>bu_buffer = p, bu_size = int n, bu_sent = 0, bu_ack = 0, bu_alloc = alloc\<rparr>"
  have "holds h ?b (sendbuf_new bytes alloc)"
    using assms(2,3) False heap_read_length [OF assms(3)]
    by (cases alloc) (auto simp: holds_def may_send_def sendbuf_new_def)
  then have "stored h (q @ [?b]) (queue_send bytes alloc s)"
    using assms(1,2) False by (cases alloc) (auto simp: stored_def queue_send_def may_send_def intro: list_all2_appendI)
  then show ?thesis using False by (simp add: buffers_send_def buffer_new_def Let_def)
next
  case True
  obtain blk h1 where new: "heap_new bytes h = (blk, h1)" by (cases "heap_new bytes h")
  let ?b = "\<lparr>bu_buffer = (blk, 0), bu_size = int n, bu_sent = 0, bu_ack = 0, bu_alloc = alloc\<rparr>"
  have f: "heap_ok h1" "hp_blocks h blk = None" "hp_blocks h1 = (hp_blocks h)(blk \<mapsto> (Dynamic, bytes))"
    using heap_new_frame [OF _ new] assms(1) by (simp_all add: stored_def)
  have q: "list_all2 (holds h) q s" "distinct (owned q)" using assms(1) by (simp_all add: stored_def)
  have own: "blk \<notin> set (owned q)" using owned_allocated [OF q(1), of blk] f(2) by auto
  have "list_all2 (holds h1) q s" by (rule stored_frame [OF q(1)]) (use own f(2,3) in auto)
  moreover have "holds h1 ?b (sendbuf_new bytes alloc)"
    using True heap_read_length [OF assms(3)] by (simp add: holds_def heap_read_def sendbuf_new_def f(3))
  ultimately have "stored h1 (q @ [?b]) (queue_send bytes alloc s)"
    using f(1) q(2) own True by (auto simp: stored_def queue_send_def intro: list_all2_appendI)
  then show ?thesis using True new assms(3) f(3) by (auto simp: buffers_send_def buffer_new_def Let_def)
qed

text \<open>Deleting the buffer at the front frees its block, if it has one of its own, and no other.\<close>

lemma delete_front:
  assumes "stored h (b # q) (c # s)"
  shows "\<exists>h1. buffer_delete b h = Some h1 \<and> stored h1 q s \<and>
    hp_blocks h1 = hp_blocks h |` (- set (owned [b]))"
proof (cases "bu_alloc b = STAT")
  case True
  then show ?thesis using assms by (auto simp: buffer_delete_def stored_def)
next
  case False
  let ?blk = "fst (bu_buffer b)"
  let ?h1 = "h\<lparr>hp_blocks := (hp_blocks h)(?blk := None)\<rparr>"
  have b: "holds h b c" "list_all2 (holds h) q s" "?blk \<notin> set (owned q)" "distinct (owned q)" "heap_ok h"
    using assms False by (simp_all add: stored_def)
  obtain bytes where d: "hp_blocks h ?blk = Some (Dynamic, bytes)" "snd (bu_buffer b) = 0"
    using b(1) False by (auto simp: holds_def)
  have "list_all2 (holds ?h1) q s"
    by (rule stored_frame [OF b(2)]) (use b(3) d(1) in auto)
  then have "stored ?h1 q s" using b(4,5) by (simp add: stored_def heap_ok_def)
  moreover have "buffer_delete b h = Some ?h1" using False d by (simp add: buffer_delete_def heap_free_def)
  moreover have "hp_blocks ?h1 = hp_blocks h |` (- set (owned [b]))"
    using False by (auto simp: fun_eq_iff restrict_map_def)
  ultimately show ?thesis by blast
qed

lemma acknowledge_stored:
  assumes "stored h q s"
  shows "\<exists>h1 q1. buffers_acknowledge n (h, q) = Some (h1, q1) \<and> stored h1 q1 (queue_acknowledge n s) \<and>
    set (owned q1) \<subseteq> set (owned q) \<and> hp_blocks h1 = hp_blocks h |` (- (set (owned q) - set (owned q1)))"
  using assms
proof (induction n s arbitrary: h q rule: queue_acknowledge.induct)
  case (1 n)
  then show ?case by (simp add: stored_def)
next
  case (2 n c s)
  obtain b r where q: "q = b # r" using 2(2) by (auto simp: stored_def list_all2_Cons2)
  have bc: "holds h b c" "list_all2 (holds h) r s" "heap_ok h" "distinct (owned (b # r))"
    using 2(2) q by (simp_all add: stored_def)
  obtain left b1 where ack: "buffer_acknowledge n b = (left, b1)" by (cases "buffer_acknowledge n b")
  define c1 where "c1 = c\<lparr>sb_ack := bu_ack b1\<rparr>"
  have sba: "sb_acknowledge n c = (left, c1)"
    using ack bc(1) by (auto simp: sb_acknowledge_def buffer_acknowledge_def holds_def Let_def c1_def split: if_splits)
  have same: "bu_buffer b1 = bu_buffer b" "bu_size b1 = bu_size b" "bu_alloc b1 = bu_alloc b" "bu_sent b1 = bu_sent b"
    using ack by (auto simp: buffer_acknowledge_def Let_def split: if_splits)
  have h1: "holds h b1 c1" using bc(1) same by (simp add: holds_def c1_def)
  have own: "owned (b1 # r) = owned (b # r)" using same by simp
  have st: "stored h (b1 # r) (c1 # s)" using bc h1 unfolding stored_def own by simp
  show ?case
  proof (cases "is_acknowledged c1")
    case False
    then have "bu_ack b1 \<noteq> bu_size b1" using h1 by (simp add: is_acknowledged_def holds_def)
    then show ?thesis using False sba ack st own q by (simp add: restrict_map_def fun_eq_iff)
  next
    case True
    then have eq: "bu_ack b1 = bu_size b1" using h1 by (simp add: is_acknowledged_def holds_def)
    obtain h2 where del: "buffer_delete b1 h = Some h2" "stored h2 r s" "hp_blocks h2 = hp_blocks h |` (- set (owned [b1]))"
      using delete_front [OF st] by blast
    have fr: "set (owned [b1]) \<inter> set (owned r) = {}" "set (owned [b1]) \<subseteq> set (owned q)" "set (owned r) \<subseteq> set (owned q)"
      "set (owned q) = set (owned [b1]) \<union> set (owned r)"
      using bc(4) same q by auto
    show ?thesis
    proof (cases "left = 0")
      case True
      then show ?thesis using \<open>is_acknowledged c1\<close> eq del ack sba q fr
        by (auto simp: fun_eq_iff restrict_map_def)
    next
      case False
      obtain h3 q3 where IH: "buffers_acknowledge left (h2, r) = Some (h3, q3)" "stored h3 q3 (queue_acknowledge left s)"
        "set (owned q3) \<subseteq> set (owned r)" "hp_blocks h3 = hp_blocks h2 |` (- (set (owned r) - set (owned q3)))"
        using 2(1) [OF sba [symmetric] refl True False del(2)] by blast
      have "hp_blocks h3 = hp_blocks h |` (- (set (owned q) - set (owned q3)))"
        unfolding IH(4) del(3) restrict_restrict using IH(3) fr by (intro arg_cong2 [where f = restrict_map]) auto
      then show ?thesis using True False IH eq del(1) ack sba q fr(3) by auto
    qed
  qed
qed

text \<open>The destructor frees everything the queue owns, each block once, and nothing else.\<close>

lemma destroy_stored:
  assumes "stored h q s"
  shows "\<exists>h1. buffers_destroy (h, q) = Some h1 \<and> hp_blocks h1 = hp_blocks h |` (- set (owned q))"
  using assms
proof (induction q arbitrary: h s)
  case Nil
  then show ?case by (simp add: restrict_map_def)
next
  case (Cons b q)
  obtain c t where s: "s = c # t" using Cons.prems by (auto simp: stored_def list_all2_Cons1)
  obtain h1 where del: "buffer_delete b h = Some h1" "stored h1 q t" "hp_blocks h1 = hp_blocks h |` (- set (owned [b]))"
    using delete_front Cons.prems s by blast
  obtain h2 where "buffers_destroy (h1, q) = Some h2" "hp_blocks h2 = hp_blocks h1 |` (- set (owned q))"
    using Cons.IH [OF del(2)] by blast
  then show ?case using del by (auto simp: fun_eq_iff restrict_map_def)
qed

text \<open>A part of a block.\<close>

lemma heap_read_part:
  assumes "heap_read p N h = Some bytes" "i + n \<le> N"
  shows "heap_read (pointer_add p (int i)) n h = Some (take n (drop i bytes))"
  using assms by (auto simp: heap_read_def pointer_add_def drop_take min_def add.commute nat_int_add
      split: option.splits if_splits)

lemma sb_requeue_back:
  "bs = take (nat n) (drop (nat i) (sb_data c)) \<Longrightarrow> length bs = nat n \<Longrightarrow> 0 < n \<Longrightarrow> 0 \<le> i \<Longrightarrow>
    sb_requeue bs (c\<lparr>sb_sent := i + n\<rparr>) = c\<lparr>sb_sent := i\<rparr>"
  unfolding sb_requeue_def Let_def by (simp del: length_take length_drop)

text \<open>Taking the next bytes, with lwIP's answer.\<close>

lemma write_stored:
  assumes "stored h q s" "queue_ok s" "queue_write count accepted s = (bytes, s1)"
  shows "\<exists>h1 q1. buffers_write count accepted (h, q) = Some (bytes, h1, q1) \<and> stored h1 q1 s1 \<and>
    set (owned q1) \<subseteq> set (owned q) \<and> hp_blocks h1 = hp_blocks h |` (- (set (owned q) - set (owned q1)))"
proof (cases "count > 0")
  case False
  then show ?thesis using assms
    by (auto simp: buffers_write_def buffers_get_next_def queue_write_def queue_get_next_def restrict_map_def)
next
  case count: True
  obtain h1 q1 where a: "buffers_acknowledge 0 (h, q) = Some (h1, q1)" "stored h1 q1 (queue_acknowledge 0 s)"
    "set (owned q1) \<subseteq> set (owned q)" "hp_blocks h1 = hp_blocks h |` (- (set (owned q) - set (owned q1)))"
    using acknowledge_stored [OF assms(1)] by blast
  have ok: "queue_ok (queue_acknowledge 0 s)" using assms(2) by (rule queue_acknowledge_0)
  show ?thesis
  proof (cases "queue_acknowledge 0 s")
    case Nil
    then have "q1 = []" using a(2) by (simp add: stored_def)
    then show ?thesis using count Nil a assms(3)
      by (simp add: buffers_write_def buffers_get_next_def queue_write_def queue_get_next_def)
  next
    case (Cons c t)
    obtain b r where q1: "q1 = b # r" using a(2) Cons by (auto simp: stored_def list_all2_Cons2)
    have bc: "holds h1 b c" "sb_ok c" using a(2) ok Cons q1 by (simp_all add: stored_def queue_ok_def)
    have sz: "bu_size b = sb_size c" "bu_sent b = sb_sent c" using bc(1) by (simp_all add: holds_def)
    show ?thesis
    proof (cases "to_send c > 0")
      case False
      then show ?thesis using count Cons a assms(3) q1 sz
        by (simp add: buffers_write_def buffers_get_next_def queue_write_def queue_get_next_def to_send_def)
    next
      case True
      define n where "n = min (int count) (to_send c)"
      define k where "k = nat (sb_sent c)"
      define p where "p = pointer_add (bu_buffer b) (sb_sent c)"
      have n: "0 < n" "k + nat n \<le> nat (sb_size c)" "sb_sent c = int k" "0 \<le> sb_sent c"
        using True count bc(2) by (auto simp: n_def k_def sb_ok_def to_send_def min_def)
      let ?bs = "take (nat n) (drop k (sb_data c))"
      have len: "length ?bs = nat n" using n(2) bc(2) by (simp add: sb_ok_def)
      have rd: "heap_read p (nat n) h1 = Some ?bs"
        using heap_read_part [of "bu_buffer b" "nat (sb_size c)" h1 "sb_data c" k "nat n"] bc(1) n(2,3) sz
        by (simp add: holds_def p_def)
      let ?b = "b\<lparr>bu_sent := sb_sent c + n\<rparr>" and ?c = "c\<lparr>sb_sent := sb_sent c + n\<rparr>"
      have got: "buffers_get_next count (h, q) = Some (Some (p, nat n), h1, ?b # r)"
        using count a(1) q1 True n(1) sz
        by (simp add: buffers_get_next_def buffer_get_next_def Let_def n_def p_def to_send_def)
      have gets: "queue_get_next count s = (Some ?bs, ?c # t)"
        using count Cons True n(1) by (simp add: queue_get_next_def sb_get_next_def Let_def n_def k_def)
      have own: "owned (?b # r) = owned q1" using q1 by simp
      have bc1: "holds h1 ?b ?c" using bc(1) by (simp add: holds_def)
      then have st: "stored h1 (?b # r) (?c # t)" using a(2) Cons q1 unfolding stored_def own by simp
      show ?thesis
      proof (cases accepted)
        case True
        then show ?thesis using got gets rd st a(3,4) own assms(3)
          by (auto simp: buffers_write_def queue_write_def)
      next
        case False
        have "?b\<lparr>bu_sent := sb_sent c\<rparr> = b" by (simp flip: sz(2))
        moreover have "buffer_requeue h1 (p, nat n) ?b = Some (?b\<lparr>bu_sent := sb_sent c\<rparr>)"
          using rd n(1,3) by (simp add: buffer_requeue_def p_def Let_def)
        moreover have "sb_requeue ?bs ?c = c\<lparr>sb_sent := sb_sent c\<rparr>"
          by (rule sb_requeue_back) (use len n(1,4) in \<open>simp_all add: k_def del: length_take\<close>)
        ultimately show ?thesis using False got gets rd a(2-4) q1 Cons assms(3)
          by (auto simp: buffers_write_def queue_write_def buffers_requeue_def queue_requeue_def)
      qed
    qed
  qed
qed

section \<open>Histories\<close>

text \<open>What can happen: the operations of the server, and anything that other code does to its own memory.\<close>

datatype buffers_event =
    Send pointer nat allocation
  | Write nat bool
  | Ack nat
  | Other heap

definition legal :: "heap \<Rightarrow> buffer list \<Rightarrow> buffers_event \<Rightarrow> bool" where
  "legal h q e \<longleftrightarrow>
     (case e of
        Send p n alloc \<Rightarrow> may_send h q p n alloc
      | Write n accepted \<Rightarrow> True
      | Ack n \<Rightarrow> (case q of [] \<Rightarrow> n = 0 | b # _ \<Rightarrow> int n \<le> bu_sent b - bu_ack b)
      | Other h1 \<Rightarrow> heap_ok h1 \<and> (\<forall>blk \<in> set (owned q). hp_blocks h1 blk = hp_blocks h blk) \<and>
          (\<forall>blk bytes. hp_blocks h blk = Some (Static, bytes) \<longrightarrow> hp_blocks h1 blk = hp_blocks h blk))"

definition buffers_step :: "buffers_event \<Rightarrow> heap \<times> buffer list \<Rightarrow> (u8 list \<times> heap \<times> buffer list) option" where
  "buffers_step e hq =
     (case e of
        Send p n alloc \<Rightarrow> map_option (Pair []) (buffers_send p n alloc hq)
      | Write n accepted \<Rightarrow> buffers_write n accepted hq
      | Ack n \<Rightarrow> map_option (Pair []) (buffers_acknowledge (int n) hq)
      | Other h1 \<Rightarrow> Some ([], h1, snd hq))"

text \<open>The event without the memory.\<close>

definition by_value :: "heap \<Rightarrow> buffers_event \<Rightarrow> queue_event list" where
  "by_value h e =
     (case e of
        Send p n alloc \<Rightarrow> [Queued (the (heap_read p n h)) alloc]
      | Write n accepted \<Rightarrow> [Written n accepted]
      | Ack n \<Rightarrow> [Acked n]
      | Other h1 \<Rightarrow> [])"

inductive buffers_run :: "heap \<Rightarrow> buffer list \<Rightarrow> u8 list \<Rightarrow> queue_event list \<Rightarrow> bool" where
  fresh: "heap_ok h \<Longrightarrow> buffers_run h [] [] []"
| event: "buffers_run h q out evs \<Longrightarrow> legal h q e \<Longrightarrow> buffers_step e (h, q) = Some (bytes, h1, q1) \<Longrightarrow>
    buffers_run h1 q1 (out @ bytes) (evs @ by_value h e)"

lemma in_flight_stored: "list_all2 (holds h) q s \<Longrightarrow>
    in_flight s = (case q of [] \<Rightarrow> 0 | b # _ \<Rightarrow> nat (bu_sent b - bu_ack b))"
  by (cases q; cases s) (auto simp: in_flight_def holds_def)

lemma step_stored:
  assumes "stored h q s" "queue_ok s" "legal h q e"
  shows "\<exists>bytes h1 q1 s1. buffers_step e (h, q) = Some (bytes, h1, q1) \<and> stored h1 q1 s1 \<and> queue_ok s1 \<and>
    foldl queue_step (out, s) (by_value h e) = (out @ bytes, s1) \<and>
    (\<forall>ev \<in> set (by_value h e). ack_bound ev s)"
proof (cases e)
  case (Send p n alloc)
  obtain bytes where r: "heap_read p n h = Some bytes" using assms(3) Send by (auto simp: legal_def may_send_def)
  show ?thesis
    using send_stored [OF assms(1) _ r] assms(3) Send r queue_send_ok [OF assms(2)]
    by (fastforce simp: buffers_step_def by_value_def legal_def ack_bound_def)
next
  case (Write n accepted)
  obtain bytes s1 where w: "queue_write n accepted s = (bytes, s1)" by (cases "queue_write n accepted s")
  show ?thesis
    using write_stored [OF assms(1,2) w] queue_write_ok [OF assms(2) w] w Write
    by (fastforce simp: buffers_step_def by_value_def ack_bound_def)
next
  case (Ack n)
  have "n \<le> in_flight s"
    using assms(1,3) Ack in_flight_stored [of h q s] by (auto simp: stored_def legal_def split: list.splits)
  then show ?thesis
    using acknowledge_stored [OF assms(1), of "int n"] queue_acknowledge_ok [OF assms(2)] Ack
    by (fastforce simp: buffers_step_def by_value_def ack_bound_def)
next
  case (Other h1)
  then have "stored h1 q s"
    using assms(1,3) unfolding stored_def legal_def by (auto intro: stored_frame)
  then show ?thesis using assms(2) Other by (simp add: buffers_step_def by_value_def)
qed

lemma run_stored:
  "buffers_run h q out evs \<Longrightarrow> \<exists>s. queue_run evs = (out, s) \<and> ack_valid evs \<and> stored h q s \<and> queue_ok s"
proof (induction rule: buffers_run.induct)
  case (fresh h)
  then show ?case by (simp add: queue_run_def ack_valid_def stored_def queue_ok_def)
next
  case (event h q out evs e bytes h1 q1)
  then obtain s where s: "queue_run evs = (out, s)" "ack_valid evs" "stored h q s" "queue_ok s" by blast
  obtain s1 where s1: "stored h1 q1 s1" "queue_ok s1" "foldl queue_step (out, s) (by_value h e) = (out @ bytes, s1)"
    "\<forall>ev \<in> set (by_value h e). ack_bound ev s"
    using step_stored [OF s(3,4) event(2), of out] event(3) by auto
  have "queue_run (evs @ by_value h e) = (out @ bytes, s1)" using s(1) s1(3) by (simp add: queue_run_def)
  moreover have "ack_valid (evs @ by_value h e)"
    using s(1,2) s1(4) by (cases e) (simp_all add: by_value_def ack_valid_snoc)
  ultimately show ?case using s1(1,2) by blast
qed

section \<open>Properties\<close>

text \<open>C39: The memory of a send queue.  In every history in which callers pass memory that may be sent
  and lwIP acknowledges what it has, whatever other code does meanwhile to memory that is not the
  queue's (so the caller may change or free what it had copied): no further operation reads or
  frees memory that is not there; the bytes lwIP has read are those of the queue by value; the
  bytes in flight are still in place where lwIP was told; and the destructor of the client frees
  every block the queue still owns, each once, and no other.\<close>

theorem buffers_memory:
  assumes "buffers_run h q out evs"
  shows "(\<forall>e. legal h q e \<longrightarrow> buffers_step e (h, q) \<noteq> None) \<and>
    fst (queue_run evs) = out \<and>
    (\<forall>b r. q = b # r \<longrightarrow> heap_read (pointer_add (bu_buffer b) (bu_ack b)) (nat (bu_sent b - bu_ack b)) h =
      Some (take (nat (bu_sent b - bu_ack b)) (drop (nat (bu_ack b)) (sb_data (hd (snd (queue_run evs))))))) \<and>
    (\<exists>h1. buffers_destroy (h, q) = Some h1 \<and> hp_blocks h1 = hp_blocks h |` (- set (owned q)))"
proof -
  obtain s where s: "queue_run evs = (out, s)" "stored h q s" "queue_ok s" using run_stored [OF assms] by blast
  have "\<forall>e. legal h q e \<longrightarrow> buffers_step e (h, q) \<noteq> None" using step_stored [OF s(2,3)] by fastforce
  moreover have "heap_read (pointer_add (bu_buffer b) (bu_ack b)) (nat (bu_sent b - bu_ack b)) h =
      Some (take (nat (bu_sent b - bu_ack b)) (drop (nat (bu_ack b)) (sb_data (hd s))))" if qb: "q = b # r" for b r
  proof -
    obtain c t where c: "s = c # t" "holds h b c" "sb_ok c"
      using s(2,3) unfolding qb by (auto simp: stored_def list_all2_Cons1 queue_ok_def)
    then show ?thesis
      using heap_read_part [of "bu_buffer b" "nat (bu_size b)" h "sb_data c" "nat (bu_ack b)" "nat (bu_sent b - bu_ack b)"]
      by (auto simp: holds_def sb_ok_def)
  qed
  ultimately show ?thesis using s(1) destroy_stored [OF s(2)] by simp
qed

lemma buffers_memory_witness:
  "\<exists>h. buffers_destroy (\<lparr>hp_blocks = [0 \<mapsto> (Dynamic, [1, 2, 3])], hp_next = Suc 0\<rparr>,
      [\<lparr>bu_buffer = (0, 0), bu_size = 3, bu_sent = 2, bu_ack = 0, bu_alloc = PREALL\<rparr>]) = Some h \<and>
    hp_blocks h 0 = None"
proof -
  let ?h = "\<lparr>hp_blocks = [0 \<mapsto> (Dynamic, [1, 2, 3])], hp_next = Suc 0\<rparr>"
  let ?b = "\<lparr>bu_buffer = (0, 0), bu_size = 3, bu_sent = 0, bu_ack = 0, bu_alloc = PREALL\<rparr>"
  let ?q = "[\<lparr>bu_buffer = (0, 0), bu_size = 3, bu_sent = 2, bu_ack = 0, bu_alloc = PREALL\<rparr>]"
  have "buffers_run ?h [] [] []" by (rule fresh) (simp add: heap_ok_def)
  then have "buffers_run ?h [?b] ([] @ []) ([] @ by_value ?h (Send (0, 0) 3 PREALL))"
    by (rule event) (simp_all add: legal_def may_send_def buffers_step_def buffers_send_def buffer_new_def heap_read_def)
  then have run: "buffers_run ?h ?q (([] @ []) @ [1, 2])
      (([] @ by_value ?h (Send (0, 0) 3 PREALL)) @ by_value ?h (Write 2 True))"
    by (rule event) (simp_all add: legal_def buffers_step_def buffers_write_def buffers_get_next_def buffer_acknowledge_def
        buffer_get_next_def pointer_add_def heap_read_def)
  have "\<exists>h1. buffers_destroy (?h, ?q) = Some h1 \<and> hp_blocks h1 = hp_blocks ?h |` (- set (owned ?q))"
    using buffers_memory [OF run] by (elim conjE)
  then obtain h1 where "buffers_destroy (?h, ?q) = Some h1" "hp_blocks h1 = hp_blocks ?h |` (- set (owned ?q))" by blast
  then show ?thesis by (intro exI [of _ h1]) (simp del: buffers_destroy.simps)
qed

end
