(* ===== verification/Carrier.thy ===== *)
theory Carrier
  imports Transmitters Pwm
begin

text \<open>
  The transmitter objects as they are constructed (\<open>ir/nec_transmitter.h\<close>,
  \<open>ir/samsung_transmitter.h\<close>, \<open>ir/sony_transmitter.h\<close>): the output object of \<open>Ir_Led\<close> with the PWM
  object of \<open>Pwm\<close> that is its base class, and the carrier the PWM puts out while the light is on.
\<close>

section \<open>Definitions\<close>

record transmitter =
  tr_led :: ir_led
  tr_pwm :: pwm
  tr_duty :: rat
  tr_class :: led_class
  tr_protocol :: string
  tr_address_size :: nat
  tr_command_size :: nat

text \<open>The base class is constructed with the duty cycle 0; the sizes are those of the Sony classes.\<close>

definition transmitter_new ::
  "led_class \<Rightarrow> string \<Rightarrow> nat \<Rightarrow> nat \<Rightarrow> u32 \<Rightarrow> nat \<Rightarrow> u32 \<Rightarrow> rat \<Rightarrow> nat \<Rightarrow> (nat \<Rightarrow> u32) \<Rightarrow> transmitter option" where
  "transmitter_new c protocol as cs clk gpio freq duty a_times mem =
     map_option (\<lambda>p. \<lparr>tr_led = led_new a_times mem, tr_pwm = p, tr_duty = duty, tr_class = c, tr_protocol = protocol,
         tr_address_size = as, tr_command_size = cs\<rparr>)
       (pwm_new clk gpio freq 0)"

definition nec_transmitter_new :: "u32 \<Rightarrow> nat \<Rightarrow> (nat \<Rightarrow> u32) \<Rightarrow> transmitter option" where
  "nec_transmitter_new clk gpio mem =
     transmitter_new nec_led_class ''NEC'' 0 0 clk gpio 38000 (1 / 4) NEC_MESSAGE_LEN mem"

definition samsung_transmitter_new :: "u32 \<Rightarrow> nat \<Rightarrow> (nat \<Rightarrow> u32) \<Rightarrow> transmitter option" where
  "samsung_transmitter_new clk gpio mem =
     transmitter_new samsung_led_class ''SAM'' 0 0 clk gpio 38000 (1 / 4) SAMSUNG_MESSAGE_LEN mem"

definition sony12_transmitter_new :: "u32 \<Rightarrow> nat \<Rightarrow> (nat \<Rightarrow> u32) \<Rightarrow> transmitter option" where
  "sony12_transmitter_new clk gpio mem =
     transmitter_new sony_led_class ''Sony12'' 5 7 clk gpio 40000 (1 / 4) ((5 + 7) * 2 + 1) mem"

definition sony15_transmitter_new :: "u32 \<Rightarrow> nat \<Rightarrow> (nat \<Rightarrow> u32) \<Rightarrow> transmitter option" where
  "sony15_transmitter_new clk gpio mem =
     transmitter_new sony_led_class ''Sony15'' 8 7 clk gpio 40000 (1 / 4) ((8 + 7) * 2 + 1) mem"

text \<open>The duty cycle set for a state of the light: \<open>duty_\<close> when it is on, 0 when it is off.\<close>

definition carrier :: "transmitter \<Rightarrow> bool \<Rightarrow> u16 option" where
  "carrier t on = map_option fst (pwm_set_duty (if on then tr_duty t else 0) (tr_pwm t))"

text \<open>A waveform of the light, as the levels the PWM compares with.\<close>

definition carrier_wave :: "transmitter \<Rightarrow> (bool \<times> int) list \<Rightarrow> (u16 option \<times> int) list" where
  "carrier_wave t ws = map (\<lambda>(on, d). (carrier t on, d)) ws"

section \<open>Properties\<close>

text \<open>The array a transmitter is constructed with holds every message of its protocol, and is full with
  it, so that it is never allocated again.\<close>

theorem transmitter_arrays:
  "\<forall>t. nec_transmitter_new clk gpio mem = Some t \<longrightarrow>
     led_a_times (nec_set_message_times m1 addr func (tr_led t)) = led_a_times (tr_led t) \<and>
     led_n_times (nec_set_message_times m1 addr func (tr_led t)) = led_a_times (tr_led t)"
  "\<forall>t. samsung_transmitter_new clk gpio mem = Some t \<longrightarrow>
     led_a_times (samsung_set_message_times m1 addr func (tr_led t)) = led_a_times (tr_led t) \<and>
     led_n_times (samsung_set_message_times m1 addr func (tr_led t)) = led_a_times (tr_led t)"
  "\<forall>t. sony12_transmitter_new clk gpio mem = Some t \<or> sony15_transmitter_new clk gpio mem = Some t \<longrightarrow>
     led_a_times (sony_set_message_times m1 (tr_address_size t) (tr_command_size t) addr func (tr_led t)) = led_a_times (tr_led t) \<and>
     led_n_times (sony_set_message_times m1 (tr_address_size t) (tr_command_size t) addr func (tr_led t)) = led_a_times (tr_led t)"
  by (auto simp: nec_transmitter_new_def samsung_transmitter_new_def sony12_transmitter_new_def sony15_transmitter_new_def
      transmitter_new_def nec_set_message_times_def samsung_set_message_times_def sony_set_message_times_def
      led_set_output_times_def led_stop_def led_new_def Let_def NEC_MESSAGE_LEN_def SAMSUNG_MESSAGE_LEN_def
      led_emit_def message_lengths)

text \<open>While the light is on, the level is a quarter of the wrap value, up to one step; while it is off,
  it is zero: so the wave of a transmission is one of bursts of the carrier and pauses.\<close>

theorem carrier_levels:
  assumes "nec_transmitter_new clk gpio mem = Some t \<or> samsung_transmitter_new clk gpio mem = Some t \<or>
    sony12_transmitter_new clk gpio mem = Some t \<or> sony15_transmitter_new clk gpio mem = Some t"
  defines "W \<equiv> of_int (uint (pw_wrap (tr_pwm t))) :: rat"
  shows "\<exists>l. carrier t True = Some l \<and> carrier t False = Some 0 \<and>
    of_int (uint l) \<le> 1 / 4 * W * (1 + 1 / 2 ^ 24) \<and> 1 / 4 * W * (1 - 1 / 2 ^ 24) < of_int (uint l) + 1 \<and>
    carrier_wave t ws = map (\<lambda>(on, d). (Some (if on then l else 0), d)) ws"
proof -
  have d: "tr_duty t = 1 / 4"
    using assms(1) by (auto simp: nec_transmitter_new_def samsung_transmitter_new_def sony12_transmitter_new_def
        sony15_transmitter_new_def transmitter_new_def)
  obtain l where l: "to_u16 (float32 (1 / 4 * W)) = Some l" "of_int (uint l) \<le> 1 / 4 * W * (1 + 1 / 2 ^ 24)"
    "1 / 4 * W * (1 - 1 / 2 ^ 24) < of_int (uint l) + 1"
    unfolding W_def using duty_level [of "1 / 4" "pw_wrap (tr_pwm t)"] by auto
  have "carrier t True = Some l"
    using l(1) d by (simp only: carrier_def pwm_set_duty_def Let_def if_True W_def) simp
  moreover have "carrier t False = Some 0" by (simp add: carrier_def pwm_set_duty_def fl_def to_u16_def)
  ultimately show ?thesis using l by (intro exI [of _ l]) (auto simp: carrier_wave_def)
qed

end
