(* ===== verification/Log_Reader.thy ===== *)
theory Log_Reader
  imports File_Logger
begin

text \<open>
  Reading the log (\<open>open\<close>, \<open>position\<close>, \<open>read\<close> and \<open>close\<close> of \<open>util/file_logger.h\<close>, \<open>file_size\<close>
  of \<open>util/file_logger.cpp\<close>): an open file is its text and a position; \<open>None\<close> is the null pointer.
  Nothing is logged while the file is read.
  \<open>fgets\<close> with room for no character reads nothing and returns the null pointer.
\<close>

section \<open>Definitions\<close>





text \<open>\<open>stat\<close> leaves the size at 0 when there is no file.\<close>

definition file_size :: "file_log \<Rightarrow> nat" where
  "file_size l = (case fl_files l (fl_name l) of None \<Rightarrow> 0 | Some s \<Rightarrow> length s)"

lemma fgets_len_Nil [simp]: "fgets_len k [] = 0"
  by (cases k) simp_all




section \<open>Lines\<close>



section \<open>Properties\<close>



end
