(* ===== verification/Net_Helpers.thy ===== *)
theory Net_Helpers
  imports Prelude
begin

text \<open>
  The small helpers around lwIP and the driver: the lock of the driver
  (\<open>network/cyw43_locker.h\<close>), the setting of the clock by SNTP (\<open>network/web_set_time.c\<close>) and the
  sending of a datagram by the DHCP server (\<open>dhcp_socket_sendto\<close> in \<open>network/dhcpserver.c\<close>).  The
  answers of lwIP are parameters; the calls are recorded.
\<close>

section \<open>The lock of the driver\<close>

datatype lock_call = Lwip_begin | Lwip_end | Work nat

record locker =
  lk_count :: int
  lk_calls :: "lock_call list"

definition locker_lock :: "locker \<Rightarrow> locker" where
  "locker_lock s = s\<lparr>lk_calls := lk_calls s @ [Lwip_begin], lk_count := lk_count s + 1\<rparr>"

definition locker_unlock :: "locker \<Rightarrow> locker" where
  "locker_unlock s = s\<lparr>lk_calls := lk_calls s @ [Lwip_end], lk_count := lk_count s - 1\<rparr>"

text \<open>Code as it uses the lock: an object that lives in a block, with other code around and in it.\<close>

datatype code = Locked "code list" | Code nat

fun run_code :: "code list \<Rightarrow> locker \<Rightarrow> locker" where
  "run_code [] s = s"
| "run_code (Code n # cs) s = run_code cs (s\<lparr>lk_calls := lk_calls s @ [Work n]\<rparr>)"
| "run_code (Locked bs # cs) s = run_code cs (locker_unlock (run_code bs (locker_lock s)))"

text \<open>How deep the lock is held behind some calls; \<open>None\<close> if it was given up without being held.\<close>

fun depth :: "nat \<Rightarrow> lock_call list \<Rightarrow> nat option" where
  "depth d [] = Some d"
| "depth d (Lwip_begin # cs) = depth (Suc d) cs"
| "depth d (Lwip_end # cs) = (case d of 0 \<Rightarrow> None | Suc e \<Rightarrow> depth e cs)"
| "depth d (Work n # cs) = depth d cs"

lemma depth_append: "depth d (a @ b) = Option.bind (depth d a) (\<lambda>e. depth e b)"
  by (induction d a rule: depth.induct) (auto split: nat.splits)

lemma run_code_depth:
  "\<exists>calls. lk_calls (run_code cs s) = lk_calls s @ calls \<and> lk_count (run_code cs s) = lk_count s \<and>
    (\<forall>d. depth d calls = Some d)"
proof (induction cs s rule: run_code.induct)
  case (2 n cs s)
  then obtain calls where "lk_calls (run_code cs (s\<lparr>lk_calls := lk_calls s @ [Work n]\<rparr>)) = lk_calls s @ Work n # calls"
    "lk_count (run_code cs (s\<lparr>lk_calls := lk_calls s @ [Work n]\<rparr>)) = lk_count s" "\<forall>d. depth d calls = Some d"
    by auto
  then show ?case by (intro exI [of _ "Work n # calls"]) simp
next
  case (3 bs cs s)
  define t where "t = run_code bs (locker_lock s)"
  obtain a where a: "lk_calls t = lk_calls s @ Lwip_begin # a" "lk_count t = lk_count s + 1" "\<forall>d. depth d a = Some d"
    using 3(1) by (auto simp: t_def locker_lock_def)
  obtain b where b: "lk_calls (run_code cs (locker_unlock t)) = lk_calls t @ Lwip_end # b"
    "lk_count (run_code cs (locker_unlock t)) = lk_count t - 1" "\<forall>d. depth d b = Some d"
    using 3(2) by (auto simp: t_def locker_unlock_def)
  have "lk_calls (run_code (Locked bs # cs) s) = lk_calls s @ Lwip_begin # a @ Lwip_end # b"
    "lk_count (run_code (Locked bs # cs) s) = lk_count s"
    using a(1,2) b(1,2) by (simp_all flip: t_def)
  then show ?case using a(3) b(3) by (intro exI [of _ "Lwip_begin # a @ Lwip_end # b"]) (simp add: depth_append)
qed simp

text \<open>Blocks that hold the lock, nested in any way, leave its count as it was, never give up a lock that is
  not held, and give up every lock they take.\<close>

theorem locks_balanced:
  assumes "lk_calls s = []"
  shows "lk_count (run_code cs s) = lk_count s \<and> depth 0 (lk_calls (run_code cs s)) = Some 0"
  using run_code_depth [of cs s] assms by auto

section \<open>Setting the clock\<close>

record clock_setter =
  tc_callback :: bool
  tc_time :: int
  tc_notices :: nat

definition set_time_set_cb :: "bool \<Rightarrow> clock_setter \<Rightarrow> clock_setter" where
  "set_time_set_cb cb s = s\<lparr>tc_callback := cb\<rparr>"

definition sntp_set_system_time :: "u32 \<Rightarrow> clock_setter \<Rightarrow> clock_setter" where
  "sntp_set_system_time sec s =
     (let s1 = s\<lparr>tc_time := uint sec\<rparr>
      in if tc_callback s1 then s1\<lparr>tc_notices := tc_notices s1 + 1\<rparr> else s1)"

section \<open>Sending a datagram\<close>

datatype datagram_call =
    Pbuf_alloc nat
  | Udp_sendto "nat option" "u8 list" "u8 list" nat
  | Pbuf_free

definition ENOMEM :: int where "ENOMEM = 12"

text \<open>
  \<open>alloc\<close> is whether there is memory, \<open>err\<close> what sending answers; the address is given as its
  four bytes.
\<close>

definition dhcp_socket_sendto ::
  "bool \<Rightarrow> int \<Rightarrow> nat option \<Rightarrow> u8 list \<Rightarrow> nat \<Rightarrow> u32 \<Rightarrow> nat \<Rightarrow> int \<times> datagram_call list" where
  "dhcp_socket_sendto alloc err nif buf len ip port =
     (let n = (if len > 0xffff then 0xffff else len)
      in if \<not> alloc then (- ENOMEM, [Pbuf_alloc n])
         else (if err \<noteq> 0 then err else int n,
               [Pbuf_alloc n,
                Udp_sendto nif (take n buf) (map (\<lambda>k. ucast (drop_bit k ip)) [24, 16, 8, 0]) port,
                Pbuf_free]))"

text \<open>Every answer of lwIP leaves no buffer behind, and a datagram goes out exactly when there was memory.\<close>

theorem sendto_calls:
  fixes ip :: u32
  assumes "len \<le> 0xffff" "length buf = len"
  shows "case dhcp_socket_sendto alloc err nif buf len ip port of (r, calls) \<Rightarrow>
    (alloc \<longleftrightarrow> Pbuf_free \<in> set calls) \<and>
    (alloc \<longrightarrow> [c \<leftarrow> calls. \<exists>i b a p. c = Udp_sendto i b a p] =
       [Udp_sendto nif buf (map (\<lambda>k. ucast (drop_bit k ip)) [24, 16, 8, 0]) port]) \<and>
    (r = int len \<longleftrightarrow> alloc \<and> (err = 0 \<or> err = int len))"
  using assms by (auto simp: dhcp_socket_sendto_def Let_def ENOMEM_def)

end
