(* ===== verification/Spec2Isabelle.thy ===== *)
theory Spec2Isabelle
  imports Transmitters Raw_Receiver Registry Button Web_Requests Web_Network Json File_Logger Led Dbg_Flag Sound Dhcp
    Ir_Wait Statics Web_Files Pwm Battery Sound_Floats
    Buffers Carrier Log_Reader Net_Helpers
begin

text \<open>
  A verification library for picolibs, a C++ support library for the Raspberry Pi Pico (RP2040):
  infrared reception and transmission (\<open>ir/\<close>), a web server with websockets on lwIP
  (\<open>network/\<close>), and small utility classes (\<open>util/\<close>).

  \<^bold>\<open>How the code is modelled.\<close>  An object is a record with a field per member and the calls it
  makes to hardware, lwIP or the application in order (\<open>..._calls\<close>); a method is a function from
  the object to its result and the changed object; an interrupt, alarm or lwIP callback is such
  a function too, and the order in which they come is a list of events or a step relation.
  What answers those calls is a parameter: the alarm pool, the clock, lwIP, the file system, the
  tiny-json library and the application's callbacks are functions of the calls made before, or
  arguments of the event.  Integers keep their width (\<open>u8\<close>, \<open>u16\<close>, \<open>u32\<close>, \<open>u64\<close>) where it can be
  seen; sizes of objects in memory (264 KB) are naturals.  \<open>char\<close> is unsigned on the target.  An
  access outside an array, through a null pointer or to a deleted object, an exception, and a
  shift or division without a value are results of their own (\<open>None\<close> or \<open>Inl\<close>).

  \<^bold>\<open>Prelude and library.\<close>  \<open>Prelude\<close>: word types, the bit collector of the decoders and
  encoders, array writes, signed readings, the collections of rules.  \<open>Cpp_String\<close>: \<open>std::string\<close>
  and the C string functions.

  \<^bold>\<open>Infrared.\<close>  \<open>Ir_Receiver\<close> is the base class of \<open>ir/ir_receiver.cpp\<close>: pulse buffer, edge
  interrupt (\<open>store_timestamp\<close>), bit and message timers, completion, reset.  Its virtual functions
  are the record \<open>ir_vtable\<close>, their laws the locale \<open>ir_protocol\<close>, the interrupts the relation
  \<open>ir_step\<close>.  \<open>Ir_Frame\<close> extends the locale to \<open>framed_protocol\<close>: a whole waveform fed in edge by
  edge.  \<open>Nec\<close>, \<open>Samsung\<close>, \<open>Sony\<close> and \<open>Raw_Receiver\<close> are the receiver classes of the same
  names with their decoders, and the locales' interpretations; \<open>Pulse_Code\<close> is the coding NEC
  and Samsung share.  \<open>Ir_Led\<close> is the output class (\<open>ir/ir_led.cpp\<close>), \<open>Transmitters\<close> the three
  transmitter classes and the link from a transmitter object over its light to a receiver
  object; \<open>Carrier\<close> constructs them, with the PWM object that is their base class, and says what
  level the PWM puts out while the light is on.  \<open>Ir_Wait\<close> is \<open>wait_for_message\<close>: a thread blocked on the semaphore while a list of
  interrupt handlers runs.  \<open>Registry\<close> is the static array of live objects that \<open>IR_Receiver\<close> and
  \<open>Button\<close> keep; \<open>Statics\<close> puts the counts, alarm pools and event queue around it that the first
  constructor makes and the last destructor gives back, for these two classes and \<open>IR_LED\<close>
  (locale \<open>counted_class\<close>, interpreted on the three).
  Shown: the index stays in the buffer and the timer members are the live alarms in every
  reachable state; any frame within tolerance is heard exactly once, with its address and
  function; a wait ends with that message; the whole waveform of a transmission; shared resources
  exist exactly while there are objects; what the registry does when an object in its middle goes.

  \<^bold>\<open>Web server.\<close>  \<open>Txt\<close> is \<open>util/txt.cpp\<close>, a text buffer with its array, specified by the locale
  \<open>text_buffer\<close> over lists of characters, which \<open>std::string\<close> satisfies too.  \<open>Ws\<close> is
  \<open>network/ws.cpp\<close>: frame building and the in-place parser.  \<open>Http_Request\<close> is
  \<open>network/httprequest.cpp\<close>: splitting requests, looking up headers, decoding URIs and forms in
  place, reply headers.  \<open>Send_Queue\<close> holds the buffers of a client (\<open>SENDBUF\<close>), specified by the
  locale \<open>byte_pipe\<close>, with the bytes by value; \<open>Buffers\<close> has the same operations on pointers into a
  heap of static and allocated blocks, with \<open>new\<close> and \<open>delete\<close>, and shows by a simulation that in
  every history no freed memory is read, nothing is freed twice and the destructor frees what is
  owned.  \<open>Web\<close> is the server proper (\<open>network/web.cpp\<close>): the tables of clients and
  connections and every callback of lwIP and sending method, as functions of the server with
  faults as results.  \<open>Web_Invariant\<close> proves the invariant of the tables for every operation,
  \<open>Web_Sending\<close> what each sending method puts on which stream, \<open>Web_Server\<close> makes the events a
  step relation and proves what holds in every reachable state.  \<open>Web_Messages\<close> (locale
  \<open>message_app\<close>) and \<open>Web_Requests\<close> (locale \<open>http_app\<close>) follow websocket messages and HTTP
  requests from the segments that arrive to the application and back, for applications that
  keep the locale's contract; each is interpreted on an application that uses the server.
  \<open>Web_Network\<close> is the side of the class that has no part in the tables: listeners, WiFi, access
  point, scans and the timer.  \<open>Dhcp\<close> is the DHCP server of the access point
  (\<open>network/dhcpserver.c\<close>): its lease table, the search for options and the replies, with the
  exclusive ownership of a leased address over any run of packets.  \<open>Net_Helpers\<close> holds the lock
  of the driver with its guard object (\<open>network/cyw43_locker.h\<close>), the setting of the clock
  (\<open>network/web_set_time.c\<close>) and \<open>dhcp_socket_sendto\<close>.  \<open>Js_Path\<close> writes the path of the
  application's websocket into the text of \<open>websocket.js\<close>, with its two substitution loops, and
  \<open>Web_Files\<close> sends it (\<open>network/web_files_websocket.cpp\<close>).

  \<^bold>\<open>Utilities.\<close>  \<open>Button\<close> (\<open>util/button.cpp\<close>): bounce, hold and click timers and the gestures
  reported, refined against a grammar of gestures.  \<open>Json\<close>: \<open>util/jsonmap.cpp\<close> and
  \<open>util/jsonstring.cpp\<close>, with documents as trees (\<open>jtree\<close>) and their text (\<open>render\<close>) to say what
  the item count means.  \<open>File_Logger\<close>: \<open>util/file_logger.cpp\<close> and \<open>util/logger.h\<close>; \<open>file_lines\<close> are
  the pieces a loop of \<open>fgets\<close> with the buffer of 133 bytes reads, and the properties speak of
  texts whose lines fit it (\<open>whole_lines\<close>).  \<open>Log_Reader\<close>: opening, positioning and reading the log,
  as the application does with the positions \<open>find_line\<close> and \<open>find_tail\<close> return.  \<open>Led\<close>: \<open>util/led.cpp\<close>, the blinking pattern.
  \<open>Dbg_Flag\<close>: \<open>util/dbgflag.cpp\<close>, the console line editor against the meaning of its commands.
  \<open>Sound\<close>: \<open>util/sound.cpp\<close>, the state machine of the wrap interrupt: what is put out while one
  waits, and that the waiting ends.  \<open>Sound_Floats\<close> puts in its floating-point expressions and
  carries its calls out on the PWM object: the levels fit the wrap value the PWM has, and the volume
  read back is the one set.
  \<open>Floats\<close> defines rounding to the nearest binary number with a given precision, and \<open>Pwm\<close> (\<open>util/pwm\<close>, \<open>util/servo\<close>) and \<open>Battery\<close>
  (\<open>util/power\<close>) use it for every float and double operation: the frequency really put out, the
  pulses of a servo, the voltage of the battery and how long it is waited for.

  \<^bold>\<open>Bounds and termination.\<close>  No fuel is used: every loop is structural, has a measure, or, where
  the code's loop need not end (\<open>parseRequest\<close> on incomplete data, a form item without an equals
  sign, a substitution that writes back what it replaces), is a \<open>while_option\<close> or an option whose
  \<open>None\<close> is proved to be reached.  The properties
  name the bounds they need: frames below \<open>2^32 - 14\<close> bytes for the parser, content lengths of
  ten digits, 2^31 lines in a log.

  \<^bold>\<open>Not modelled.\<close>  The table of web files, which the build generates (a parameter of
  \<open>Web_Files\<close>); the JavaScript and Python files; configuration headers (options of lwIP and mbedTLS, without operations); log output of
  the classes and \<open>printPostData\<close>; what the lock of the driver excludes (callbacks do not run inside
  each other on this target; that it is balanced is shown in \<open>Net_Helpers\<close>); the set-up of the
  converter and the pin read of \<open>Power\<close>; infinities other than a divider, NaN, subnormal numbers and
  overflow of floats; accessors that return a member.
\<close>

end
